(* ===== verification/Kage_Prelude.thy ===== *)
theory Kage_Prelude
  imports Main "HOL-Library.Word"
begin

text \<open>
  Shared vocabulary of the development.

  Machine integers of the wire protocol are words of their width (a Go \<open>int32\<close> is a
  \<open>32 word\<close>, read with \<^const>\<open>sint\<close>); sizes and file positions, which Go keeps in
  \<open>int64\<close> and \<open>uint64\<close>, are \<^typ>\<open>int\<close> with the wrap-around written out by
  \<open>i64\<close>, \<open>i32\<close>, \<open>u64\<close> and \<open>u32\<close>.  Go strings are byte sequences, so they are
  HOL strings (a \<^typ>\<open>char\<close> is eight bits).  The big-endian codecs of Go's
  \<open>encoding/binary\<close> are \<open>be_put\<close> and \<open>be_get\<close>.  Errors are values:
  \<open>goerr\<close> keeps the sentinel errors of the repository and the format string and
  arguments of \<open>fmt.Errorf\<close>; a run-time panic is the separate \<open>Panic\<close> fault.
\<close>

unbundle bit_operations_syntax

named_theorems kage_eval \<open>equations that evaluate model terms on concrete inputs\<close>
named_theorems wire_simps \<open>what each write primitive appends to the buffer\<close>
named_theorems feed_simps \<open>decoders applied to a stream that starts with their own encoding\<close>
named_theorems stream_intros \<open>closure rules of stream locality\<close>

section \<open>Machine integers\<close>

type_synonym byte = "8 word"
type_synonym bytes = "byte list"
type_synonym int8 = "8 word"
type_synonym int16 = "16 word"
type_synonym int32 = "32 word"
type_synonym int64 = "64 word"

definition i64 :: "int \<Rightarrow> int" where
  "i64 x = signed_take_bit 63 x"

definition i32 :: "int \<Rightarrow> int" where
  "i32 x = signed_take_bit 31 x"

definition u64 :: "int \<Rightarrow> int" where
  "u64 x = take_bit 64 x"

definition u32 :: "int \<Rightarrow> int" where
  "u32 x = take_bit 32 x"

lemma i64_id: "- (2 ^ 63) \<le> x \<Longrightarrow> x < 2 ^ 63 \<Longrightarrow> i64 x = x"
  unfolding i64_def by (rule signed_take_bit_int_eq_self) simp_all

lemma i32_id: "- (2 ^ 31) \<le> x \<Longrightarrow> x < 2 ^ 31 \<Longrightarrow> i32 x = x"
  unfolding i32_def by (rule signed_take_bit_int_eq_self) simp_all

lemma u64_id: "0 \<le> x \<Longrightarrow> x < 2 ^ 64 \<Longrightarrow> u64 x = x"
  unfolding u64_def by (rule take_bit_int_eq_self) simp_all

lemma u32_id: "0 \<le> x \<Longrightarrow> x < 2 ^ 32 \<Longrightarrow> u32 x = x"
  unfolding u32_def by (rule take_bit_int_eq_self) simp_all

lemma i64_u64 [simp]: "i64 (u64 x) = i64 x"
  by (simp add: i64_def u64_def signed_take_bit_take_bit)

lemma i32_range: "- (2 ^ 31) \<le> i32 x" "i32 x < 2 ^ 31"
  using signed_take_bit_int_greater_eq_minus_exp [of 31 x] signed_take_bit_int_less_exp [of 31 x]
  by (simp_all add: i32_def)

lemma sint32_range: "- (2 ^ 31) \<le> sint (w :: int32)" "sint (w :: int32) < 2 ^ 31"
  using sint_range_size [of w] by (simp_all add: word_size)

section \<open>Big-endian codecs\<close>

primrec be_put :: "nat \<Rightarrow> 'a::len word \<Rightarrow> bytes" where
  "be_put 0 w = []"
| "be_put (Suc k) w = ucast (drop_bit (8 * k) w) # be_put k w"

primrec be_get :: "bytes \<Rightarrow> 'a::len word" where
  "be_get [] = 0"
| "be_get (b # bs) = push_bit (8 * length bs) (ucast b) OR be_get bs"

lemma length_be_put [simp]: "length (be_put k w) = k"
  by (induction k) simp_all

lemma be_put_1 [kage_eval]: "be_put 1 w = [ucast w]"
  by simp

lemma be_put_2 [kage_eval]: "be_put 2 w = [ucast (drop_bit 8 w), ucast w]"
  by (simp add: eval_nat_numeral)

lemma be_put_4 [kage_eval]:
  "be_put 4 w = [ucast (drop_bit 24 w), ucast (drop_bit 16 w), ucast (drop_bit 8 w), ucast w]"
  by (simp add: eval_nat_numeral)

lemma be_put_8 [kage_eval]:
  "be_put 8 w = [ucast (drop_bit 56 w), ucast (drop_bit 48 w), ucast (drop_bit 40 w),
    ucast (drop_bit 32 w), ucast (drop_bit 24 w), ucast (drop_bit 16 w), ucast (drop_bit 8 w),
    ucast w]"
  by (simp add: eval_nat_numeral)

lemma be_get_be_put_take:
  "8 * k \<le> LENGTH('a) \<Longrightarrow> be_get (be_put k (w :: 'a::len word)) = take_bit (8 * k) w"
proof (induction k)
  case 0
  then show ?case by simp
next
  case (Suc k)
  then have "be_get (be_put k w) = take_bit (8 * k) w" by simp
  then show ?case
    by simp (rule bit_word_eqI, auto simp: bit_simps)
qed

lemma be_get_be_put: "8 * k = LENGTH('a) \<Longrightarrow> be_get (be_put k (w :: 'a::len word)) = w"
  by (simp add: be_get_be_put_take take_bit_word_eq_self)

lemma bit_be_get_bound: "bit (be_get bs :: 'a::len word) n \<Longrightarrow> n < 8 * length bs"
  by (induction bs) (auto simp: bit_simps dest: bit_imp_le_length)

lemma be_put_cong:
  assumes "\<And>n. n < 8 * k \<Longrightarrow> bit v n = bit w n"
  shows "be_put k v = be_put k w"
  using assms
proof (induction k)
  case (Suc k)
  have "(ucast (drop_bit (8 * k) v) :: byte) = ucast (drop_bit (8 * k) w)"
    by (rule bit_word_eqI) (simp add: bit_simps Suc.prems)
  then show ?case using Suc by simp
qed simp

lemma be_put_be_get:
  "8 * length bs \<le> LENGTH('a) \<Longrightarrow> be_put (length bs) (be_get bs :: 'a::len word) = bs"
proof (induction bs)
  case Nil
  then show ?case by simp
next
  case (Cons b bs)
  let ?w = "push_bit (8 * length bs) (ucast b) OR be_get bs :: 'a word"
  have hd: "(ucast (drop_bit (8 * length bs) ?w) :: byte) = b"
    using Cons.prems by (intro bit_word_eqI) (auto simp: bit_simps dest: bit_be_get_bound)
  have "be_put (length bs) ?w = be_put (length bs) (be_get bs :: 'a word)"
    by (rule be_put_cong) (simp add: bit_simps)
  with Cons hd show ?case by simp
qed

lemma be_put_inj: "8 * k = LENGTH('a) \<Longrightarrow> be_put k (v :: 'a::len word) = be_put k w \<longleftrightarrow> v = w"
  by (metis be_get_be_put)

section \<open>Strings and byte slices\<close>

definition string_bytes :: "string \<Rightarrow> bytes" where
  "string_bytes s = map (\<lambda>c. word_of_nat (of_char c)) s"

definition bytes_string :: "bytes \<Rightarrow> string" where
  "bytes_string bs = map (\<lambda>b. char_of (unat b)) bs"

lemma length_string_bytes [simp]: "length (string_bytes s) = length s"
  by (simp add: string_bytes_def)

lemma length_bytes_string [simp]: "length (bytes_string bs) = length bs"
  by (simp add: bytes_string_def)

lemma string_bytes_Nil [simp]: "string_bytes [] = []" "bytes_string [] = []"
  by (simp_all add: string_bytes_def bytes_string_def)

lemma unat_of_char [simp]: "unat (word_of_nat (of_char c) :: byte) = of_char c"
  by (simp add: unat_of_nat of_char_mod_256)

lemma bytes_string_string_bytes [simp]: "bytes_string (string_bytes s) = s"
  by (induction s) (simp_all add: string_bytes_def bytes_string_def)

lemma string_bytes_bytes_string [simp]: "string_bytes (bytes_string bs) = bs"
proof -
  have "word_of_nat (of_char (char_of (unat b) :: char)) = b" for b :: byte
    using unsigned_less [of b, where ?'a = nat] by simp
  then show ?thesis
    by (simp add: string_bytes_def bytes_string_def map_idI)
qed

text \<open>The sub-slice \<open>b[i:j]\<close> of a byte slice, where the source has checked the bounds.\<close>

definition subslice :: "nat \<Rightarrow> nat \<Rightarrow> 'a list \<Rightarrow> 'a list" where
  "subslice i j xs = take (j - i) (drop i xs)"

lemma length_subslice [simp]: "length (subslice i j xs) = min (j - i) (length xs - i)"
  by (simp add: subslice_def min.commute)

lemma subslice_append_left: "j \<le> length xs \<Longrightarrow> subslice i j (xs @ ys) = subslice i j xs"
  by (cases "i \<le> j") (simp_all add: subslice_def)

lemma subslice_append_right:
  "length xs \<le> i \<Longrightarrow> subslice i j (xs @ ys) = subslice (i - length xs) (j - length xs) ys"
  by (cases "i \<le> j") (simp_all add: subslice_def)

lemma subslice_alt: "subslice i j xs = drop i (take j xs)"
  by (cases "i \<le> j") (simp_all add: subslice_def drop_take)

lemma subslice_update_inside:
  "i \<le> n \<Longrightarrow> n < j \<Longrightarrow> subslice i j (xs[n := x]) = (subslice i j xs)[n - i := x]"
  by (simp add: subslice_def drop_update_swap take_update_swap)

lemma subslice_update_outside:
  "n < i \<or> j \<le> n \<Longrightarrow> subslice i j (xs[n := x]) = subslice i j xs"
  by (cases "n < i") (simp add: subslice_def, simp add: subslice_alt)

lemma subslice_same_tail:
  "k \<le> i \<Longrightarrow> length ys = k \<Longrightarrow> k \<le> length xs \<Longrightarrow> subslice i j (ys @ drop k xs) = subslice i j xs"
  by (simp add: subslice_def)

lemma subslice_full: "length xs = j \<Longrightarrow> subslice 0 j xs = xs"
  by (simp add: subslice_def)

lemma append_eq_split:
  assumes "xs @ ys = us @ vs"
  obtains (shorter) w where "xs = us @ w" "w \<noteq> []" "vs = w @ ys"
    | (longer) w where "us = xs @ w" "ys = w @ vs"
proof -
  from assms obtain w where "xs = us @ w \<and> w @ ys = vs \<or> xs @ w = us \<and> ys = w @ vs"
    by (auto simp: append_eq_append_conv2)
  then show thesis
    using shorter longer by (cases "w = []") auto
qed

section \<open>Errors, panics and results\<close>

datatype arg = ArgInt int | ArgStr string

datatype goerr =
    io_EOF
  | io_ErrUnexpectedEOF
  | net_ErrClosed
  | os_error string
  | ErrInvalidMagicByte
  | ErrCRCMismatch
  | ErrOffsetNotFound
  | ErrSegmentFull
  | ErrInvalidOffset
  | ErrInvalidSize
  | Errorf string "arg list"
  | Wrapf string "arg list" goerr

primrec errors_Is :: "goerr \<Rightarrow> goerr \<Rightarrow> bool" where
  "errors_Is io_EOF t = (t = io_EOF)"
| "errors_Is io_ErrUnexpectedEOF t = (t = io_ErrUnexpectedEOF)"
| "errors_Is net_ErrClosed t = (t = net_ErrClosed)"
| "errors_Is (os_error m) t = (t = os_error m)"
| "errors_Is ErrInvalidMagicByte t = (t = ErrInvalidMagicByte)"
| "errors_Is ErrCRCMismatch t = (t = ErrCRCMismatch)"
| "errors_Is ErrOffsetNotFound t = (t = ErrOffsetNotFound)"
| "errors_Is ErrSegmentFull t = (t = ErrSegmentFull)"
| "errors_Is ErrInvalidOffset t = (t = ErrInvalidOffset)"
| "errors_Is ErrInvalidSize t = (t = ErrInvalidSize)"
| "errors_Is (Errorf f as) t = (t = Errorf f as)"
| "errors_Is (Wrapf f as e) t = (t = Wrapf f as e \<or> errors_Is e t)"

lemma errors_Is_refl [simp]: "errors_Is e e"
  by (cases e) simp_all

datatype fault = Err goerr | Panic string

type_synonym 'a result = "fault + 'a"

end
