(* ===== verification/Codec.thy ===== *)
theory Codec
  imports Kage_Prelude
begin

text \<open>
  The primitive codec: \<open>internal/protocol/decoder.go\<close> and \<open>encoder.go\<close>.

  An \<open>io.Reader\<close> is the bytes it will still deliver and the error it reports once they
  are used up (\<open>io.EOF\<close> for a peer that closed, any other error for a broken
  connection).  A decoder method is a function from a reader to a result and the reader
  left behind; \<open>dbind\<close> is the early return on \<open>err != nil\<close>, \<open>dwrap\<close> the
  \<open>fmt.Errorf("...: %w", err)\<close> around a call, \<open>read_items\<close> the
  \<open>for i := int32(0); i < count; i++\<close> loops of the parsers.

  Two contracts are proved once and used by every message: the locale \<open>wire_codec\<close>
  (a decoder inverts an encoder and leaves what follows untouched) and
  \<open>stream_local\<close> (a successful decode depends on the bytes it consumed only, and a
  truncated input is an error, never a success and never a panic).
\<close>

section \<open>Readers and the decoder monad\<close>

record go_reader =
  rd_data :: bytes
  rd_err :: goerr

text \<open>\<open>io.ReadFull\<close> on a buffer of \<open>n\<close> bytes.\<close>

definition ReadFull :: "nat \<Rightarrow> go_reader \<Rightarrow> (goerr + bytes) \<times> go_reader" where
  "ReadFull n r =
     (if n \<le> length (rd_data r)
      then (Inr (take n (rd_data r)), r\<lparr>rd_data := drop n (rd_data r)\<rparr>)
      else (Inl (if rd_data r \<noteq> [] \<and> rd_err r = io_EOF then io_ErrUnexpectedEOF else rd_err r),
            r\<lparr>rd_data := []\<rparr>))"

type_synonym 'a dec = "go_reader \<Rightarrow> 'a result \<times> go_reader"

definition dreturn :: "'a \<Rightarrow> 'a dec" where
  "dreturn x r = (Inr x, r)"

definition dfail :: "fault \<Rightarrow> 'a dec" where
  "dfail f r = (Inl f, r)"

definition dbind :: "'a dec \<Rightarrow> ('a \<Rightarrow> 'b dec) \<Rightarrow> 'b dec" where
  "dbind m f r = (case m r of (Inl e, r') \<Rightarrow> (Inl e, r') | (Inr x, r') \<Rightarrow> f x r')"

definition dwrap :: "string \<Rightarrow> arg list \<Rightarrow> 'a dec \<Rightarrow> 'a dec" where
  "dwrap fmt as m r =
     (case m r of
        (Inl (Err e), r') \<Rightarrow> (Inl (Err (Wrapf fmt as e)), r')
      | res \<Rightarrow> res)"

definition dguard :: "bool \<Rightarrow> fault \<Rightarrow> unit dec" where
  "dguard b f = (if b then dreturn () else dfail f)"

definition dread :: "nat \<Rightarrow> bytes dec" where
  "dread n r = (case ReadFull n r of (Inl e, r') \<Rightarrow> (Inl (Err e), r') | (Inr b, r') \<Rightarrow> (Inr b, r'))"

primrec read_items :: "(int \<Rightarrow> 'a dec) \<Rightarrow> nat \<Rightarrow> int \<Rightarrow> 'a list dec" where
  "read_items f 0 i = dreturn []"
| "read_items f (Suc k) i = dbind (f i) (\<lambda>x. dbind (read_items f k (i + 1)) (\<lambda>xs. dreturn (x # xs)))"

text \<open>
  \<open>make([]T, 0, count)\<close> panics on a negative capacity; the loop after it runs
  \<open>count\<close> times.
\<close>

definition make_then_read :: "int32 \<Rightarrow> (int \<Rightarrow> 'a dec) \<Rightarrow> 'a list dec" where
  "make_then_read count f =
     dbind (dguard (0 \<le> sint count) (Panic ''makeslice: cap out of range''))
       (\<lambda>_. read_items f (nat (sint count)) 0)"

section \<open>Decoder\<close>

definition ReadInt8 :: "int8 dec" where
  "ReadInt8 = dbind (dread 1) (\<lambda>b. dreturn (be_get b))"

definition ReadInt16 :: "int16 dec" where
  "ReadInt16 = dbind (dread 2) (\<lambda>b. dreturn (be_get b))"

definition ReadInt32 :: "int32 dec" where
  "ReadInt32 = dbind (dread 4) (\<lambda>b. dreturn (be_get b))"

definition ReadInt64 :: "int64 dec" where
  "ReadInt64 = dbind (dread 8) (\<lambda>b. dreturn (be_get b))"

definition ReadBytes :: "int \<Rightarrow> bytes dec" where
  "ReadBytes n = (if n \<le> 0 then dreturn [] else dread (nat n))"

definition ReadBool :: "bool dec" where
  "ReadBool = dbind ReadInt8 (\<lambda>v. dreturn (v \<noteq> 0))"

definition ReadString :: "string dec" where
  "ReadString =
     dbind ReadInt16 (\<lambda>len.
       if sint len \<le> 0 then dreturn []
       else dbind (ReadBytes (sint len)) (\<lambda>b. dreturn (bytes_string b)))"

section \<open>Encoder\<close>

record encoder =
  buffer :: bytes

definition NewEncoder :: encoder where
  "NewEncoder = \<lparr>buffer = []\<rparr>"

definition WriteBytes :: "bytes \<Rightarrow> encoder \<Rightarrow> encoder" where
  "WriteBytes v e = e\<lparr>buffer := buffer e @ v\<rparr>"

definition WriteInt32 :: "int32 \<Rightarrow> encoder \<Rightarrow> encoder" where
  "WriteInt32 v e = e\<lparr>buffer := buffer e @ be_put 4 v\<rparr>"

definition WriteInt16 :: "int16 \<Rightarrow> encoder \<Rightarrow> encoder" where
  "WriteInt16 v e = e\<lparr>buffer := buffer e @ be_put 2 v\<rparr>"

definition WriteInt64 :: "int64 \<Rightarrow> encoder \<Rightarrow> encoder" where
  "WriteInt64 v e = e\<lparr>buffer := buffer e @ be_put 8 v\<rparr>"

definition WriteInt8 :: "int8 \<Rightarrow> encoder \<Rightarrow> encoder" where
  "WriteInt8 v e = e\<lparr>buffer := buffer e @ [v]\<rparr>"

definition WriteString :: "string \<Rightarrow> encoder \<Rightarrow> encoder" where
  "WriteString s e =
     (let e' = WriteInt16 (word_of_nat (length s)) e
      in e'\<lparr>buffer := buffer e' @ string_bytes s\<rparr>)"

definition WriteNullableString :: "string option \<Rightarrow> encoder \<Rightarrow> encoder" where
  "WriteNullableString v e =
     (case v of None \<Rightarrow> WriteInt16 (- 1) e | Some s \<Rightarrow> WriteString s e)"

definition FullMessage :: "encoder \<Rightarrow> bytes" where
  "FullMessage e = be_put 4 (word_of_nat (length (buffer e)) :: int32) @ buffer e"

text \<open>
  A method body that is a sequence of writes, and the \<open>for _, x := range xs\<close> loop
  over writes.
\<close>

definition enc_seq :: "(encoder \<Rightarrow> encoder) list \<Rightarrow> encoder \<Rightarrow> encoder" where
  "enc_seq fs e = fold (\<lambda>f e'. f e') fs e"

definition enc_each :: "('a \<Rightarrow> encoder \<Rightarrow> encoder) \<Rightarrow> 'a list \<Rightarrow> encoder \<Rightarrow> encoder" where
  "enc_each f xs e = fold f xs e"

subsection \<open>What the writes append\<close>

definition string_wire :: "string \<Rightarrow> bytes" where
  "string_wire s = be_put 2 (word_of_nat (length s) :: int16) @ string_bytes s"

definition array_wire :: "('a \<Rightarrow> bytes) \<Rightarrow> 'a list \<Rightarrow> bytes" where
  "array_wire f xs = be_put 4 (word_of_nat (length xs) :: int32) @ concat (map f xs)"

definition bytes_wire :: "bytes \<Rightarrow> bytes" where
  "bytes_wire b = be_put 4 (word_of_nat (length b) :: int32) @ b"

definition nullable_wire :: "string option \<Rightarrow> bytes" where
  "nullable_wire v = (case v of None \<Rightarrow> be_put 2 (- 1 :: int16) | Some s \<Rightarrow> string_wire s)"

lemma buffer_writes [wire_simps]:
  "buffer (WriteBytes b e) = buffer e @ b"
  "buffer (WriteInt8 v8 e) = buffer e @ [v8]"
  "buffer (WriteInt16 v16 e) = buffer e @ be_put 2 v16"
  "buffer (WriteInt32 v32 e) = buffer e @ be_put 4 v32"
  "buffer (WriteInt64 v64 e) = buffer e @ be_put 8 v64"
  "buffer (WriteString s e) = buffer e @ string_wire s"
  "buffer (WriteNullableString ns e) = buffer e @ nullable_wire ns"
  "buffer NewEncoder = []"
  by (simp_all add: WriteBytes_def WriteInt8_def WriteInt16_def WriteInt32_def WriteInt64_def
      WriteString_def WriteNullableString_def string_wire_def nullable_wire_def Let_def
      NewEncoder_def split: option.split)

lemma buffer_enc_seq [wire_simps]:
  "buffer (enc_seq [] e) = buffer e"
  "buffer (enc_seq (f # fs) e) = buffer (enc_seq fs (f e))"
  by (simp_all add: enc_seq_def)

lemma buffer_enc_each:
  assumes "\<And>x e. buffer (f x e) = buffer e @ w x"
  shows "buffer (enc_each f xs e) = buffer e @ concat (map w xs)"
  unfolding enc_each_def using assms by (induction xs arbitrary: e) simp_all

section \<open>Feeding a decoder\<close>

definition feed :: "bytes \<Rightarrow> go_reader \<Rightarrow> go_reader" where
  "feed bs r = r\<lparr>rd_data := bs @ rd_data r\<rparr>"

lemma feed_append [simp]: "feed (xs @ ys) r = feed xs (feed ys r)"
  by (simp add: feed_def)

lemma feed_Nil [simp]: "feed [] r = r"
  by (simp add: feed_def)

lemma dbind_Inr: "m r = (Inr x, r') \<Longrightarrow> dbind m f r = f x r'"
  by (simp add: dbind_def)

lemma dwrap_Inr: "m r = (Inr x, r') \<Longrightarrow> dwrap fmt as m r = (Inr x, r')"
  by (simp add: dwrap_def)

lemma dread_feed: "dread (length b) (feed b r) = (Inr b, r)"
  by (simp add: dread_def ReadFull_def feed_def)

lemma ReadInt_feed [feed_simps]:
  "ReadInt8 (feed [v8] r) = (Inr v8, r)"
  "ReadInt16 (feed (be_put 2 v16) r) = (Inr v16, r)"
  "ReadInt32 (feed (be_put 4 v32) r) = (Inr v32, r)"
  "ReadInt64 (feed (be_put 8 v64) r) = (Inr v64, r)"
  using dread_feed [of "be_put 2 v16" r] dread_feed [of "be_put 4 v32" r]
    dread_feed [of "be_put 8 v64" r] dread_feed [of "[v8]" r]
  by (simp_all add: ReadInt8_def ReadInt16_def ReadInt32_def ReadInt64_def dbind_def dreturn_def
      be_get_be_put)

lemma ReadInt8_feed_Cons [feed_simps]: "ReadInt8 (feed (v8 # bs) r) = (Inr v8, feed bs r)"
  using ReadInt_feed(1) [of v8 "feed bs r"] by (simp add: feed_def)

lemma ReadBytes_feed [feed_simps]: "n = int (length b) \<Longrightarrow> ReadBytes n (feed b r) = (Inr b, r)"
  using dread_feed [of b r] by (cases "b = []") (simp_all add: ReadBytes_def dreturn_def)

lemma sint_of_length16: "n < 2 ^ 15 \<Longrightarrow> sint (word_of_nat n :: int16) = int n"
  by (simp add: signed_of_nat signed_take_bit_int_eq_self)

lemma sint_of_length32: "n < 2 ^ 31 \<Longrightarrow> sint (word_of_nat n :: int32) = int n"
  by (simp add: signed_of_nat signed_take_bit_int_eq_self)

lemma ReadString_feed [feed_simps]:
  assumes "length s < 2 ^ 15"
  shows "ReadString (feed (string_wire s) r) = (Inr s, r)"
proof -
  have "sint (word_of_nat (length s) :: int16) = int (length s)"
    using assms by (rule sint_of_length16)
  then show ?thesis
    by (cases "s = []")
      (simp_all add: ReadString_def string_wire_def dbind_def dreturn_def feed_simps)
qed

section \<open>The codec contract\<close>

text \<open>
  A decoder (indexed by its position in an array, which only its error messages use)
  recovers from the encoding of a value in \<open>ok\<close> what the encoding carries of it,
  its \<open>view\<close>, whatever bytes follow.  In a \<open>wire_codec\<close> the encoding carries
  the whole value, so it is uniquely decodable.
\<close>

locale wire_view =
  fixes enc :: "'a \<Rightarrow> bytes"
    and dec :: "int \<Rightarrow> 'b dec"
    and ok :: "'a \<Rightarrow> bool"
    and view :: "'a \<Rightarrow> 'b"
  assumes dec_enc: "ok x \<Longrightarrow> dec i (feed (enc x) r) = (Inr (view x), r)"
begin

lemma items_dec_enc:
  "list_all ok xs \<Longrightarrow>
   read_items dec (length xs) i (feed (concat (map enc xs)) r) = (Inr (map view xs), r)"
  by (induction xs arbitrary: i) (simp_all add: dreturn_def dbind_def dec_enc)

lemma make_dec_enc:
  assumes "list_all ok xs" and "length xs < 2 ^ 31"
  shows "make_then_read (word_of_nat (length xs)) dec (feed (concat (map enc xs)) r) =
    (Inr (map view xs), r)"
proof -
  have "sint (word_of_nat (length xs) :: int32) = int (length xs)"
    using assms(2) by (rule sint_of_length32)
  then show ?thesis
    using items_dec_enc [OF assms(1)]
    by (simp add: dbind_def make_then_read_def dguard_def dreturn_def)
qed

end

locale wire_codec = wire_view enc dec ok "\<lambda>x. x"
  for enc :: "'a \<Rightarrow> bytes" and dec :: "int \<Rightarrow> 'a dec" and ok :: "'a \<Rightarrow> bool"
begin

lemma enc_unique:
  assumes "ok x" and "ok y" and "enc x @ s = enc y @ t"
  shows "x = y \<and> s = t"
proof -
  let ?r = "\<lparr>rd_data = [], rd_err = io_EOF\<rparr>"
  have "dec 0 (feed (enc x @ s) ?r) = (Inr x, feed s ?r)"
    "dec 0 (feed (enc y @ t) ?r) = (Inr y, feed t ?r)"
    using assms(1,2) by (simp_all add: dec_enc)
  with assms(3) show ?thesis by (simp add: feed_def)
qed

end

interpretation int32_codec: wire_codec "be_put 4" "\<lambda>_. ReadInt32" "\<lambda>_. True"
  by unfold_locales (simp add: feed_simps)

interpretation string_codec: wire_codec string_wire "\<lambda>_. ReadString" "\<lambda>s. length s < 2 ^ 15"
  by unfold_locales (rule ReadString_feed)

section \<open>Stream locality\<close>

text \<open>
  \<open>consumes d x c\<close>: on every stream that starts with \<open>c\<close> the decoder returns
  \<open>x\<close> and leaves exactly what follows \<open>c\<close>; on every stream that stops inside
  \<open>c\<close> it returns an error that wraps the end-of-stream error.
\<close>

definition consumes :: "'a dec \<Rightarrow> 'a \<Rightarrow> bytes \<Rightarrow> bool" where
  "consumes d x c \<longleftrightarrow>
     (\<forall>q t. rd_data q = c @ t \<longrightarrow> d q = (Inr x, q\<lparr>rd_data := t\<rparr>)) \<and>
     (\<forall>q s. c = rd_data q @ s \<and> s \<noteq> [] \<longrightarrow>
        (\<exists>e. d q = (Inl (Err e), q\<lparr>rd_data := []\<rparr>) \<and>
             (errors_Is e (rd_err q) \<or> errors_Is e io_ErrUnexpectedEOF)))"

definition stream_local :: "'a dec \<Rightarrow> bool" where
  "stream_local d \<longleftrightarrow> (\<forall>r x r'. d r = (Inr x, r') \<longrightarrow> (\<exists>c. r = feed c r' \<and> consumes d x c))"

lemma consumes_complete: "consumes d x c \<Longrightarrow> rd_data q = c @ t \<Longrightarrow> d q = (Inr x, q\<lparr>rd_data := t\<rparr>)"
  by (simp add: consumes_def)

lemma consumes_truncated:
  "consumes d x c \<Longrightarrow> c = rd_data q @ s \<Longrightarrow> s \<noteq> [] \<Longrightarrow>
   \<exists>e. d q = (Inl (Err e), q\<lparr>rd_data := []\<rparr>) \<and>
       (errors_Is e (rd_err q) \<or> errors_Is e io_ErrUnexpectedEOF)"
  by (simp add: consumes_def)

lemma stream_localI:
  "(\<And>r x r'. d r = (Inr x, r') \<Longrightarrow> \<exists>c. r = feed c r' \<and> consumes d x c) \<Longrightarrow> stream_local d"
  by (simp add: stream_local_def)

lemma stream_localD: "stream_local d \<Longrightarrow> d r = (Inr x, r') \<Longrightarrow> \<exists>c. r = feed c r' \<and> consumes d x c"
  by (simp add: stream_local_def)

lemma consumes_dbind:
  assumes "consumes m a c" and "consumes (f a) x c'"
  shows "consumes (dbind m f) x (c @ c')"
  unfolding consumes_def
proof (intro conjI allI impI)
  fix q :: go_reader and t
  assume "rd_data q = (c @ c') @ t"
  then have "m q = (Inr a, q\<lparr>rd_data := c' @ t\<rparr>)"
    using assms(1) by (simp add: consumes_complete)
  moreover have "f a (q\<lparr>rd_data := c' @ t\<rparr>) = (Inr x, q\<lparr>rd_data := t\<rparr>)"
    using consumes_complete [OF assms(2), of "q\<lparr>rd_data := c' @ t\<rparr>" t] by simp
  ultimately show "dbind m f q = (Inr x, q\<lparr>rd_data := t\<rparr>)"
    by (simp add: dbind_def)
next
  fix q :: go_reader and s
  assume "c @ c' = rd_data q @ s \<and> s \<noteq> []"
  then have "c @ c' = rd_data q @ s" and s: "s \<noteq> []" by simp_all
  then show "\<exists>e. dbind m f q = (Inl (Err e), q\<lparr>rd_data := []\<rparr>) \<and>
      (errors_Is e (rd_err q) \<or> errors_Is e io_ErrUnexpectedEOF)"
  proof (cases rule: append_eq_split)
    case (shorter u)
    with consumes_truncated [OF assms(1)] obtain e
      where "m q = (Inl (Err e), q\<lparr>rd_data := []\<rparr>)"
        "errors_Is e (rd_err q) \<or> errors_Is e io_ErrUnexpectedEOF" by blast
    then show ?thesis by (simp add: dbind_def)
  next
    case (longer u)
    then have "m q = (Inr a, q\<lparr>rd_data := u\<rparr>)"
      using assms(1) by (simp add: consumes_complete)
    moreover obtain e where "f a (q\<lparr>rd_data := u\<rparr>) = (Inl (Err e), q\<lparr>rd_data := []\<rparr>)"
        "errors_Is e (rd_err q) \<or> errors_Is e io_ErrUnexpectedEOF"
      using consumes_truncated [OF assms(2), of "q\<lparr>rd_data := u\<rparr>" s] longer s by auto
    ultimately show ?thesis by (simp add: dbind_def)
  qed
qed

lemma consumes_dwrap: "consumes m x c \<Longrightarrow> consumes (dwrap fmt as m) x c"
  unfolding consumes_def dwrap_def by (force split: prod.splits)

lemma stream_local_dreturn [stream_intros]: "stream_local (dreturn x)"
  by (rule stream_localI, rule exI [of _ "[]"]) (auto simp: dreturn_def consumes_def)

lemma stream_local_dfail [stream_intros]: "stream_local (dfail f)"
  by (rule stream_localI) (simp add: dfail_def)

lemma stream_local_dguard [stream_intros]: "stream_local (dguard b f)"
  by (simp add: dguard_def stream_intros)

lemma stream_local_dread [stream_intros]: "stream_local (dread n)"
proof (rule stream_localI)
  fix r x r'
  assume "dread n r = (Inr x, r')"
  then have "r = feed x r'" and len: "length x = n"
    by (auto simp: dread_def ReadFull_def feed_def split: if_splits)
  moreover have "consumes (dread n) x x"
    using len by (auto simp: consumes_def dread_def ReadFull_def)
  ultimately show "\<exists>c. r = feed c r' \<and> consumes (dread n) x c" by blast
qed

lemma stream_local_dbind [stream_intros]:
  assumes "stream_local m" and "\<And>a. stream_local (f a)"
  shows "stream_local (dbind m f)"
proof (rule stream_localI)
  fix r x r'
  assume "dbind m f r = (Inr x, r')"
  then obtain a r1 where m: "m r = (Inr a, r1)" and f: "f a r1 = (Inr x, r')"
    by (auto simp: dbind_def split: prod.splits sum.splits)
  from stream_localD [OF assms(1) m] obtain c where "r = feed c r1" "consumes m a c" by blast
  moreover from stream_localD [OF assms(2) f] obtain c' where "r1 = feed c' r'" "consumes (f a) x c'"
    by blast
  ultimately have "r = feed (c @ c') r'" "consumes (dbind m f) x (c @ c')"
    by (simp_all add: consumes_dbind)
  then show "\<exists>c. r = feed c r' \<and> consumes (dbind m f) x c" by blast
qed

lemma stream_local_dwrap [stream_intros]:
  assumes "stream_local m"
  shows "stream_local (dwrap fmt as m)"
proof (rule stream_localI)
  fix r x r'
  assume "dwrap fmt as m r = (Inr x, r')"
  then have "m r = (Inr x, r')"
    by (auto simp: dwrap_def split: prod.splits sum.splits fault.splits)
  from stream_localD [OF assms this] show "\<exists>c. r = feed c r' \<and> consumes (dwrap fmt as m) x c"
    by (blast intro: consumes_dwrap)
qed

lemma stream_local_if [stream_intros]:
  "stream_local m \<Longrightarrow> stream_local n \<Longrightarrow> stream_local (if b then m else n)"
  by simp

lemma stream_local_items [stream_intros]:
  "(\<And>i. stream_local (f i)) \<Longrightarrow> stream_local (read_items f k i)"
  by (induction k arbitrary: i) (simp_all add: stream_intros)

lemma stream_local_make [stream_intros]:
  "(\<And>i. stream_local (f i)) \<Longrightarrow> stream_local (make_then_read n f)"
  unfolding make_then_read_def by (intro stream_intros)

lemma stream_local_prims [stream_intros]:
  "stream_local ReadInt8" "stream_local ReadInt16" "stream_local ReadInt32"
  "stream_local ReadInt64" "stream_local (ReadBytes n)" "stream_local ReadBool"
  "stream_local ReadString"
  unfolding ReadInt8_def ReadInt16_def ReadInt32_def ReadInt64_def ReadBytes_def ReadBool_def
    ReadString_def
  by (intro stream_intros)+

end
