(* ===== verification/Record_Batch.thy ===== *)
theory Record_Batch
  imports Codec
begin

text \<open>
  \<open>internal/protocol/record_batch.go\<close>: the shallow validation of a Kafka RecordBatch
  (magic v2).  The CRC32C of Go's \<open>hash/crc32\<close> with the Castagnoli table is written
  out bit by bit (reflected polynomial, initial and final complement).

  Shown here: exactly which batches are accepted and which count is returned, on which
  batches the slice expression of the checksum panics, that the base offset is outside
  the protected region, and that every corruption of a single protected byte is
  reported as a CRC mismatch.
\<close>

section \<open>CRC32C\<close>

definition crc32c_poly :: "32 word" where
  "crc32c_poly = 0x82F63B78"

definition crc_step :: "32 word \<Rightarrow> 32 word" where
  "crc_step c = (if bit c 0 then drop_bit 1 c XOR crc32c_poly else drop_bit 1 c)"

definition crc_byte :: "byte \<Rightarrow> 32 word \<Rightarrow> 32 word" where
  "crc_byte b c = (crc_step ^^ 8) (c XOR ucast b)"

definition crc32c_Checksum :: "bytes \<Rightarrow> 32 word" where
  "crc32c_Checksum bs = NOT (fold crc_byte bs (NOT 0))"

section \<open>Validation\<close>

definition rbOffsetLength :: nat where "rbOffsetLength = 8"
definition rbOffsetMagic :: nat where "rbOffsetMagic = 16"
definition rbOffsetCRC :: nat where "rbOffsetCRC = 17"
definition rbOffsetCRCBody :: nat where "rbOffsetCRCBody = 21"
definition rbOffsetRecordsCount :: nat where "rbOffsetRecordsCount = 57"
definition rbMinBytes :: nat where "rbMinBytes = 61"

lemmas rb_consts = rbOffsetLength_def rbOffsetMagic_def rbOffsetCRC_def rbOffsetCRCBody_def
  rbOffsetRecordsCount_def rbMinBytes_def

text \<open>\<open>binary.BigEndian.Uint32(b[i:])\<close>, used where \<open>i + 4 \<le> len(b)\<close> is known.\<close>

definition Uint32_at :: "bytes \<Rightarrow> nat \<Rightarrow> 32 word" where
  "Uint32_at b i = be_get (subslice i (i + 4) b)"

definition ValidateRecordBatch :: "bytes \<Rightarrow> int32 result" where
  "ValidateRecordBatch batch =
     (if length batch < rbMinBytes
      then Inl (Err (Errorf ''record batch: too short (%d bytes, need at least %d)''
             [ArgInt (int (length batch)), ArgInt (int rbMinBytes)]))
      else if batch ! rbOffsetMagic \<noteq> 2
      then Inl (Err (Wrapf ''%w: got %d'' [ArgInt (uint (batch ! rbOffsetMagic))] ErrInvalidMagicByte))
      else
        let batchLength = unat (Uint32_at batch rbOffsetLength);
            expectedTotal = batchLength + 12
        in if length batch < expectedTotal
           then Inl (Err (Errorf ''record batch: batch length field (%d) exceeds buffer size (%d)''
                  [ArgInt (int expectedTotal), ArgInt (int (length batch))]))
           else
             let storedCRC = Uint32_at batch rbOffsetCRC
             in if expectedTotal < rbOffsetCRCBody
                then Inl (Panic ''slice bounds out of range'')
                else
                  let computedCRC = crc32c_Checksum (subslice rbOffsetCRCBody expectedTotal batch)
                  in if storedCRC \<noteq> computedCRC
                     then Inl (Err (Wrapf ''%w: stored=0x%08x computed=0x%08x''
                            [ArgInt (uint storedCRC), ArgInt (uint computedCRC)] ErrCRCMismatch))
                     else Inr (Uint32_at batch rbOffsetRecordsCount))"

section \<open>Evaluation\<close>

lemma crc_byte_unfold:
  "crc_byte b c =
     crc_step (crc_step (crc_step (crc_step (crc_step (crc_step (crc_step (crc_step (c XOR ucast b))))))))"
  by (simp add: crc_byte_def eval_nat_numeral)

lemma crc32c_Checksum_eval: "crc32c_Checksum bs = 0xFFFFFFFF XOR fold crc_byte bs 0xFFFFFFFF"
proof -
  have m: "(NOT 0 :: 32 word) = 0xFFFFFFFF" by simp
  have "NOT w = 0xFFFFFFFF XOR w" for w :: "32 word"
    by (metis m bit.xor_compl_left xor.left_neutral)
  then show ?thesis by (simp add: crc32c_Checksum_def m)
qed

lemma crc_step_eval:
  "crc_step (numeral n) =
     (if bit (numeral n :: 32 word) 0 then drop_bit 1 (numeral n) XOR 0x82F63B78
      else drop_bit 1 (numeral n))"
  by (simp add: crc_step_def crc32c_poly_def)

lemmas crc_eval = crc32c_Checksum_eval crc_byte_unfold crc_step_eval

text \<open>The check value of CRC32C, the checksum of the ASCII digits 1 to 9.\<close>

lemma crc32c_check_value:
  "crc32c_Checksum [0x31, 0x32, 0x33, 0x34, 0x35, 0x36, 0x37, 0x38, 0x39] = 0xE3069283"
  by (simp add: crc_eval)

text \<open>A batch of one record with an empty body: 61 bytes, length field 49.\<close>

definition sample_batch :: bytes where
  "sample_batch =
     [0, 0, 0, 0, 0, 0, 0, 0, 0, 0, 0, 49, 0, 0, 0, 0, 2, 0xab, 0x34, 0x34, 0xde,
      0, 0, 0, 0, 0, 0, 0, 0, 0, 0, 0, 0, 0, 0, 0, 0, 0, 0, 0, 0,
      0, 0, 0, 0, 0, 0, 0, 0, 0, 0, 0, 0, 0, 0, 0, 0, 0, 0, 0, 1]"

lemma sample_batch_crc: "crc32c_Checksum (drop 21 sample_batch) = 0xab3434de"
  by (simp add: sample_batch_def crc_eval)

lemma sample_batch_fields:
  "length sample_batch = 61" "Uint32_at sample_batch 8 = 49" "Uint32_at sample_batch 17 = 0xab3434de"
  "Uint32_at sample_batch 57 = 1" "sample_batch ! 16 = 2" "sample_batch ! 30 = 0"
  by (simp_all add: sample_batch_def Uint32_at_def subslice_def)

lemma sample_batch_valid: "ValidateRecordBatch sample_batch = Inr 1"
proof -
  have "subslice 21 61 sample_batch = drop 21 sample_batch"
    by (simp add: subslice_def sample_batch_fields)
  then show ?thesis
    by (simp add: ValidateRecordBatch_def rb_consts sample_batch_fields sample_batch_crc)
qed

section \<open>The checksum detects a corrupted byte\<close>

lemma bit_crc_step:
  "bit (crc_step c) n =
     (n < 32 \<and> (bit c (Suc n) \<noteq> (bit c 0 \<and> bit crc32c_poly n)))"
  by (auto simp: crc_step_def bit_simps dest: bit_imp_le_length)

lemma crc_step_inj: "crc_step c = crc_step d \<Longrightarrow> c = d"
proof (rule bit_word_eqI)
  fix n
  assume eq: "crc_step c = crc_step d" and n: "n < LENGTH(32)"
  have "bit crc32c_poly 31" by (simp add: crc32c_poly_def)
  moreover have "\<not> bit c 32" "\<not> bit d 32" by (auto dest: bit_imp_le_length)
  moreover have *: "bit (crc_step c) k = bit (crc_step d) k" for k by (simp add: eq)
  ultimately have zero: "bit c 0 = bit d 0"
    using * [of 31] by (simp add: bit_crc_step)
  show "bit c n = bit d n"
  proof (cases n)
    case 0
    with zero show ?thesis by simp
  next
    case (Suc m)
    with * [of m] zero n show ?thesis by (auto simp: bit_crc_step)
  qed
qed

lemma crc_steps_inj: "(crc_step ^^ k) c = (crc_step ^^ k) d \<Longrightarrow> c = d"
  by (induction k) (auto dest: crc_step_inj)

lemma xor_cancel: "(a :: 'a::len word) XOR b = a XOR c \<longleftrightarrow> b = c"
  by (metis xor.left_commute xor.assoc xor_self_eq xor.left_neutral)

lemma ucast_byte_inj: "(ucast a :: 32 word) = ucast b \<longleftrightarrow> a = (b :: byte)"
proof
  assume eq: "(ucast a :: 32 word) = ucast b"
  show "a = b"
  proof (rule bit_word_eqI)
    fix n
    assume "n < LENGTH(8)"
    then show "bit a n = bit b n"
      using arg_cong [OF eq, of "\<lambda>w. bit w n"] by (simp add: bit_simps)
  qed
qed simp

lemma crc_byte_state_inj: "crc_byte b c = crc_byte b d \<Longrightarrow> c = d"
  using xor_cancel [of "ucast b" c d] crc_steps_inj [of 8 "c XOR ucast b" "d XOR ucast b"]
  by (simp add: crc_byte_def xor.commute)

lemma crc_byte_data_inj: "crc_byte a c = crc_byte b c \<Longrightarrow> a = b"
  using xor_cancel [of c "ucast a" "ucast b"] crc_steps_inj [of 8 "c XOR ucast a" "c XOR ucast b"]
  by (simp add: crc_byte_def ucast_byte_inj)

lemma crc_fold_inj: "fold crc_byte bs c = fold crc_byte bs d \<Longrightarrow> c = d"
  by (induction bs arbitrary: c d) (auto dest: crc_byte_state_inj)

lemma crc32c_single_byte:
  assumes "crc32c_Checksum (xs @ a # ys) = crc32c_Checksum (xs @ b # ys)"
  shows "a = b"
proof -
  have "fold crc_byte (xs @ a # ys) (NOT 0) = fold crc_byte (xs @ b # ys) (NOT 0)"
    using assms by (simp add: crc32c_Checksum_def)
  then have "crc_byte a (fold crc_byte xs (NOT 0)) = crc_byte b (fold crc_byte xs (NOT 0))"
    using crc_fold_inj by auto
  then show ?thesis by (rule crc_byte_data_inj)
qed

lemma crc32c_update_detects:
  assumes "i < length bs" and "x \<noteq> bs ! i"
  shows "crc32c_Checksum (bs[i := x]) \<noteq> crc32c_Checksum bs"
proof
  assume "crc32c_Checksum (bs[i := x]) = crc32c_Checksum bs"
  then have "x = bs ! i"
    using assms(1) crc32c_single_byte [of "take i bs" x "drop (Suc i) bs" "bs ! i"]
    by (simp add: upd_conv_take_nth_drop id_take_nth_drop [symmetric])
  with assms(2) show False by simp
qed

section \<open>Properties of the validation\<close>

text \<open>The acceptance condition as one proposition over the header fields.\<close>

definition batch_wf :: "bytes \<Rightarrow> bool" where
  "batch_wf b \<longleftrightarrow>
     61 \<le> length b \<and> b ! 16 = 2 \<and>
     9 \<le> unat (Uint32_at b 8) \<and> unat (Uint32_at b 8) + 12 \<le> length b \<and>
     Uint32_at b 17 = crc32c_Checksum (subslice 21 (unat (Uint32_at b 8) + 12) b)"

lemma validate_eq_Inr:
  "ValidateRecordBatch b = Inr n \<longleftrightarrow> batch_wf b \<and> n = Uint32_at b 57"
  by (auto simp: ValidateRecordBatch_def batch_wf_def rb_consts Let_def)

lemma validate_cong:
  assumes "length b' = length b" and "61 \<le> length b \<Longrightarrow> b' ! 16 = b ! 16"
    and "\<And>i j. 8 \<le> i \<Longrightarrow> subslice i j b' = subslice i j b"
  shows "ValidateRecordBatch b' = ValidateRecordBatch b"
  using assms by (simp add: ValidateRecordBatch_def rb_consts Let_def Uint32_at_def)

text \<open>
  C38: \<open>ValidateRecordBatch\<close> panics (the slice \<open>batch[21:expectedTotal]\<close> has its bounds
  reversed) exactly on a batch of at least 61 bytes with magic 2 whose length field is
  below 9; every other input returns a count or an error.
\<close>

theorem validate_panics_iff:
  "(\<exists>m. ValidateRecordBatch b = Inl (Panic m)) \<longleftrightarrow>
   61 \<le> length b \<and> b ! 16 = 2 \<and> unat (Uint32_at b 8) < 9"
  by (auto simp: ValidateRecordBatch_def rb_consts Let_def)

text \<open>
  C37: validation does not depend on the first eight bytes of the batch, the base offset,
  so that rewriting the base offset of a stored batch keeps the verdict and the count.
\<close>

theorem validate_ignores_base_offset:
  assumes "8 \<le> length b"
  shows "ValidateRecordBatch (be_put 8 (base :: int64) @ drop 8 b) = ValidateRecordBatch b"
proof -
  let ?b = "be_put 8 base @ drop 8 b"
  have "length ?b = length b" using assms by simp
  moreover have "?b ! 16 = b ! 16" if "61 \<le> length b"
    using that by (simp add: nth_append)
  moreover have "subslice i j ?b = subslice i j b" if "8 \<le> i" for i j
    using that assms by (intro subslice_same_tail) simp_all
  ultimately show ?thesis by (rule validate_cong)
qed

theorem validate_ignores_base_offset_witness:
  "8 \<le> length sample_batch \<and>
   ValidateRecordBatch (be_put 8 (77 :: int64) @ drop 8 sample_batch) = Inr 1"
  using validate_ignores_base_offset [of sample_batch 77]
  by (simp add: sample_batch_fields sample_batch_valid)

text \<open>
  C12: if a batch is accepted, then after any change of one byte of the protected region
  (byte 21 to the end given by the length field) it is rejected with
  \<open>ErrCRCMismatch\<close>.
\<close>

theorem validate_detects_corruption:
  assumes ok: "ValidateRecordBatch b = Inr n"
    and i: "21 \<le> i" "i < unat (Uint32_at b 8) + 12" and x: "x \<noteq> b ! i"
  shows "\<exists>e. ValidateRecordBatch (b[i := x]) = Inl (Err e) \<and> errors_Is e ErrCRCMismatch"
proof -
  let ?t = "unat (Uint32_at b 8) + 12"
  from ok have wf: "batch_wf b" by (simp add: validate_eq_Inr)
  then have len: "?t \<le> length b" and "9 \<le> unat (Uint32_at b 8)" by (simp_all add: batch_wf_def)
  have "subslice 21 ?t b ! (i - 21) = b ! i" using i len by (simp add: subslice_def)
  then have "crc32c_Checksum (subslice 21 ?t (b[i := x])) \<noteq> crc32c_Checksum (subslice 21 ?t b)"
    using i x len by (simp add: subslice_update_inside crc32c_update_detects)
  moreover have "Uint32_at (b[i := x]) 17 = Uint32_at b 17" "Uint32_at (b[i := x]) 8 = Uint32_at b 8"
    "b[i := x] ! 16 = b ! 16"
    using i by (simp_all add: Uint32_at_def subslice_update_outside)
  ultimately show ?thesis
    using wf by (auto simp: ValidateRecordBatch_def batch_wf_def rb_consts Let_def)
qed

theorem validate_detects_corruption_witness:
  "\<exists>e. ValidateRecordBatch (sample_batch[30 := 7]) = Inl (Err e) \<and> errors_Is e ErrCRCMismatch"
  by (rule validate_detects_corruption [OF sample_batch_valid, of 30 7])
    (simp_all add: sample_batch_fields)

end
