(* ===== verification/Requests.thy ===== *)
theory Requests
  imports Codec
begin

text \<open>
  The request side of \<open>internal/protocol/messages.go\<close>: the request structures and the
  \<open>Parse*\<close> methods of the decoder, in the order of the file.

  For every request the wire layout documented in the source is written as a function
  from the request to bytes.  Each parser recovers the request from its layout and stops
  exactly at its end (so the next request on the connection is still aligned), and each
  is local to the stream in the sense of \<open>stream_local\<close>.
\<close>

section \<open>API keys and constants\<close>

definition ApiKeyProduce :: int16 where "ApiKeyProduce = 0"
definition ApiKeyFetch :: int16 where "ApiKeyFetch = 1"
definition ApiKeyListOffsets :: int16 where "ApiKeyListOffsets = 2"
definition ApiKeyMetadata :: int16 where "ApiKeyMetadata = 3"
definition ApiKeyOffsetCommit :: int16 where "ApiKeyOffsetCommit = 8"
definition ApiKeyOffsetFetch :: int16 where "ApiKeyOffsetFetch = 9"
definition ApiKeyFindCoordinator :: int16 where "ApiKeyFindCoordinator = 10"
definition ApiKeyJoinGroup :: int16 where "ApiKeyJoinGroup = 11"
definition ApiKeyHeartbeat :: int16 where "ApiKeyHeartbeat = 12"
definition ApiKeyLeaveGroup :: int16 where "ApiKeyLeaveGroup = 13"
definition ApiKeySyncGroup :: int16 where "ApiKeySyncGroup = 14"
definition ApiKeyApiVersions :: int16 where "ApiKeyApiVersions = 18"

lemmas api_keys = ApiKeyProduce_def ApiKeyFetch_def ApiKeyListOffsets_def ApiKeyMetadata_def
  ApiKeyOffsetCommit_def ApiKeyOffsetFetch_def ApiKeyFindCoordinator_def ApiKeyJoinGroup_def
  ApiKeyHeartbeat_def ApiKeyLeaveGroup_def ApiKeySyncGroup_def ApiKeyApiVersions_def

definition ConsumerOffsetsTopic :: string where "ConsumerOffsetsTopic = ''__consumer_offsets''"
definition OffsetUnknown :: int64 where "OffsetUnknown = - 1"
definition AcksNone :: int16 where "AcksNone = 0"
definition TimestampEarliest :: int64 where "TimestampEarliest = - 2"
definition TimestampLatest :: int64 where "TimestampLatest = - 1"

section \<open>Request header\<close>

record request_header =
  rh_Size :: int32
  rh_ApiKey :: int16
  rh_ApiVersion :: int16
  rh_CorrelationID :: int32
  rh_ClientID :: string

definition ParseRequestHeader :: "request_header dec" where
  "ParseRequestHeader =
     dbind ReadInt32 (\<lambda>size.
     dbind ReadInt16 (\<lambda>apiKey.
     dbind ReadInt16 (\<lambda>apiVersion.
     dbind ReadInt32 (\<lambda>correlationID.
     dbind ReadString (\<lambda>clientID.
     dreturn \<lparr>rh_Size = size, rh_ApiKey = apiKey, rh_ApiVersion = apiVersion,
       rh_CorrelationID = correlationID, rh_ClientID = clientID\<rparr>)))))"

definition header_wire :: "request_header \<Rightarrow> bytes" where
  "header_wire h =
     be_put 4 (rh_Size h) @ be_put 2 (rh_ApiKey h) @ be_put 2 (rh_ApiVersion h) @
     be_put 4 (rh_CorrelationID h) @ string_wire (rh_ClientID h)"

section \<open>Metadata request\<close>

record metadata_request =
  mr_Header :: request_header
  mr_Topics :: "string list"

definition parse_metadata_topic :: "int \<Rightarrow> string dec" where
  "parse_metadata_topic i =
     dwrap ''metadata request: failed to read topic name at index %d: %w'' [ArgInt i] ReadString"

definition ParseMetadataRequest :: "request_header \<Rightarrow> metadata_request dec" where
  "ParseMetadataRequest header =
     dbind (dwrap ''metadata request: failed to read topics array length: %w'' [] ReadInt32) (\<lambda>count.
     dbind (make_then_read count parse_metadata_topic) (\<lambda>topics.
     dbind (if 4 \<le> sint (rh_ApiVersion header)
            then dbind (dwrap ''metadata request: failed to read allow_auto_topic_creation: %w'' []
                          ReadBool) (\<lambda>_. dreturn ())
            else dreturn ()) (\<lambda>_.
     dreturn \<lparr>mr_Header = header, mr_Topics = topics\<rparr>)))"

definition metadata_wire :: "byte \<Rightarrow> metadata_request \<Rightarrow> bytes" where
  "metadata_wire auto req =
     array_wire string_wire (mr_Topics req) @
     (if 4 \<le> sint (rh_ApiVersion (mr_Header req)) then [auto] else [])"

section \<open>Produce request\<close>

record produce_partition =
  pp_RecordBatch :: bytes
  pp_Partition :: int32

record produce_topic =
  pt_TopicName :: string
  pt_Partitions :: "produce_partition list"

record produce_request =
  pr_Topics :: "produce_topic list"
  pr_Header :: request_header
  pr_TimeoutMs :: int32
  pr_Acks :: int16

definition parse_transactional_id :: "request_header \<Rightarrow> unit dec" where
  "parse_transactional_id header =
     (if 3 \<le> sint (rh_ApiVersion header)
      then dbind (dwrap ''produce request: read transactional_id length: %w'' [] ReadInt16) (\<lambda>txnLen.
           if 0 < sint txnLen
           then dbind (dwrap ''produce request: read transactional_id: %w'' [] (ReadBytes (sint txnLen)))
                  (\<lambda>_. dreturn ())
           else dreturn ())
      else dreturn ())"

definition parse_produce_partition :: "int \<Rightarrow> int \<Rightarrow> produce_partition dec" where
  "parse_produce_partition i j =
     dbind (dwrap ''produce request: topic[%d] partition[%d] index: %w'' [ArgInt i, ArgInt j]
              ReadInt32) (\<lambda>partition.
     dbind (dwrap ''produce request: topic[%d] partition[%d] batch size: %w'' [ArgInt i, ArgInt j]
              ReadInt32) (\<lambda>batchSize.
     dbind (dguard (0 \<le> sint batchSize)
              (Err (Errorf ''produce request: topic[%d] partition[%d] negative batch size %d''
                 [ArgInt i, ArgInt j, ArgInt (sint batchSize)]))) (\<lambda>_.
     dbind (dwrap ''produce request: topic[%d] partition[%d] batch: %w'' [ArgInt i, ArgInt j]
              (ReadBytes (sint batchSize))) (\<lambda>batch.
     dreturn \<lparr>pp_RecordBatch = batch, pp_Partition = partition\<rparr>))))"

definition parse_produce_topic :: "int \<Rightarrow> produce_topic dec" where
  "parse_produce_topic i =
     dbind (dwrap ''produce request: topic[%d] name: %w'' [ArgInt i] ReadString) (\<lambda>topicName.
     dbind (dwrap ''produce request: topic[%d] partition count: %w'' [ArgInt i] ReadInt32) (\<lambda>partCount.
     dbind (dguard (\<not> (sint partCount < 0 \<or> 1024 < sint partCount))
              (Err (Errorf ''produce request: topic[%d] invalid partition count %d''
                 [ArgInt i, ArgInt (sint partCount)]))) (\<lambda>_.
     dbind (make_then_read partCount (parse_produce_partition i)) (\<lambda>partitions.
     dreturn \<lparr>pt_TopicName = topicName, pt_Partitions = partitions\<rparr>))))"

definition ParseProduceRequest :: "request_header \<Rightarrow> produce_request dec" where
  "ParseProduceRequest header =
     dbind (parse_transactional_id header) (\<lambda>_.
     dbind (dwrap ''produce request: read acks: %w'' [] ReadInt16) (\<lambda>acks.
     dbind (dwrap ''produce request: read timeout_ms: %w'' [] ReadInt32) (\<lambda>timeoutMs.
     dbind (dwrap ''produce request: read topic count: %w'' [] ReadInt32) (\<lambda>topicCount.
     dbind (dguard (\<not> (sint topicCount < 0 \<or> 1024 < sint topicCount))
              (Err (Errorf ''produce request: invalid topic count %d'' [ArgInt (sint topicCount)]))) (\<lambda>_.
     dbind (make_then_read topicCount parse_produce_topic) (\<lambda>topics.
     dreturn \<lparr>pr_Topics = topics, pr_Header = header, pr_TimeoutMs = timeoutMs, pr_Acks = acks\<rparr>))))))"

definition produce_partition_wire :: "produce_partition \<Rightarrow> bytes" where
  "produce_partition_wire p = be_put 4 (pp_Partition p) @ bytes_wire (pp_RecordBatch p)"

definition produce_topic_wire :: "produce_topic \<Rightarrow> bytes" where
  "produce_topic_wire t = string_wire (pt_TopicName t) @ array_wire produce_partition_wire (pt_Partitions t)"

definition produce_wire :: "string option \<Rightarrow> produce_request \<Rightarrow> bytes" where
  "produce_wire txn req =
     (if 3 \<le> sint (rh_ApiVersion (pr_Header req)) then nullable_wire txn else []) @
     be_put 2 (pr_Acks req) @ be_put 4 (pr_TimeoutMs req) @
     array_wire produce_topic_wire (pr_Topics req)"

section \<open>Fetch request\<close>

record fetch_partition =
  fp_FetchOffset :: int64
  fp_Partition :: int32
  fp_PartitionMaxBytes :: int32

record fetch_topic =
  ft_TopicName :: string
  ft_Partitions :: "fetch_partition list"

record fetch_request =
  fr_Topics :: "fetch_topic list"
  fr_Header :: request_header
  fr_ReplicaID :: int32
  fr_MaxWaitMs :: int32
  fr_MinBytes :: int32
  fr_MaxBytes :: int32
  fr_IsolationLevel :: int8

definition parse_fetch_partition :: "int \<Rightarrow> int \<Rightarrow> fetch_partition dec" where
  "parse_fetch_partition i j =
     dbind (dwrap ''fetch request: topic[%d] partition[%d] index: %w'' [ArgInt i, ArgInt j]
              ReadInt32) (\<lambda>partition.
     dbind (dwrap ''fetch request: topic[%d] partition[%d] fetch_offset: %w'' [ArgInt i, ArgInt j]
              ReadInt64) (\<lambda>fetchOffset.
     dbind (dwrap ''fetch request: topic[%d] partition[%d] partition_max_bytes: %w''
              [ArgInt i, ArgInt j] ReadInt32) (\<lambda>partMaxBytes.
     dreturn \<lparr>fp_FetchOffset = fetchOffset, fp_Partition = partition,
       fp_PartitionMaxBytes = partMaxBytes\<rparr>)))"

definition parse_fetch_topic :: "int \<Rightarrow> fetch_topic dec" where
  "parse_fetch_topic i =
     dbind (dwrap ''fetch request: topic[%d] name: %w'' [ArgInt i] ReadString) (\<lambda>topicName.
     dbind (dwrap ''fetch request: topic[%d] partition count: %w'' [ArgInt i] ReadInt32) (\<lambda>partCount.
     dbind (make_then_read partCount (parse_fetch_partition i)) (\<lambda>partitions.
     dreturn \<lparr>ft_TopicName = topicName, ft_Partitions = partitions\<rparr>)))"

definition ParseFetchRequest :: "request_header \<Rightarrow> fetch_request dec" where
  "ParseFetchRequest header =
     dbind (dwrap ''fetch request: read replica_id: %w'' [] ReadInt32) (\<lambda>replicaID.
     dbind (dwrap ''fetch request: read max_wait_ms: %w'' [] ReadInt32) (\<lambda>maxWaitMs.
     dbind (dwrap ''fetch request: read min_bytes: %w'' [] ReadInt32) (\<lambda>minBytes.
     dbind (dwrap ''fetch request: read max_bytes: %w'' [] ReadInt32) (\<lambda>maxBytes.
     dbind (dwrap ''fetch request: read isolation_level: %w'' [] ReadInt8) (\<lambda>isolationLevel.
     dbind (dwrap ''fetch request: read topic count: %w'' [] ReadInt32) (\<lambda>topicCount.
     dbind (make_then_read topicCount parse_fetch_topic) (\<lambda>topics.
     dreturn \<lparr>fr_Topics = topics, fr_Header = header, fr_ReplicaID = replicaID,
       fr_MaxWaitMs = maxWaitMs, fr_MinBytes = minBytes, fr_MaxBytes = maxBytes,
       fr_IsolationLevel = isolationLevel\<rparr>)))))))"

definition fetch_partition_wire :: "fetch_partition \<Rightarrow> bytes" where
  "fetch_partition_wire p =
     be_put 4 (fp_Partition p) @ be_put 8 (fp_FetchOffset p) @ be_put 4 (fp_PartitionMaxBytes p)"

definition fetch_topic_wire :: "fetch_topic \<Rightarrow> bytes" where
  "fetch_topic_wire t = string_wire (ft_TopicName t) @ array_wire fetch_partition_wire (ft_Partitions t)"

definition fetch_wire :: "fetch_request \<Rightarrow> bytes" where
  "fetch_wire req =
     be_put 4 (fr_ReplicaID req) @ be_put 4 (fr_MaxWaitMs req) @ be_put 4 (fr_MinBytes req) @
     be_put 4 (fr_MaxBytes req) @ [fr_IsolationLevel req] @
     array_wire fetch_topic_wire (fr_Topics req)"

section \<open>Round trips\<close>

lemmas dec_defs = dbind_def dwrap_def dreturn_def dguard_def

definition header_ok :: "request_header \<Rightarrow> bool" where
  "header_ok h \<longleftrightarrow> length (rh_ClientID h) < 2 ^ 15"

definition metadata_ok :: "metadata_request \<Rightarrow> bool" where
  "metadata_ok req \<longleftrightarrow>
     length (mr_Topics req) < 2 ^ 31 \<and> list_all (\<lambda>s. length s < 2 ^ 15) (mr_Topics req)"

definition produce_partition_ok :: "produce_partition \<Rightarrow> bool" where
  "produce_partition_ok p \<longleftrightarrow> length (pp_RecordBatch p) < 2 ^ 31"

definition produce_topic_ok :: "produce_topic \<Rightarrow> bool" where
  "produce_topic_ok t \<longleftrightarrow>
     length (pt_TopicName t) < 2 ^ 15 \<and> length (pt_Partitions t) \<le> 1024 \<and>
     list_all produce_partition_ok (pt_Partitions t)"

definition produce_ok :: "produce_request \<Rightarrow> bool" where
  "produce_ok req \<longleftrightarrow> length (pr_Topics req) \<le> 1024 \<and> list_all produce_topic_ok (pr_Topics req)"

definition fetch_topic_ok :: "fetch_topic \<Rightarrow> bool" where
  "fetch_topic_ok t \<longleftrightarrow> length (ft_TopicName t) < 2 ^ 15 \<and> length (ft_Partitions t) < 2 ^ 31"

definition fetch_ok :: "fetch_request \<Rightarrow> bool" where
  "fetch_ok req \<longleftrightarrow> length (fr_Topics req) < 2 ^ 31 \<and> list_all fetch_topic_ok (fr_Topics req)"

interpretation header_codec: wire_codec header_wire "\<lambda>_. ParseRequestHeader" header_ok
  by unfold_locales
    (simp add: ParseRequestHeader_def header_wire_def header_ok_def dec_defs feed_simps)

interpretation metadata_topic_codec:
  wire_codec string_wire parse_metadata_topic "\<lambda>s. length s < 2 ^ 15"
  by unfold_locales (simp add: parse_metadata_topic_def dec_defs feed_simps)

interpretation produce_partition_codec:
  wire_codec produce_partition_wire "parse_produce_partition i" produce_partition_ok for i
  by unfold_locales
    (simp add: parse_produce_partition_def produce_partition_wire_def produce_partition_ok_def
      bytes_wire_def dec_defs feed_simps sint_of_length32)

interpretation produce_topic_codec:
  wire_codec produce_topic_wire parse_produce_topic produce_topic_ok
  by unfold_locales
    (simp add: parse_produce_topic_def produce_topic_wire_def produce_topic_ok_def array_wire_def
      dec_defs feed_simps sint_of_length32 produce_partition_codec.make_dec_enc)

interpretation fetch_partition_codec:
  wire_codec fetch_partition_wire "parse_fetch_partition i" "\<lambda>_. True" for i
  by unfold_locales
    (simp add: parse_fetch_partition_def fetch_partition_wire_def dec_defs feed_simps)

interpretation fetch_topic_codec: wire_codec fetch_topic_wire parse_fetch_topic fetch_topic_ok
  by unfold_locales
    (simp add: parse_fetch_topic_def fetch_topic_wire_def fetch_topic_ok_def array_wire_def
      dec_defs feed_simps list.pred_True fetch_partition_codec.make_dec_enc)

lemma metadata_roundtrip:
  assumes "metadata_ok req"
  shows "ParseMetadataRequest (mr_Header req) (feed (metadata_wire auto req) r) = (Inr req, r)"
  using assms
  by (simp add: ParseMetadataRequest_def metadata_wire_def metadata_ok_def array_wire_def ReadBool_def
      dec_defs feed_simps metadata_topic_codec.make_dec_enc)

lemma parse_transactional_id_feed:
  assumes "case txn of None \<Rightarrow> True | Some s \<Rightarrow> length s < 2 ^ 15"
  shows "parse_transactional_id h
           (feed (if 3 \<le> sint (rh_ApiVersion h) then nullable_wire txn else []) r) = (Inr (), r)"
proof (cases txn)
  case None
  then show ?thesis
    by (simp add: parse_transactional_id_def nullable_wire_def dec_defs feed_simps)
next
  case (Some s)
  with assms show ?thesis
    by (cases "s = []")
      (simp_all add: parse_transactional_id_def nullable_wire_def string_wire_def dec_defs feed_simps
        sint_of_length16)
qed

interpretation produce_codec:
  wire_codec "produce_wire txn" "\<lambda>_. ParseProduceRequest h"
    "\<lambda>req. produce_ok req \<and> pr_Header req = h \<and> (case txn of None \<Rightarrow> True | Some s \<Rightarrow> length s < 2 ^ 15)" for txn h
proof
  fix i r and req :: produce_request
  assume a: "produce_ok req \<and> pr_Header req = h \<and> (case txn of None \<Rightarrow> True | Some s \<Rightarrow> length s < 2 ^ 15)"
  then have "parse_transactional_id h (feed (if 3 \<le> sint (rh_ApiVersion h) then nullable_wire txn else []) r) = (Inr (), r)"
    for r by (intro parse_transactional_id_feed) simp
  then show "ParseProduceRequest h (feed (produce_wire txn req) r) = (Inr req, r)"
    using a
    by (auto simp: ParseProduceRequest_def produce_wire_def produce_ok_def array_wire_def
        dec_defs feed_simps sint_of_length32 produce_topic_codec.make_dec_enc)
qed

interpretation fetch_codec:
  wire_codec fetch_wire "\<lambda>_. ParseFetchRequest h" "\<lambda>req. fetch_ok req \<and> fr_Header req = h" for h
  by unfold_locales
    (auto simp: ParseFetchRequest_def fetch_wire_def fetch_ok_def array_wire_def dec_defs feed_simps
      fetch_topic_codec.make_dec_enc)

text \<open>
  C21: parsing the documented layout of a produce request (version 3 and later with a
  transactional id in front, null or not) returns that request and leaves the bytes that
  follow unread.
\<close>

theorem produce_roundtrip:
  assumes "produce_ok req" and "case txn of None \<Rightarrow> True | Some s \<Rightarrow> length s < 2 ^ 15"
  shows "ParseProduceRequest (pr_Header req) (feed (produce_wire txn req) r) = (Inr req, r)"
  using assms by (simp add: produce_codec.dec_enc)

definition sample_header :: request_header where
  "sample_header = \<lparr>rh_Size = 100, rh_ApiKey = 0, rh_ApiVersion = 3, rh_CorrelationID = 7, rh_ClientID = ''c''\<rparr>"

definition sample_produce :: produce_request where
  "sample_produce = \<lparr>pr_Topics = [\<lparr>pt_TopicName = ''t'',
       pt_Partitions = [\<lparr>pp_RecordBatch = [1, 2, 3], pp_Partition = 0\<rparr>, \<lparr>pp_RecordBatch = [], pp_Partition = 1\<rparr>]\<rparr>],
     pr_Header = sample_header, pr_TimeoutMs = 1500, pr_Acks = - 1\<rparr>"

theorem produce_roundtrip_witness:
  "ParseProduceRequest sample_header
     (feed (produce_wire (Some ''txn'') sample_produce) \<lparr>rd_data = [9], rd_err = io_EOF\<rparr>) =
   (Inr sample_produce, \<lparr>rd_data = [9], rd_err = io_EOF\<rparr>)"
  using produce_roundtrip [of sample_produce "Some ''txn''"]
  by (simp add: sample_produce_def produce_ok_def produce_topic_ok_def produce_partition_ok_def)

text \<open>
  C32: parsing the documented layout of a fetch request returns that request and leaves
  the bytes that follow unread.
\<close>

theorem fetch_roundtrip:
  assumes "fetch_ok req"
  shows "ParseFetchRequest (fr_Header req) (feed (fetch_wire req) r) = (Inr req, r)"
  using assms by (simp add: fetch_codec.dec_enc)

definition sample_fetch :: fetch_request where
  "sample_fetch = \<lparr>fr_Topics = [\<lparr>ft_TopicName = ''t'', ft_Partitions =
       [\<lparr>fp_FetchOffset = 65, fp_Partition = 0, fp_PartitionMaxBytes = 1048576\<rparr>]\<rparr>],
     fr_Header = sample_header, fr_ReplicaID = - 1, fr_MaxWaitMs = 500, fr_MinBytes = 1,
     fr_MaxBytes = 1048576, fr_IsolationLevel = 0\<rparr>"

theorem fetch_roundtrip_witness:
  "ParseFetchRequest sample_header (feed (fetch_wire sample_fetch) \<lparr>rd_data = [9], rd_err = io_EOF\<rparr>) =
   (Inr sample_fetch, \<lparr>rd_data = [9], rd_err = io_EOF\<rparr>)"
  using fetch_roundtrip [of sample_fetch]
  by (simp add: sample_fetch_def fetch_ok_def fetch_topic_ok_def)

section \<open>Stream locality of the parsers\<close>

lemma stream_local_requests [stream_intros]:
  "stream_local ParseRequestHeader"
  "stream_local (ParseMetadataRequest h)"
  "stream_local (ParseProduceRequest h)"
  "stream_local (ParseFetchRequest h)"
  unfolding ParseRequestHeader_def ParseMetadataRequest_def parse_metadata_topic_def
    ParseProduceRequest_def parse_transactional_id_def parse_produce_topic_def
    parse_produce_partition_def ParseFetchRequest_def parse_fetch_topic_def parse_fetch_partition_def
  by (intro stream_intros)+

end
