(* ===== verification/Requests_Group.thy ===== *)
theory Requests_Group
  imports Requests
begin

text \<open>
  The remaining requests of \<open>internal/protocol/messages.go\<close>: offset commit and fetch,
  list offsets, and the group coordination requests, with their documented layouts,
  round trips and stream locality.
\<close>

section \<open>Offset commit request\<close>

record offset_commit_partition =
  ocp_CommittedOffset :: int64
  ocp_CommittedMetadata :: string
  ocp_Partition :: int32

record offset_commit_topic =
  oct_TopicName :: string
  oct_Partitions :: "offset_commit_partition list"

record offset_commit_request =
  ocr_Topics :: "offset_commit_topic list"
  ocr_GroupID :: string
  ocr_MemberID :: string
  ocr_RetentionTimeMs :: int64
  ocr_GenerationID :: int32

definition parse_offset_commit_partition :: "int \<Rightarrow> int \<Rightarrow> offset_commit_partition dec" where
  "parse_offset_commit_partition i j =
     dbind (dwrap ''offset commit: topic[%d] partition[%d] index: %w'' [ArgInt i, ArgInt j]
              ReadInt32) (\<lambda>partition.
     dbind (dwrap ''offset commit: topic[%d] partition[%d] offset: %w'' [ArgInt i, ArgInt j]
              ReadInt64) (\<lambda>committedOffset.
     dbind (dwrap ''offset commit: topic[%d] partition[%d] metadata: %w'' [ArgInt i, ArgInt j]
              ReadString) (\<lambda>committedMetadata.
     dreturn \<lparr>ocp_CommittedOffset = committedOffset, ocp_CommittedMetadata = committedMetadata,
       ocp_Partition = partition\<rparr>)))"

definition parse_offset_commit_topic :: "int \<Rightarrow> offset_commit_topic dec" where
  "parse_offset_commit_topic i =
     dbind (dwrap ''offset commit: topic[%d] name: %w'' [ArgInt i] ReadString) (\<lambda>topicName.
     dbind (dwrap ''offset commit: topic[%d] partition count: %w'' [ArgInt i] ReadInt32) (\<lambda>partCount.
     dbind (make_then_read partCount (parse_offset_commit_partition i)) (\<lambda>partitions.
     dreturn \<lparr>oct_TopicName = topicName, oct_Partitions = partitions\<rparr>)))"

definition ParseOffsetCommitRequest :: "request_header \<Rightarrow> offset_commit_request dec" where
  "ParseOffsetCommitRequest header =
     dbind (dwrap ''offset commit: read group_id: %w'' [] ReadString) (\<lambda>groupID.
     dbind (dwrap ''offset commit: read generation_id: %w'' [] ReadInt32) (\<lambda>generationID.
     dbind (dwrap ''offset commit: read member_id: %w'' [] ReadString) (\<lambda>memberID.
     dbind (dwrap ''offset commit: read retention_time_ms: %w'' [] ReadInt64) (\<lambda>retentionTimeMs.
     dbind (dwrap ''offset commit: read topic count: %w'' [] ReadInt32) (\<lambda>topicCount.
     dbind (make_then_read topicCount parse_offset_commit_topic) (\<lambda>topics.
     dreturn \<lparr>ocr_Topics = topics, ocr_GroupID = groupID, ocr_MemberID = memberID,
       ocr_RetentionTimeMs = retentionTimeMs, ocr_GenerationID = generationID\<rparr>))))))"

definition offset_commit_partition_wire :: "offset_commit_partition \<Rightarrow> bytes" where
  "offset_commit_partition_wire p =
     be_put 4 (ocp_Partition p) @ be_put 8 (ocp_CommittedOffset p) @
     string_wire (ocp_CommittedMetadata p)"

definition offset_commit_topic_wire :: "offset_commit_topic \<Rightarrow> bytes" where
  "offset_commit_topic_wire t =
     string_wire (oct_TopicName t) @ array_wire offset_commit_partition_wire (oct_Partitions t)"

definition offset_commit_wire :: "offset_commit_request \<Rightarrow> bytes" where
  "offset_commit_wire req =
     string_wire (ocr_GroupID req) @ be_put 4 (ocr_GenerationID req) @
     string_wire (ocr_MemberID req) @ be_put 8 (ocr_RetentionTimeMs req) @
     array_wire offset_commit_topic_wire (ocr_Topics req)"

section \<open>Offset fetch request\<close>

record offset_fetch_topic =
  oft_TopicName :: string
  oft_Partitions :: "int32 list"

record offset_fetch_request =
  ofr_Topics :: "offset_fetch_topic list"
  ofr_GroupID :: string

definition parse_offset_fetch_partition :: "int \<Rightarrow> int \<Rightarrow> int32 dec" where
  "parse_offset_fetch_partition i j =
     dwrap ''offset fetch: topic[%d] partition[%d] index: %w'' [ArgInt i, ArgInt j] ReadInt32"

definition parse_offset_fetch_topic :: "int \<Rightarrow> offset_fetch_topic dec" where
  "parse_offset_fetch_topic i =
     dbind (dwrap ''offset fetch: topic[%d] name: %w'' [ArgInt i] ReadString) (\<lambda>topicName.
     dbind (dwrap ''offset fetch: topic[%d] partition count: %w'' [ArgInt i] ReadInt32) (\<lambda>partCount.
     dbind (make_then_read partCount (parse_offset_fetch_partition i)) (\<lambda>partitions.
     dreturn \<lparr>oft_TopicName = topicName, oft_Partitions = partitions\<rparr>)))"

definition ParseOffsetFetchRequest :: "request_header \<Rightarrow> offset_fetch_request dec" where
  "ParseOffsetFetchRequest header =
     dbind (dwrap ''offset fetch: read group_id: %w'' [] ReadString) (\<lambda>groupID.
     dbind (dwrap ''offset fetch: read topic count: %w'' [] ReadInt32) (\<lambda>topicCount.
     dbind (make_then_read topicCount parse_offset_fetch_topic) (\<lambda>topics.
     dreturn \<lparr>ofr_Topics = topics, ofr_GroupID = groupID\<rparr>)))"

definition offset_fetch_topic_wire :: "offset_fetch_topic \<Rightarrow> bytes" where
  "offset_fetch_topic_wire t = string_wire (oft_TopicName t) @ array_wire (be_put 4) (oft_Partitions t)"

definition offset_fetch_wire :: "offset_fetch_request \<Rightarrow> bytes" where
  "offset_fetch_wire req =
     string_wire (ofr_GroupID req) @ array_wire offset_fetch_topic_wire (ofr_Topics req)"

section \<open>List offsets request\<close>

record list_offsets_partition =
  lop_Partition :: int32
  lop_Timestamp :: int64

record list_offsets_topic =
  lot_TopicName :: string
  lot_Partitions :: "list_offsets_partition list"

record list_offsets_request =
  lor_Header :: request_header
  lor_ReplicaID :: int32
  lor_Topics :: "list_offsets_topic list"

definition parse_list_offsets_partition :: "int \<Rightarrow> int \<Rightarrow> list_offsets_partition dec" where
  "parse_list_offsets_partition i j =
     dbind (dwrap ''list offsets request: topic[%d] partition[%d] index: %w'' [ArgInt i, ArgInt j]
              ReadInt32) (\<lambda>partition.
     dbind (dwrap ''list offsets request: topic[%d] partition[%d] timestamp: %w'' [ArgInt i, ArgInt j]
              ReadInt64) (\<lambda>timestamp.
     dreturn \<lparr>lop_Partition = partition, lop_Timestamp = timestamp\<rparr>))"

definition parse_list_offsets_topic :: "int \<Rightarrow> list_offsets_topic dec" where
  "parse_list_offsets_topic i =
     dbind (dwrap ''list offsets request: topic[%d] name: %w'' [ArgInt i] ReadString) (\<lambda>topicName.
     dbind (dwrap ''list offsets request: topic[%d] partition count: %w'' [ArgInt i] ReadInt32) (\<lambda>partCount.
     dbind (dguard (\<not> (sint partCount < 0 \<or> 1024 < sint partCount))
              (Err (Errorf ''list offsets request: topic[%d] invalid partition count %d''
                 [ArgInt i, ArgInt (sint partCount)]))) (\<lambda>_.
     dbind (make_then_read partCount (parse_list_offsets_partition i)) (\<lambda>partitions.
     dreturn \<lparr>lot_TopicName = topicName, lot_Partitions = partitions\<rparr>))))"

definition ParseListOffsetsRequest :: "request_header \<Rightarrow> list_offsets_request dec" where
  "ParseListOffsetsRequest header =
     dbind (dwrap ''list offsets request: read replica_id: %w'' [] ReadInt32) (\<lambda>replicaID.
     dbind (dwrap ''list offsets request: read topic count: %w'' [] ReadInt32) (\<lambda>topicCount.
     dbind (dguard (\<not> (sint topicCount < 0 \<or> 1024 < sint topicCount))
              (Err (Errorf ''list offsets request: invalid topic count %d''
                 [ArgInt (sint topicCount)]))) (\<lambda>_.
     dbind (make_then_read topicCount parse_list_offsets_topic) (\<lambda>topics.
     dreturn \<lparr>lor_Header = header, lor_ReplicaID = replicaID, lor_Topics = topics\<rparr>))))"

definition list_offsets_partition_wire :: "list_offsets_partition \<Rightarrow> bytes" where
  "list_offsets_partition_wire p = be_put 4 (lop_Partition p) @ be_put 8 (lop_Timestamp p)"

definition list_offsets_topic_wire :: "list_offsets_topic \<Rightarrow> bytes" where
  "list_offsets_topic_wire t =
     string_wire (lot_TopicName t) @ array_wire list_offsets_partition_wire (lot_Partitions t)"

definition list_offsets_wire :: "list_offsets_request \<Rightarrow> bytes" where
  "list_offsets_wire req =
     be_put 4 (lor_ReplicaID req) @ array_wire list_offsets_topic_wire (lor_Topics req)"

section \<open>Group coordination requests\<close>

definition ParseFindCoordinatorRequest :: "request_header \<Rightarrow> string dec" where
  "ParseFindCoordinatorRequest header = dwrap ''find coordinator: read key: %w'' [] ReadString"

record join_group_protocol =
  jgp_Name :: string
  jgp_Metadata :: bytes

record join_group_request =
  jgr_Protocols :: "join_group_protocol list"
  jgr_GroupID :: string
  jgr_MemberID :: string
  jgr_ProtocolType :: string
  jgr_SessionTimeoutMs :: int32
  jgr_RebalanceTimeoutMs :: int32

definition parse_join_group_protocol :: "int \<Rightarrow> join_group_protocol dec" where
  "parse_join_group_protocol i =
     dbind (dwrap ''join group: protocol[%d] name: %w'' [ArgInt i] ReadString) (\<lambda>name.
     dbind (dwrap ''join group: protocol[%d] metadata length: %w'' [ArgInt i] ReadInt32) (\<lambda>metaLen.
     dbind (if 0 < sint metaLen
            then dwrap ''join group: protocol[%d] metadata: %w'' [ArgInt i] (ReadBytes (sint metaLen))
            else dreturn []) (\<lambda>metadata.
     dreturn \<lparr>jgp_Name = name, jgp_Metadata = metadata\<rparr>)))"

definition ParseJoinGroupRequest :: "request_header \<Rightarrow> join_group_request dec" where
  "ParseJoinGroupRequest header =
     dbind (dwrap ''join group: read group_id: %w'' [] ReadString) (\<lambda>groupID.
     dbind (dwrap ''join group: read session_timeout_ms: %w'' [] ReadInt32) (\<lambda>sessionTimeoutMs.
     dbind (dwrap ''join group: read rebalance_timeout_ms: %w'' [] ReadInt32) (\<lambda>rebalanceTimeoutMs.
     dbind (dwrap ''join group: read member_id: %w'' [] ReadString) (\<lambda>memberID.
     dbind (dwrap ''join group: read protocol_type: %w'' [] ReadString) (\<lambda>protocolType.
     dbind (dwrap ''join group: read protocol count: %w'' [] ReadInt32) (\<lambda>protoCount.
     dbind (make_then_read protoCount parse_join_group_protocol) (\<lambda>protocols.
     dreturn \<lparr>jgr_Protocols = protocols, jgr_GroupID = groupID, jgr_MemberID = memberID,
       jgr_ProtocolType = protocolType, jgr_SessionTimeoutMs = sessionTimeoutMs,
       jgr_RebalanceTimeoutMs = rebalanceTimeoutMs\<rparr>)))))))"

definition join_group_protocol_wire :: "join_group_protocol \<Rightarrow> bytes" where
  "join_group_protocol_wire p = string_wire (jgp_Name p) @ bytes_wire (jgp_Metadata p)"

definition join_group_wire :: "join_group_request \<Rightarrow> bytes" where
  "join_group_wire req =
     string_wire (jgr_GroupID req) @ be_put 4 (jgr_SessionTimeoutMs req) @
     be_put 4 (jgr_RebalanceTimeoutMs req) @ string_wire (jgr_MemberID req) @
     string_wire (jgr_ProtocolType req) @ array_wire join_group_protocol_wire (jgr_Protocols req)"

record heartbeat_request =
  hbr_GroupID :: string
  hbr_MemberID :: string
  hbr_GenerationID :: int32

definition ParseHeartbeatRequest :: "request_header \<Rightarrow> heartbeat_request dec" where
  "ParseHeartbeatRequest header =
     dbind (dwrap ''heartbeat: read group_id: %w'' [] ReadString) (\<lambda>groupID.
     dbind (dwrap ''heartbeat: read generation_id: %w'' [] ReadInt32) (\<lambda>generationID.
     dbind (dwrap ''heartbeat: read member_id: %w'' [] ReadString) (\<lambda>memberID.
     dreturn \<lparr>hbr_GroupID = groupID, hbr_MemberID = memberID, hbr_GenerationID = generationID\<rparr>)))"

definition heartbeat_wire :: "heartbeat_request \<Rightarrow> bytes" where
  "heartbeat_wire req =
     string_wire (hbr_GroupID req) @ be_put 4 (hbr_GenerationID req) @ string_wire (hbr_MemberID req)"

record leave_group_request =
  lgr_GroupID :: string
  lgr_MemberID :: string

definition ParseLeaveGroupRequest :: "request_header \<Rightarrow> leave_group_request dec" where
  "ParseLeaveGroupRequest header =
     dbind (dwrap ''leave group: read group_id: %w'' [] ReadString) (\<lambda>groupID.
     dbind (dwrap ''leave group: read member_id: %w'' [] ReadString) (\<lambda>memberID.
     dreturn \<lparr>lgr_GroupID = groupID, lgr_MemberID = memberID\<rparr>))"

definition leave_group_wire :: "leave_group_request \<Rightarrow> bytes" where
  "leave_group_wire req = string_wire (lgr_GroupID req) @ string_wire (lgr_MemberID req)"

record sync_group_assignment =
  sga_MemberID :: string
  sga_Assignment :: bytes

record sync_group_request =
  sgr_Assignments :: "sync_group_assignment list"
  sgr_GroupID :: string
  sgr_MemberID :: string
  sgr_GenerationID :: int32

definition parse_sync_group_assignment :: "int \<Rightarrow> sync_group_assignment dec" where
  "parse_sync_group_assignment i =
     dbind (dwrap ''sync group: assignment[%d] member_id: %w'' [ArgInt i] ReadString) (\<lambda>mid.
     dbind (dwrap ''sync group: assignment[%d] length: %w'' [ArgInt i] ReadInt32) (\<lambda>assignLen.
     dbind (if 0 < sint assignLen
            then dwrap ''sync group: assignment[%d] data: %w'' [ArgInt i] (ReadBytes (sint assignLen))
            else dreturn []) (\<lambda>assign.
     dreturn \<lparr>sga_MemberID = mid, sga_Assignment = assign\<rparr>)))"

definition ParseSyncGroupRequest :: "request_header \<Rightarrow> sync_group_request dec" where
  "ParseSyncGroupRequest header =
     dbind (dwrap ''sync group: read group_id: %w'' [] ReadString) (\<lambda>groupID.
     dbind (dwrap ''sync group: read generation_id: %w'' [] ReadInt32) (\<lambda>generationID.
     dbind (dwrap ''sync group: read member_id: %w'' [] ReadString) (\<lambda>memberID.
     dbind (dwrap ''sync group: read assignment count: %w'' [] ReadInt32) (\<lambda>assignCount.
     dbind (make_then_read assignCount parse_sync_group_assignment) (\<lambda>assignments.
     dreturn \<lparr>sgr_Assignments = assignments, sgr_GroupID = groupID, sgr_MemberID = memberID,
       sgr_GenerationID = generationID\<rparr>)))))"

definition sync_group_assignment_wire :: "sync_group_assignment \<Rightarrow> bytes" where
  "sync_group_assignment_wire a = string_wire (sga_MemberID a) @ bytes_wire (sga_Assignment a)"

definition sync_group_wire :: "sync_group_request \<Rightarrow> bytes" where
  "sync_group_wire req =
     string_wire (sgr_GroupID req) @ be_put 4 (sgr_GenerationID req) @
     string_wire (sgr_MemberID req) @ array_wire sync_group_assignment_wire (sgr_Assignments req)"

section \<open>Round trips\<close>

abbreviation short :: "string \<Rightarrow> bool" where
  "short s \<equiv> length s < 2 ^ 15"

definition offset_commit_topic_ok :: "offset_commit_topic \<Rightarrow> bool" where
  "offset_commit_topic_ok t \<longleftrightarrow>
     short (oct_TopicName t) \<and> length (oct_Partitions t) < 2 ^ 31 \<and>
     list_all (\<lambda>p. short (ocp_CommittedMetadata p)) (oct_Partitions t)"

definition offset_commit_ok :: "offset_commit_request \<Rightarrow> bool" where
  "offset_commit_ok req \<longleftrightarrow>
     short (ocr_GroupID req) \<and> short (ocr_MemberID req) \<and> length (ocr_Topics req) < 2 ^ 31 \<and>
     list_all offset_commit_topic_ok (ocr_Topics req)"

definition offset_fetch_topic_ok :: "offset_fetch_topic \<Rightarrow> bool" where
  "offset_fetch_topic_ok t \<longleftrightarrow> short (oft_TopicName t) \<and> length (oft_Partitions t) < 2 ^ 31"

definition offset_fetch_ok :: "offset_fetch_request \<Rightarrow> bool" where
  "offset_fetch_ok req \<longleftrightarrow>
     short (ofr_GroupID req) \<and> length (ofr_Topics req) < 2 ^ 31 \<and>
     list_all offset_fetch_topic_ok (ofr_Topics req)"

definition list_offsets_topic_ok :: "list_offsets_topic \<Rightarrow> bool" where
  "list_offsets_topic_ok t \<longleftrightarrow> short (lot_TopicName t) \<and> length (lot_Partitions t) \<le> 1024"

definition list_offsets_ok :: "list_offsets_request \<Rightarrow> bool" where
  "list_offsets_ok req \<longleftrightarrow>
     length (lor_Topics req) \<le> 1024 \<and> list_all list_offsets_topic_ok (lor_Topics req)"

definition join_group_protocol_ok :: "join_group_protocol \<Rightarrow> bool" where
  "join_group_protocol_ok p \<longleftrightarrow> short (jgp_Name p) \<and> length (jgp_Metadata p) < 2 ^ 31"

definition join_group_ok :: "join_group_request \<Rightarrow> bool" where
  "join_group_ok req \<longleftrightarrow>
     short (jgr_GroupID req) \<and> short (jgr_MemberID req) \<and> short (jgr_ProtocolType req) \<and>
     length (jgr_Protocols req) < 2 ^ 31 \<and> list_all join_group_protocol_ok (jgr_Protocols req)"

definition sync_group_assignment_ok :: "sync_group_assignment \<Rightarrow> bool" where
  "sync_group_assignment_ok a \<longleftrightarrow> short (sga_MemberID a) \<and> length (sga_Assignment a) < 2 ^ 31"

definition sync_group_ok :: "sync_group_request \<Rightarrow> bool" where
  "sync_group_ok req \<longleftrightarrow>
     short (sgr_GroupID req) \<and> short (sgr_MemberID req) \<and> length (sgr_Assignments req) < 2 ^ 31 \<and>
     list_all sync_group_assignment_ok (sgr_Assignments req)"

interpretation offset_commit_partition_codec:
  wire_codec offset_commit_partition_wire "parse_offset_commit_partition i"
    "\<lambda>p. short (ocp_CommittedMetadata p)" for i
  by unfold_locales
    (simp add: parse_offset_commit_partition_def offset_commit_partition_wire_def dec_defs feed_simps)

interpretation offset_commit_topic_codec:
  wire_codec offset_commit_topic_wire parse_offset_commit_topic offset_commit_topic_ok
  by unfold_locales
    (simp add: parse_offset_commit_topic_def offset_commit_topic_wire_def offset_commit_topic_ok_def
      array_wire_def dec_defs feed_simps offset_commit_partition_codec.make_dec_enc)

interpretation offset_commit_codec:
  wire_codec offset_commit_wire "\<lambda>_. ParseOffsetCommitRequest h" offset_commit_ok for h
  by unfold_locales
    (simp add: ParseOffsetCommitRequest_def offset_commit_wire_def offset_commit_ok_def
      array_wire_def dec_defs feed_simps offset_commit_topic_codec.make_dec_enc)

interpretation offset_fetch_partition_codec:
  wire_codec "be_put 4" "parse_offset_fetch_partition i" "\<lambda>_. True" for i
  by unfold_locales (simp add: parse_offset_fetch_partition_def dec_defs feed_simps)

interpretation offset_fetch_topic_codec:
  wire_codec offset_fetch_topic_wire parse_offset_fetch_topic offset_fetch_topic_ok
  by unfold_locales
    (simp add: parse_offset_fetch_topic_def offset_fetch_topic_wire_def offset_fetch_topic_ok_def
      array_wire_def dec_defs feed_simps list.pred_True offset_fetch_partition_codec.make_dec_enc)

interpretation offset_fetch_codec:
  wire_codec offset_fetch_wire "\<lambda>_. ParseOffsetFetchRequest h" offset_fetch_ok for h
  by unfold_locales
    (simp add: ParseOffsetFetchRequest_def offset_fetch_wire_def offset_fetch_ok_def
      array_wire_def dec_defs feed_simps offset_fetch_topic_codec.make_dec_enc)

interpretation list_offsets_partition_codec:
  wire_codec list_offsets_partition_wire "parse_list_offsets_partition i" "\<lambda>_. True" for i
  by unfold_locales
    (simp add: parse_list_offsets_partition_def list_offsets_partition_wire_def dec_defs feed_simps)

interpretation list_offsets_topic_codec:
  wire_codec list_offsets_topic_wire parse_list_offsets_topic list_offsets_topic_ok
  by unfold_locales
    (simp add: parse_list_offsets_topic_def list_offsets_topic_wire_def list_offsets_topic_ok_def
      array_wire_def dec_defs feed_simps sint_of_length32 list.pred_True
      list_offsets_partition_codec.make_dec_enc)

lemma list_offsets_roundtrip:
  assumes "list_offsets_ok req"
  shows "ParseListOffsetsRequest (lor_Header req) (feed (list_offsets_wire req) r) = (Inr req, r)"
  using assms
  by (simp add: ParseListOffsetsRequest_def list_offsets_wire_def list_offsets_ok_def
      array_wire_def dec_defs feed_simps sint_of_length32 list_offsets_topic_codec.make_dec_enc)

lemma optional_bytes_feed:
  assumes "length b < 2 ^ 31"
  shows "(if 0 < sint (word_of_nat (length b) :: int32)
          then dwrap f as (ReadBytes (sint (word_of_nat (length b) :: int32)))
          else dreturn []) (feed b r) = (Inr b, r)"
  using assms
  by (cases "b = []") (simp_all add: sint_of_length32 dec_defs feed_simps)

interpretation join_group_protocol_codec:
  wire_codec join_group_protocol_wire parse_join_group_protocol join_group_protocol_ok
  by unfold_locales
    (simp add: parse_join_group_protocol_def join_group_protocol_wire_def join_group_protocol_ok_def
      bytes_wire_def dbind_def dwrap_Inr feed_simps optional_bytes_feed dreturn_def [of "\<lparr>jgp_Name = _, jgp_Metadata = _\<rparr>"])

interpretation join_group_codec:
  wire_codec join_group_wire "\<lambda>_. ParseJoinGroupRequest h" join_group_ok for h
  by unfold_locales
    (simp add: ParseJoinGroupRequest_def join_group_wire_def join_group_ok_def
      array_wire_def dec_defs feed_simps join_group_protocol_codec.make_dec_enc)

interpretation heartbeat_codec:
  wire_codec heartbeat_wire "\<lambda>_. ParseHeartbeatRequest h"
    "\<lambda>q. short (hbr_GroupID q) \<and> short (hbr_MemberID q)" for h
  by unfold_locales (simp add: ParseHeartbeatRequest_def heartbeat_wire_def dec_defs feed_simps)

interpretation leave_group_codec:
  wire_codec leave_group_wire "\<lambda>_. ParseLeaveGroupRequest h"
    "\<lambda>q. short (lgr_GroupID q) \<and> short (lgr_MemberID q)" for h
  by unfold_locales (simp add: ParseLeaveGroupRequest_def leave_group_wire_def dec_defs feed_simps)

interpretation sync_group_assignment_codec:
  wire_codec sync_group_assignment_wire parse_sync_group_assignment sync_group_assignment_ok
  by unfold_locales
    (simp add: parse_sync_group_assignment_def sync_group_assignment_wire_def sync_group_assignment_ok_def
      bytes_wire_def dbind_def dwrap_Inr feed_simps optional_bytes_feed dreturn_def [of "\<lparr>sga_MemberID = _, sga_Assignment = _\<rparr>"])

interpretation sync_group_codec:
  wire_codec sync_group_wire "\<lambda>_. ParseSyncGroupRequest h" sync_group_ok for h
  by unfold_locales
    (simp add: ParseSyncGroupRequest_def sync_group_wire_def sync_group_ok_def
      array_wire_def dec_defs feed_simps sync_group_assignment_codec.make_dec_enc)

section \<open>Stream locality\<close>

lemma stream_local_group_requests [stream_intros]:
  "stream_local (ParseOffsetCommitRequest h)"
  "stream_local (ParseOffsetFetchRequest h)"
  "stream_local (ParseListOffsetsRequest h)"
  "stream_local (ParseFindCoordinatorRequest h)"
  "stream_local (ParseJoinGroupRequest h)"
  "stream_local (ParseHeartbeatRequest h)"
  "stream_local (ParseLeaveGroupRequest h)"
  "stream_local (ParseSyncGroupRequest h)"
  unfolding ParseOffsetCommitRequest_def parse_offset_commit_topic_def
    parse_offset_commit_partition_def ParseOffsetFetchRequest_def parse_offset_fetch_topic_def
    parse_offset_fetch_partition_def ParseListOffsetsRequest_def parse_list_offsets_topic_def
    parse_list_offsets_partition_def ParseFindCoordinatorRequest_def ParseJoinGroupRequest_def
    parse_join_group_protocol_def ParseHeartbeatRequest_def ParseLeaveGroupRequest_def
    ParseSyncGroupRequest_def parse_sync_group_assignment_def
  by (intro stream_intros)+

section \<open>Properties\<close>

text \<open>
  C33: parsing the documented layout of an offset commit, offset fetch or list offsets
  request returns that request and leaves the bytes that follow unread.
\<close>

theorem offset_requests_roundtrip:
  assumes "offset_commit_ok c" and "offset_fetch_ok f" and "list_offsets_ok l"
  shows "ParseOffsetCommitRequest h (feed (offset_commit_wire c) r) = (Inr c, r) \<and>
    ParseOffsetFetchRequest h (feed (offset_fetch_wire f) r) = (Inr f, r) \<and>
    ParseListOffsetsRequest (lor_Header l) (feed (list_offsets_wire l) r) = (Inr l, r)"
  using assms by (simp add: offset_commit_codec.dec_enc offset_fetch_codec.dec_enc list_offsets_roundtrip)

definition sample_commit :: offset_commit_request where
  "sample_commit = \<lparr>ocr_Topics = [\<lparr>oct_TopicName = ''t'', oct_Partitions =
       [\<lparr>ocp_CommittedOffset = 42, ocp_CommittedMetadata = ''m'', ocp_Partition = 0\<rparr>]\<rparr>],
     ocr_GroupID = ''g'', ocr_MemberID = ''m'', ocr_RetentionTimeMs = - 1, ocr_GenerationID = 1\<rparr>"

theorem offset_requests_roundtrip_witness:
  "ParseOffsetCommitRequest sample_header
     (feed (offset_commit_wire sample_commit) \<lparr>rd_data = [9], rd_err = io_EOF\<rparr>) =
   (Inr sample_commit, \<lparr>rd_data = [9], rd_err = io_EOF\<rparr>)"
  using offset_requests_roundtrip [of sample_commit "\<lparr>ofr_Topics = [], ofr_GroupID = ''g''\<rparr>"
    "\<lparr>lor_Header = sample_header, lor_ReplicaID = 0, lor_Topics = []\<rparr>" sample_header]
  by (simp add: sample_commit_def offset_commit_ok_def offset_commit_topic_ok_def offset_fetch_ok_def
      list_offsets_ok_def)

text \<open>
  C34: parsing the documented layout of a group membership request (join, sync, heartbeat,
  leave) returns that request and leaves the bytes that follow unread.
\<close>

theorem group_requests_roundtrip:
  assumes "join_group_ok j" and "sync_group_ok s" and "short (hbr_GroupID b)" "short (hbr_MemberID b)"
    and "short (lgr_GroupID l)" "short (lgr_MemberID l)"
  shows "ParseJoinGroupRequest h (feed (join_group_wire j) r) = (Inr j, r) \<and>
    ParseSyncGroupRequest h (feed (sync_group_wire s) r) = (Inr s, r) \<and>
    ParseHeartbeatRequest h (feed (heartbeat_wire b) r) = (Inr b, r) \<and>
    ParseLeaveGroupRequest h (feed (leave_group_wire l) r) = (Inr l, r)"
  using assms by (simp add: join_group_codec.dec_enc sync_group_codec.dec_enc heartbeat_codec.dec_enc
      leave_group_codec.dec_enc)

definition sample_join :: join_group_request where
  "sample_join = \<lparr>jgr_Protocols = [\<lparr>jgp_Name = ''range'', jgp_Metadata = [0, 1]\<rparr>], jgr_GroupID = ''g'',
     jgr_MemberID = [], jgr_ProtocolType = ''consumer'', jgr_SessionTimeoutMs = 30000, jgr_RebalanceTimeoutMs = 60000\<rparr>"

definition sample_sync :: sync_group_request where
  "sample_sync = \<lparr>sgr_Assignments = [\<lparr>sga_MemberID = ''m'', sga_Assignment = [4, 5]\<rparr>], sgr_GroupID = ''g'',
     sgr_MemberID = ''m'', sgr_GenerationID = 1\<rparr>"

theorem group_requests_roundtrip_witness:
  "ParseJoinGroupRequest sample_header (feed (join_group_wire sample_join) \<lparr>rd_data = [9], rd_err = io_EOF\<rparr>) =
     (Inr sample_join, \<lparr>rd_data = [9], rd_err = io_EOF\<rparr>) \<and>
   ParseSyncGroupRequest sample_header (feed (sync_group_wire sample_sync) \<lparr>rd_data = [9], rd_err = io_EOF\<rparr>) =
     (Inr sample_sync, \<lparr>rd_data = [9], rd_err = io_EOF\<rparr>)"
  using group_requests_roundtrip [of sample_join sample_sync
    "\<lparr>hbr_GroupID = ''g'', hbr_MemberID = ''m'', hbr_GenerationID = 1\<rparr>" "\<lparr>lgr_GroupID = ''g'', lgr_MemberID = ''m''\<rparr>"
    sample_header]
  by (simp add: sample_join_def join_group_ok_def join_group_protocol_ok_def sample_sync_def sync_group_ok_def
      sync_group_assignment_ok_def)

end
