(* ===== verification/Conn.thy ===== *)
theory Conn
  imports Codec
begin

text \<open>
  A client connection (\<open>net.Conn\<close>): the reader of what the peer sends, the bytes
  delivered to the peer so far, and how many more bytes the peer accepts (\<open>None\<close> for a
  healthy connection, \<open>Some n\<close> for one that breaks after \<open>n\<close> bytes).  A
  \<open>Write\<close> past that point delivers a prefix and returns an error, as TCP does.

  Actions on a connection return \<open>Some e\<close> for a Go error and \<open>None\<close> for
  \<open>nil\<close>.
\<close>

record conn =
  cn_in :: go_reader
  cn_out :: bytes
  cn_cap :: "nat option"

type_synonym action = "conn \<Rightarrow> goerr option \<times> conn"

definition conn_Write :: "bytes \<Rightarrow> action" where
  "conn_Write p c =
     (case cn_cap c of
        None \<Rightarrow> (None, c\<lparr>cn_out := cn_out c @ p\<rparr>)
      | Some n \<Rightarrow>
          if length p \<le> n then (None, c\<lparr>cn_out := cn_out c @ p, cn_cap := Some (n - length p)\<rparr>)
          else (Some net_ErrClosed, c\<lparr>cn_out := cn_out c @ take n p, cn_cap := Some 0\<rparr>))"

definition act_skip :: action where
  "act_skip c = (None, c)"

definition act_then :: "action \<Rightarrow> action \<Rightarrow> action" where
  "act_then a b c = (case a c of (None, c') \<Rightarrow> b c' | (Some e, c') \<Rightarrow> (Some e, c'))"

primrec act_each :: "('a \<Rightarrow> action) \<Rightarrow> 'a list \<Rightarrow> action" where
  "act_each f [] = act_skip"
| "act_each f (x # xs) = act_then (f x) (act_each f xs)"

text \<open>
  Consecutive writes are one write of the concatenation, also when the connection breaks
  between or inside them.
\<close>

lemma conn_Write_Nil: "conn_Write [] = act_skip"
  by (rule ext) (simp add: conn_Write_def act_skip_def split: option.split)

lemma conn_Write_append: "act_then (conn_Write xs) (conn_Write ys) = conn_Write (xs @ ys)"
  by (rule ext) (auto simp: act_then_def conn_Write_def split: option.split)

lemma act_then_skip [simp]: "act_then act_skip a = a" "act_then a act_skip = a"
  by (rule ext, auto simp: act_then_def act_skip_def split: option.splits prod.splits)+

lemma act_each_Write:
  "(\<And>x. x \<in> set xs \<Longrightarrow> f x = conn_Write (w x)) \<Longrightarrow> act_each f xs = conn_Write (concat (map w xs))"
  by (induction xs) (simp_all add: conn_Write_Nil conn_Write_append)

lemma conn_Write_in [simp]: "cn_in (snd (conn_Write p c)) = cn_in c"
  by (simp add: conn_Write_def split: option.split)

lemma conn_Write_ok:
  "conn_Write p c = (None, c') \<Longrightarrow> cn_out c' = cn_out c @ p"
  by (auto simp: conn_Write_def split: option.splits if_splits)

lemma conn_Write_healthy: "cn_cap c = None \<Longrightarrow> conn_Write p c = (None, c\<lparr>cn_out := cn_out c @ p\<rparr>)"
  by (simp add: conn_Write_def)

end
