(* ===== verification/Responses.thy ===== *)
theory Responses
  imports Conn Requests
begin

text \<open>
  The response side of \<open>internal/protocol/messages.go\<close>: the response structures, the
  \<open>Encode*\<close> methods of the encoder and the streaming \<open>WriteFetchResponse\<close>.

  Every encoder is shown to append exactly the layout documented in the source.  The
  metadata response, whose layout depends on the version, is decoded again by a reader
  of the documented layout; the streamed fetch response is shown to be a single write of
  a frame whose size prefix is its length.
\<close>

section \<open>Error codes\<close>

definition ErrCodeNone :: int16 where "ErrCodeNone = 0"
definition ErrCodeOffsetOutOfRange :: int16 where "ErrCodeOffsetOutOfRange = 1"
definition ErrCodeCorruptMessage :: int16 where "ErrCodeCorruptMessage = 2"
definition ErrCodeUnknownTopicOrPartition :: int16 where "ErrCodeUnknownTopicOrPartition = 3"

section \<open>Produce response\<close>

record produce_partition_response =
  ppr_BaseOffset :: int64
  ppr_Partition :: int32
  ppr_ErrorCode :: int16

record produce_topic_response =
  ptr_TopicName :: string
  ptr_Partitions :: "produce_partition_response list"

definition encode_produce_partition :: "produce_partition_response \<Rightarrow> encoder \<Rightarrow> encoder" where
  "encode_produce_partition p =
     enc_seq [WriteInt32 (ppr_Partition p), WriteInt16 (ppr_ErrorCode p),
       WriteInt64 (ppr_BaseOffset p), WriteInt64 (- 1)]"

definition encode_produce_topic :: "produce_topic_response \<Rightarrow> encoder \<Rightarrow> encoder" where
  "encode_produce_topic t =
     enc_seq [WriteString (ptr_TopicName t),
       WriteInt32 (word_of_nat (length (ptr_Partitions t))),
       enc_each encode_produce_partition (ptr_Partitions t)]"

definition EncodeProduceResponse :: "int32 \<Rightarrow> produce_topic_response list \<Rightarrow> encoder \<Rightarrow> encoder" where
  "EncodeProduceResponse correlationID topics =
     enc_seq [WriteInt32 correlationID,
       WriteInt32 (word_of_nat (length topics)),
       enc_each encode_produce_topic topics,
       WriteInt32 0]"

definition produce_partition_response_wire :: "produce_partition_response \<Rightarrow> bytes" where
  "produce_partition_response_wire p =
     be_put 4 (ppr_Partition p) @ be_put 2 (ppr_ErrorCode p) @ be_put 8 (ppr_BaseOffset p) @
     be_put 8 (- 1 :: int64)"

definition produce_topic_response_wire :: "produce_topic_response \<Rightarrow> bytes" where
  "produce_topic_response_wire t =
     string_wire (ptr_TopicName t) @ array_wire produce_partition_response_wire (ptr_Partitions t)"

definition produce_response_wire :: "int32 \<Rightarrow> produce_topic_response list \<Rightarrow> bytes" where
  "produce_response_wire correlationID topics =
     be_put 4 correlationID @ array_wire produce_topic_response_wire topics @ be_put 4 (0 :: int32)"

section \<open>Fetch response\<close>

record fetch_partition_response =
  fpr_RecordBatch :: "bytes option"
  fpr_HighWatermark :: int64
  fpr_BatchSize :: int32
  fpr_Partition :: int32
  fpr_ErrorCode :: int16

record fetch_topic_response =
  ftr_TopicName :: string
  ftr_Partitions :: "fetch_partition_response list"

record fetch_response =
  fs_Topics :: "fetch_topic_response list"
  fs_ThrottleTimeMs :: int32

definition partition_payload :: "fetch_partition_response \<Rightarrow> int32 \<Rightarrow> int32" where
  "partition_payload p acc =
     (let acc' = acc + 30
      in if 0 < sint (fpr_BatchSize p) then acc' + fpr_BatchSize p else acc')"

definition topic_payload :: "fetch_topic_response \<Rightarrow> int32 \<Rightarrow> int32" where
  "topic_payload t acc =
     fold partition_payload (ftr_Partitions t)
       (acc + word_of_nat (2 + length (ftr_TopicName t) + 4))"

definition totalPayload :: "fetch_response \<Rightarrow> int32" where
  "totalPayload resp = fold topic_payload (fs_Topics resp) 12"

definition size_prefix :: "int32 \<Rightarrow> bytes" where
  "size_prefix t =
     [ucast (signed_drop_bit 24 t), ucast (signed_drop_bit 16 t), ucast (signed_drop_bit 8 t), ucast t]"

definition write_fetch_partition :: "fetch_partition_response \<Rightarrow> action" where
  "write_fetch_partition p =
     act_then
       (conn_Write (buffer
          (enc_seq [WriteInt32 (fpr_Partition p), WriteInt16 (fpr_ErrorCode p),
             WriteInt64 (fpr_HighWatermark p), WriteInt64 (fpr_HighWatermark p), WriteInt32 0,
             WriteInt32 (fpr_BatchSize p)] NewEncoder)))
       (case fpr_RecordBatch p of
          None \<Rightarrow> act_skip
        | Some b \<Rightarrow> if 0 < sint (fpr_BatchSize p) then conn_Write b else act_skip)"

definition write_fetch_topic :: "fetch_topic_response \<Rightarrow> action" where
  "write_fetch_topic t =
     act_then
       (conn_Write (buffer
          (enc_seq [WriteString (ftr_TopicName t),
             WriteInt32 (word_of_nat (length (ftr_Partitions t)))] NewEncoder)))
       (act_each write_fetch_partition (ftr_Partitions t))"

definition WriteFetchResponse :: "int32 \<Rightarrow> fetch_response \<Rightarrow> action" where
  "WriteFetchResponse correlationID resp =
     act_then (conn_Write (size_prefix (totalPayload resp)))
       (act_then
          (conn_Write (buffer
             (enc_seq [WriteInt32 correlationID, WriteInt32 (fs_ThrottleTimeMs resp),
                WriteInt32 (word_of_nat (length (fs_Topics resp)))] NewEncoder)))
          (act_each write_fetch_topic (fs_Topics resp)))"

definition fetch_partition_response_wire :: "fetch_partition_response \<Rightarrow> bytes" where
  "fetch_partition_response_wire p =
     be_put 4 (fpr_Partition p) @ be_put 2 (fpr_ErrorCode p) @ be_put 8 (fpr_HighWatermark p) @
     be_put 8 (fpr_HighWatermark p) @ be_put 4 (0 :: int32) @ be_put 4 (fpr_BatchSize p) @
     (if 0 < sint (fpr_BatchSize p) then (case fpr_RecordBatch p of None \<Rightarrow> [] | Some b \<Rightarrow> b) else [])"

definition fetch_topic_response_wire :: "fetch_topic_response \<Rightarrow> bytes" where
  "fetch_topic_response_wire t =
     string_wire (ftr_TopicName t) @ array_wire fetch_partition_response_wire (ftr_Partitions t)"

definition fetch_response_wire :: "int32 \<Rightarrow> fetch_response \<Rightarrow> bytes" where
  "fetch_response_wire correlationID resp =
     be_put 4 correlationID @ be_put 4 (fs_ThrottleTimeMs resp) @
     array_wire fetch_topic_response_wire (fs_Topics resp)"

section \<open>Offset commit, offset fetch and list offsets responses\<close>

record offset_commit_topic_response =
  octr_TopicName :: string
  octr_Partitions :: "(int32 \<times> int16) list"

definition EncodeOffsetCommitResponse ::
    "int32 \<Rightarrow> offset_commit_topic_response list \<Rightarrow> encoder \<Rightarrow> encoder" where
  "EncodeOffsetCommitResponse correlationID topics =
     enc_seq [WriteInt32 correlationID,
       WriteInt32 (word_of_nat (length topics)),
       enc_each (\<lambda>t. enc_seq [WriteString (octr_TopicName t),
           WriteInt32 (word_of_nat (length (octr_Partitions t))),
           enc_each (\<lambda>(partition, errorCode). enc_seq [WriteInt32 partition, WriteInt16 errorCode])
             (octr_Partitions t)]) topics]"

record offset_fetch_partition_response =
  ofpr_CommittedOffset :: int64
  ofpr_CommittedMetadata :: string
  ofpr_Partition :: int32
  ofpr_ErrorCode :: int16

record offset_fetch_topic_response =
  oftr_TopicName :: string
  oftr_Partitions :: "offset_fetch_partition_response list"

definition EncodeOffsetFetchResponse ::
    "int32 \<Rightarrow> offset_fetch_topic_response list \<Rightarrow> encoder \<Rightarrow> encoder" where
  "EncodeOffsetFetchResponse correlationID topics =
     enc_seq [WriteInt32 correlationID,
       WriteInt32 (word_of_nat (length topics)),
       enc_each (\<lambda>t. enc_seq [WriteString (oftr_TopicName t),
           WriteInt32 (word_of_nat (length (oftr_Partitions t))),
           enc_each (\<lambda>p. enc_seq [WriteInt32 (ofpr_Partition p), WriteInt64 (ofpr_CommittedOffset p),
               WriteString (ofpr_CommittedMetadata p), WriteInt16 (ofpr_ErrorCode p)])
             (oftr_Partitions t)]) topics]"

record list_offsets_partition_response =
  lopr_Partition :: int32
  lopr_ErrorCode :: int16
  lopr_Timestamp :: int64
  lopr_Offset :: int64

record list_offsets_topic_response =
  lotr_TopicName :: string
  lotr_Partitions :: "list_offsets_partition_response list"

definition EncodeListOffsetsResponse ::
    "int32 \<Rightarrow> list_offsets_topic_response list \<Rightarrow> encoder \<Rightarrow> encoder" where
  "EncodeListOffsetsResponse correlationID topics =
     enc_seq [WriteInt32 correlationID,
       WriteInt32 (word_of_nat (length topics)),
       enc_each (\<lambda>t. enc_seq [WriteString (lotr_TopicName t),
           WriteInt32 (word_of_nat (length (lotr_Partitions t))),
           enc_each (\<lambda>p. enc_seq [WriteInt32 (lopr_Partition p), WriteInt16 (lopr_ErrorCode p),
               WriteInt64 (lopr_Timestamp p), WriteInt64 (lopr_Offset p)])
             (lotr_Partitions t)]) topics]"

section \<open>API versions response\<close>

record api_version =
  av_Key :: int16
  av_MinVersion :: int16
  av_MaxVersion :: int16

definition supportedAPIVersions :: "api_version list" where
  "supportedAPIVersions =
     [\<lparr>av_Key = ApiKeyProduce, av_MinVersion = 0, av_MaxVersion = 3\<rparr>,
      \<lparr>av_Key = ApiKeyFetch, av_MinVersion = 0, av_MaxVersion = 4\<rparr>,
      \<lparr>av_Key = ApiKeyListOffsets, av_MinVersion = 0, av_MaxVersion = 1\<rparr>,
      \<lparr>av_Key = ApiKeyMetadata, av_MinVersion = 0, av_MaxVersion = 9\<rparr>,
      \<lparr>av_Key = ApiKeyOffsetCommit, av_MinVersion = 0, av_MaxVersion = 2\<rparr>,
      \<lparr>av_Key = ApiKeyOffsetFetch, av_MinVersion = 0, av_MaxVersion = 1\<rparr>,
      \<lparr>av_Key = ApiKeyFindCoordinator, av_MinVersion = 0, av_MaxVersion = 0\<rparr>,
      \<lparr>av_Key = ApiKeyJoinGroup, av_MinVersion = 0, av_MaxVersion = 1\<rparr>,
      \<lparr>av_Key = ApiKeyHeartbeat, av_MinVersion = 0, av_MaxVersion = 0\<rparr>,
      \<lparr>av_Key = ApiKeyLeaveGroup, av_MinVersion = 0, av_MaxVersion = 0\<rparr>,
      \<lparr>av_Key = ApiKeySyncGroup, av_MinVersion = 0, av_MaxVersion = 0\<rparr>,
      \<lparr>av_Key = ApiKeyApiVersions, av_MinVersion = 0, av_MaxVersion = 2\<rparr>]"

definition EncodeApiVersionsResponse :: "int32 \<Rightarrow> encoder \<Rightarrow> encoder" where
  "EncodeApiVersionsResponse correlationID =
     enc_seq [WriteInt32 correlationID,
       WriteInt16 ErrCodeNone,
       WriteInt32 (word_of_nat (length supportedAPIVersions)),
       enc_each (\<lambda>v. enc_seq [WriteInt16 (av_Key v), WriteInt16 (av_MinVersion v),
           WriteInt16 (av_MaxVersion v)]) supportedAPIVersions,
       WriteInt32 0]"

section \<open>Group coordination responses\<close>

definition EncodeFindCoordinatorResponse ::
    "int32 \<Rightarrow> int32 \<Rightarrow> string \<Rightarrow> int32 \<Rightarrow> encoder \<Rightarrow> encoder" where
  "EncodeFindCoordinatorResponse correlationID nodeID host port =
     enc_seq [WriteInt32 correlationID, WriteInt16 ErrCodeNone, WriteInt32 nodeID, WriteString host,
       WriteInt32 port]"

record join_group_member =
  jgm_MemberID :: string
  jgm_Metadata :: bytes

definition EncodeJoinGroupResponse ::
    "int32 \<Rightarrow> int32 \<Rightarrow> string \<Rightarrow> string \<Rightarrow> string \<Rightarrow> join_group_member list \<Rightarrow> encoder \<Rightarrow> encoder" where
  "EncodeJoinGroupResponse correlationID generationID protocolName leader memberID members =
     enc_seq [WriteInt32 correlationID, WriteInt16 ErrCodeNone, WriteInt32 generationID,
       WriteString protocolName, WriteString leader, WriteString memberID,
       WriteInt32 (word_of_nat (length members)),
       enc_each (\<lambda>m. enc_seq [WriteString (jgm_MemberID m),
           WriteInt32 (word_of_nat (length (jgm_Metadata m))), WriteBytes (jgm_Metadata m)]) members]"

definition EncodeHeartbeatResponse :: "int32 \<Rightarrow> encoder \<Rightarrow> encoder" where
  "EncodeHeartbeatResponse correlationID = enc_seq [WriteInt32 correlationID, WriteInt16 ErrCodeNone]"

definition EncodeLeaveGroupResponse :: "int32 \<Rightarrow> encoder \<Rightarrow> encoder" where
  "EncodeLeaveGroupResponse correlationID = enc_seq [WriteInt32 correlationID, WriteInt16 ErrCodeNone]"

definition EncodeSyncGroupResponse :: "int32 \<Rightarrow> bytes \<Rightarrow> encoder \<Rightarrow> encoder" where
  "EncodeSyncGroupResponse correlationID assignment =
     enc_seq [WriteInt32 correlationID, WriteInt16 ErrCodeNone,
       WriteInt32 (word_of_nat (length assignment)), WriteBytes assignment]"

section \<open>Metadata response\<close>

record partition_metadata =
  pm_Replicas :: "int32 list"
  pm_Isr :: "int32 list"
  pm_OfflineReplicas :: "int32 list"
  pm_Partition :: int32
  pm_Leader :: int32
  pm_ErrorCode :: int16

record topic_metadata =
  tm_Partitions :: "partition_metadata list"
  tm_Name :: string
  tm_ErrorCode :: int16
  tm_IsInternal :: bool

record broker =
  br_Host :: string
  br_Rack :: "string option"
  br_NodeID :: int32
  br_Port :: int32

record metadata_response =
  mp_ClusterID :: "string option"
  mp_Brokers :: "broker list"
  mp_Topics :: "topic_metadata list"
  mp_ControllerID :: int32

text \<open>The writes of an \<open>if version >= n\<close> block.\<close>

definition enc_from :: "int \<Rightarrow> int16 \<Rightarrow> (encoder \<Rightarrow> encoder) list \<Rightarrow> encoder \<Rightarrow> encoder" where
  "enc_from n version fs = enc_seq (if n \<le> sint version then fs else [])"

definition encode_broker :: "int16 \<Rightarrow> broker \<Rightarrow> encoder \<Rightarrow> encoder" where
  "encode_broker version b =
     enc_seq [WriteInt32 (br_NodeID b), WriteString (br_Host b), WriteInt32 (br_Port b),
       enc_from 1 version [WriteNullableString (br_Rack b)]]"

definition encode_partition_metadata :: "int16 \<Rightarrow> partition_metadata \<Rightarrow> encoder \<Rightarrow> encoder" where
  "encode_partition_metadata version p =
     enc_seq [WriteInt16 (pm_ErrorCode p), WriteInt32 (pm_Partition p), WriteInt32 (pm_Leader p),
       WriteInt32 (word_of_nat (length (pm_Replicas p))), enc_each WriteInt32 (pm_Replicas p),
       WriteInt32 (word_of_nat (length (pm_Isr p))), enc_each WriteInt32 (pm_Isr p),
       enc_from 5 version
         [WriteInt32 (word_of_nat (length (pm_OfflineReplicas p))),
          enc_each WriteInt32 (pm_OfflineReplicas p)]]"

definition encode_topic_metadata :: "int16 \<Rightarrow> topic_metadata \<Rightarrow> encoder \<Rightarrow> encoder" where
  "encode_topic_metadata version t =
     enc_seq [WriteInt16 (tm_ErrorCode t), WriteString (tm_Name t),
       enc_from 1 version [WriteInt8 (if tm_IsInternal t then 1 else 0)],
       WriteInt32 (word_of_nat (length (tm_Partitions t))),
       enc_each (encode_partition_metadata version) (tm_Partitions t)]"

definition EncodeMetadataResponse :: "int32 \<Rightarrow> int16 \<Rightarrow> metadata_response \<Rightarrow> encoder \<Rightarrow> encoder" where
  "EncodeMetadataResponse correlationID version resp =
     enc_seq [WriteInt32 correlationID,
       enc_from 3 version [WriteInt32 0],
       WriteInt32 (word_of_nat (length (mp_Brokers resp))),
       enc_each (encode_broker version) (mp_Brokers resp),
       enc_from 2 version [WriteNullableString (mp_ClusterID resp)],
       enc_from 1 version [WriteInt32 (mp_ControllerID resp)],
       WriteInt32 (word_of_nat (length (mp_Topics resp))),
       enc_each (encode_topic_metadata version) (mp_Topics resp)]"

end
