(* ===== verification/Response_Laws.thy ===== *)
theory Response_Laws
  imports Responses
begin

text \<open>
  What the response encoders put on the wire: the framing of the streamed fetch response,
  and the version-dependent metadata response read back by a reader of its documented
  layout.
\<close>

section \<open>Lengths of the layouts\<close>

lemma length_wires [simp]:
  "length (string_wire s) = 2 + length s"
  "length (bytes_wire b) = 4 + length b"
  "length (array_wire f xs) = 4 + sum_list (map (length \<circ> f) xs)"
  by (simp_all add: string_wire_def bytes_wire_def array_wire_def length_concat comp_def)

section \<open>The streamed fetch response\<close>

lemma buffer_EncodeProduceResponse:
  "buffer (EncodeProduceResponse correlationID topics e) = buffer e @ produce_response_wire correlationID topics"
proof -
  have p: "buffer (encode_produce_partition p e) = buffer e @ produce_partition_response_wire p" for p e
    by (simp add: encode_produce_partition_def produce_partition_response_wire_def wire_simps)
  have t: "buffer (encode_produce_topic t e) = buffer e @ produce_topic_response_wire t" for t e
    by (simp add: encode_produce_topic_def produce_topic_response_wire_def array_wire_def wire_simps buffer_enc_each [OF p])
  show ?thesis
    by (simp add: EncodeProduceResponse_def produce_response_wire_def array_wire_def wire_simps buffer_enc_each [OF t])
qed

lemma size_prefix_be_put: "size_prefix t = be_put 4 t"
proof -
  have "(ucast (signed_drop_bit n t) :: byte) = ucast (drop_bit n t)" if "n + 8 \<le> 32" for n
    using that by (intro bit_word_eqI) (auto simp: bit_simps)
  then show ?thesis by (simp add: size_prefix_def be_put_4)
qed

lemma write_fetch_partition_eq:
  "write_fetch_partition p = conn_Write (fetch_partition_response_wire p)"
  by (simp add: write_fetch_partition_def fetch_partition_response_wire_def wire_simps
      conn_Write_append conn_Write_Nil [symmetric] split: option.split)

lemma write_fetch_topic_eq: "write_fetch_topic t = conn_Write (fetch_topic_response_wire t)"
proof -
  have "act_each write_fetch_partition (ftr_Partitions t) =
      conn_Write (concat (map fetch_partition_response_wire (ftr_Partitions t)))"
    by (rule act_each_Write) (rule write_fetch_partition_eq)
  then show ?thesis
    by (simp add: write_fetch_topic_def fetch_topic_response_wire_def array_wire_def wire_simps
        conn_Write_append)
qed

lemma WriteFetchResponse_eq:
  "WriteFetchResponse correlationID resp =
   conn_Write (be_put 4 (totalPayload resp) @ fetch_response_wire correlationID resp)"
proof -
  have "act_each write_fetch_topic (fs_Topics resp) =
      conn_Write (concat (map fetch_topic_response_wire (fs_Topics resp)))"
    by (rule act_each_Write) (rule write_fetch_topic_eq)
  then show ?thesis
    by (simp add: WriteFetchResponse_def fetch_response_wire_def array_wire_def wire_simps
        conn_Write_append size_prefix_be_put)
qed

text \<open>
  The announced batch sizes are the sizes of the readers handed over: what
  \<open>handleFetch\<close> establishes.
\<close>

definition batch_sizes_ok :: "fetch_response \<Rightarrow> bool" where
  "batch_sizes_ok resp \<longleftrightarrow>
     list_all (\<lambda>t. list_all (\<lambda>p. 0 < sint (fpr_BatchSize p) \<longrightarrow>
         (\<exists>b. fpr_RecordBatch p = Some b \<and> int (length b) = sint (fpr_BatchSize p)))
       (ftr_Partitions t)) (fs_Topics resp)"

lemma batch_size_word:
  assumes "int (length b) = sint (w :: int32)"
  shows "(word_of_nat (length b) :: int32) = w"
proof -
  have "(word_of_nat (length b) :: int32) = word_of_int (sint w)"
    using assms by (metis of_int_of_nat_eq)
  then show ?thesis by simp
qed

lemma partition_payload_eq:
  assumes "0 < sint (fpr_BatchSize p) \<Longrightarrow>
    \<exists>b. fpr_RecordBatch p = Some b \<and> int (length b) = sint (fpr_BatchSize p)"
  shows "partition_payload p acc = acc + word_of_nat (length (fetch_partition_response_wire p))"
  using assms
  by (auto simp: partition_payload_def fetch_partition_response_wire_def Let_def
      batch_size_word add.assoc)

lemma fold_add_lengths:
  assumes "\<And>x acc. x \<in> set xs \<Longrightarrow> f x acc = acc + word_of_nat (length (w x))"
  shows "fold f xs (acc :: int32) = acc + word_of_nat (sum_list (map (length \<circ> w) xs))"
  using assms by (induction xs arbitrary: acc) (simp_all add: add.assoc)

lemma totalPayload_eq:
  assumes "batch_sizes_ok resp"
  shows "totalPayload resp = word_of_nat (length (fetch_response_wire correlationID resp))"
proof -
  have "topic_payload t acc = acc + word_of_nat (length (fetch_topic_response_wire t))"
    if "t \<in> set (fs_Topics resp)" for t acc
  proof -
    have "fold partition_payload (ftr_Partitions t) a =
        a + word_of_nat (sum_list (map (length \<circ> fetch_partition_response_wire) (ftr_Partitions t)))" for a
      using assms that
      by (intro fold_add_lengths partition_payload_eq) (auto simp: batch_sizes_ok_def list_all_iff)
    then show ?thesis
      by (simp add: topic_payload_def fetch_topic_response_wire_def add.assoc)
  qed
  then have "fold topic_payload (fs_Topics resp) 12 =
      12 + word_of_nat (sum_list (map (length \<circ> fetch_topic_response_wire) (fs_Topics resp)))"
    by (rule fold_add_lengths)
  then show ?thesis
    by (simp add: totalPayload_def fetch_response_wire_def add.assoc)
qed

text \<open>
  C22: streaming a fetch response whose announced batch sizes are right is the same action
  on the connection as one write of a frame: the documented payload, preceded by its
  length.  This covers a connection that breaks in the middle, where exactly a prefix of
  the frame is delivered.
\<close>

theorem WriteFetchResponse_frame:
  assumes "batch_sizes_ok resp"
  shows "WriteFetchResponse correlationID resp =
    conn_Write (FullMessage \<lparr>buffer = fetch_response_wire correlationID resp\<rparr>)"
  using totalPayload_eq [OF assms, of correlationID]
  by (simp add: WriteFetchResponse_eq FullMessage_def)

definition sample_fetch_response :: fetch_response where
  "sample_fetch_response = \<lparr>fs_Topics = [\<lparr>ftr_TopicName = ''t'', ftr_Partitions =
       [\<lparr>fpr_RecordBatch = Some [1, 2, 3], fpr_HighWatermark = 7, fpr_BatchSize = 3, fpr_Partition = 0, fpr_ErrorCode = 0\<rparr>,
        \<lparr>fpr_RecordBatch = None, fpr_HighWatermark = 0, fpr_BatchSize = 0, fpr_Partition = 1, fpr_ErrorCode = 1\<rparr>]\<rparr>],
     fs_ThrottleTimeMs = 0\<rparr>"

theorem WriteFetchResponse_frame_witness:
  "WriteFetchResponse 9 sample_fetch_response =
     conn_Write (FullMessage \<lparr>buffer = fetch_response_wire 9 sample_fetch_response\<rparr>)"
  using WriteFetchResponse_frame [of sample_fetch_response 9]
  by (simp add: batch_sizes_ok_def sample_fetch_response_def)

section \<open>The metadata response, version by version\<close>

text \<open>A reader of the documented layout.\<close>

definition read_nullable :: "string option dec" where
  "read_nullable =
     dbind ReadInt16 (\<lambda>n.
       if sint n < 0 then dreturn None
       else dbind (ReadBytes (sint n)) (\<lambda>b. dreturn (Some (bytes_string b))))"

definition read_array :: "'a dec \<Rightarrow> 'a list dec" where
  "read_array d = dbind ReadInt32 (\<lambda>n. make_then_read n (\<lambda>_. d))"

definition read_from :: "int \<Rightarrow> int16 \<Rightarrow> 'a \<Rightarrow> 'a dec \<Rightarrow> 'a dec" where
  "read_from n version dflt d = (if n \<le> sint version then d else dreturn dflt)"

definition read_broker :: "int16 \<Rightarrow> broker dec" where
  "read_broker version =
     dbind ReadInt32 (\<lambda>node. dbind ReadString (\<lambda>host. dbind ReadInt32 (\<lambda>port.
     dbind (read_from 1 version None read_nullable) (\<lambda>rack.
     dreturn \<lparr>br_Host = host, br_Rack = rack, br_NodeID = node, br_Port = port\<rparr>))))"

definition read_partition_metadata :: "int16 \<Rightarrow> partition_metadata dec" where
  "read_partition_metadata version =
     dbind ReadInt16 (\<lambda>err. dbind ReadInt32 (\<lambda>part. dbind ReadInt32 (\<lambda>leader.
     dbind (read_array ReadInt32) (\<lambda>replicas. dbind (read_array ReadInt32) (\<lambda>isr.
     dbind (read_from 5 version [] (read_array ReadInt32)) (\<lambda>offl.
     dreturn \<lparr>pm_Replicas = replicas, pm_Isr = isr, pm_OfflineReplicas = offl, pm_Partition = part,
       pm_Leader = leader, pm_ErrorCode = err\<rparr>))))))"

definition read_topic_metadata :: "int16 \<Rightarrow> topic_metadata dec" where
  "read_topic_metadata version =
     dbind ReadInt16 (\<lambda>err. dbind ReadString (\<lambda>name.
     dbind (read_from 1 version False ReadBool) (\<lambda>internal.
     dbind (read_array (read_partition_metadata version)) (\<lambda>parts.
     dreturn \<lparr>tm_Partitions = parts, tm_Name = name, tm_ErrorCode = err, tm_IsInternal = internal\<rparr>))))"

definition read_metadata_response :: "int16 \<Rightarrow> (int32 \<times> metadata_response) dec" where
  "read_metadata_response version =
     dbind ReadInt32 (\<lambda>corr.
     dbind (read_from 3 version 0 ReadInt32) (\<lambda>throttle.
     dbind (read_array (read_broker version)) (\<lambda>brokers.
     dbind (read_from 2 version None read_nullable) (\<lambda>cluster.
     dbind (read_from 1 version 0 ReadInt32) (\<lambda>controller.
     dbind (read_array (read_topic_metadata version)) (\<lambda>topics.
     dreturn (corr, \<lparr>mp_ClusterID = cluster, mp_Brokers = brokers, mp_Topics = topics,
       mp_ControllerID = controller\<rparr>)))))))"

text \<open>What a response of a given version carries: later fields have their defaults.\<close>

definition broker_view :: "int16 \<Rightarrow> broker \<Rightarrow> broker" where
  "broker_view version b = (if 1 \<le> sint version then b else b\<lparr>br_Rack := None\<rparr>)"

definition partition_metadata_view :: "int16 \<Rightarrow> partition_metadata \<Rightarrow> partition_metadata" where
  "partition_metadata_view version p = (if 5 \<le> sint version then p else p\<lparr>pm_OfflineReplicas := []\<rparr>)"

definition topic_metadata_view :: "int16 \<Rightarrow> topic_metadata \<Rightarrow> topic_metadata" where
  "topic_metadata_view version t =
     (if 1 \<le> sint version then t else t\<lparr>tm_IsInternal := False\<rparr>)
     \<lparr>tm_Partitions := map (partition_metadata_view version) (tm_Partitions t)\<rparr>"

definition metadata_view :: "int16 \<Rightarrow> metadata_response \<Rightarrow> metadata_response" where
  "metadata_view version resp =
     \<lparr>mp_ClusterID = (if 2 \<le> sint version then mp_ClusterID resp else None),
      mp_Brokers = map (broker_view version) (mp_Brokers resp),
      mp_Topics = map (topic_metadata_view version) (mp_Topics resp),
      mp_ControllerID = (if 1 \<le> sint version then mp_ControllerID resp else 0)\<rparr>"

definition nullable_ok :: "string option \<Rightarrow> bool" where
  "nullable_ok v = (case v of None \<Rightarrow> True | Some s \<Rightarrow> length s < 2 ^ 15)"

definition broker_ok :: "broker \<Rightarrow> bool" where
  "broker_ok b \<longleftrightarrow> length (br_Host b) < 2 ^ 15 \<and> nullable_ok (br_Rack b)"

definition partition_metadata_ok :: "partition_metadata \<Rightarrow> bool" where
  "partition_metadata_ok p \<longleftrightarrow>
     length (pm_Replicas p) < 2 ^ 31 \<and> length (pm_Isr p) < 2 ^ 31 \<and>
     length (pm_OfflineReplicas p) < 2 ^ 31"

definition topic_metadata_ok :: "topic_metadata \<Rightarrow> bool" where
  "topic_metadata_ok t \<longleftrightarrow>
     length (tm_Name t) < 2 ^ 15 \<and> length (tm_Partitions t) < 2 ^ 31 \<and>
     list_all partition_metadata_ok (tm_Partitions t)"

definition metadata_response_ok :: "metadata_response \<Rightarrow> bool" where
  "metadata_response_ok resp \<longleftrightarrow>
     nullable_ok (mp_ClusterID resp) \<and>
     length (mp_Brokers resp) < 2 ^ 31 \<and> list_all broker_ok (mp_Brokers resp) \<and>
     length (mp_Topics resp) < 2 ^ 31 \<and> list_all topic_metadata_ok (mp_Topics resp)"

definition from_wire :: "int \<Rightarrow> int16 \<Rightarrow> bytes \<Rightarrow> bytes" where
  "from_wire n version b = (if n \<le> sint version then b else [])"

definition broker_wire :: "int16 \<Rightarrow> broker \<Rightarrow> bytes" where
  "broker_wire version b =
     be_put 4 (br_NodeID b) @ string_wire (br_Host b) @ be_put 4 (br_Port b) @
     from_wire 1 version (nullable_wire (br_Rack b))"

definition partition_metadata_wire :: "int16 \<Rightarrow> partition_metadata \<Rightarrow> bytes" where
  "partition_metadata_wire version p =
     be_put 2 (pm_ErrorCode p) @ be_put 4 (pm_Partition p) @ be_put 4 (pm_Leader p) @
     array_wire (be_put 4) (pm_Replicas p) @ array_wire (be_put 4) (pm_Isr p) @
     from_wire 5 version (array_wire (be_put 4) (pm_OfflineReplicas p))"

definition topic_metadata_wire :: "int16 \<Rightarrow> topic_metadata \<Rightarrow> bytes" where
  "topic_metadata_wire version t =
     be_put 2 (tm_ErrorCode t) @ string_wire (tm_Name t) @
     from_wire 1 version [if tm_IsInternal t then 1 else 0] @
     array_wire (partition_metadata_wire version) (tm_Partitions t)"

definition metadata_response_wire :: "int32 \<Rightarrow> int16 \<Rightarrow> metadata_response \<Rightarrow> bytes" where
  "metadata_response_wire correlationID version resp =
     be_put 4 correlationID @ from_wire 3 version (be_put 4 (0 :: int32)) @
     array_wire (broker_wire version) (mp_Brokers resp) @
     from_wire 2 version (nullable_wire (mp_ClusterID resp)) @
     from_wire 1 version (be_put 4 (mp_ControllerID resp)) @
     array_wire (topic_metadata_wire version) (mp_Topics resp)"

lemma buffer_enc_from [wire_simps]:
  "buffer (enc_from n version fs e) = (if n \<le> sint version then buffer (enc_seq fs e) else buffer e)"
  by (simp add: enc_from_def wire_simps)

lemma buffer_WriteInt32_each [wire_simps]:
  "buffer (enc_each WriteInt32 xs e) = buffer e @ concat (map (be_put 4) xs)"
  by (rule buffer_enc_each) (simp add: wire_simps)

lemma buffer_encode_broker: "buffer (encode_broker version b e) = buffer e @ broker_wire version b"
  by (simp add: encode_broker_def broker_wire_def from_wire_def wire_simps)

lemma buffer_encode_partition_metadata:
  "buffer (encode_partition_metadata version p e) = buffer e @ partition_metadata_wire version p"
  by (simp add: encode_partition_metadata_def partition_metadata_wire_def from_wire_def
      array_wire_def wire_simps)

lemma buffer_encode_topic_metadata:
  "buffer (encode_topic_metadata version t e) = buffer e @ topic_metadata_wire version t"
  by (simp add: encode_topic_metadata_def topic_metadata_wire_def from_wire_def array_wire_def
      wire_simps buffer_enc_each [OF buffer_encode_partition_metadata])

lemma buffer_EncodeMetadataResponse:
  "buffer (EncodeMetadataResponse correlationID version resp e) =
   buffer e @ metadata_response_wire correlationID version resp"
  by (simp add: EncodeMetadataResponse_def metadata_response_wire_def from_wire_def array_wire_def
      wire_simps buffer_enc_each [OF buffer_encode_broker] buffer_enc_each [OF buffer_encode_topic_metadata])

lemma read_nullable_feed [feed_simps]:
  "nullable_ok v \<Longrightarrow> read_nullable (feed (nullable_wire v) r) = (Inr v, r)"
  by (cases v)
    (simp_all add: read_nullable_def nullable_wire_def nullable_ok_def string_wire_def dec_defs
      feed_simps sint_of_length16)

lemma read_int32s_feed [feed_simps]:
  "length xs < 2 ^ 31 \<Longrightarrow> read_array ReadInt32 (feed (array_wire (be_put 4) xs) r) = (Inr xs, r)"
  by (simp add: read_array_def array_wire_def dbind_def feed_simps int32_codec.make_dec_enc list.pred_True)

lemma read_bool_feed [feed_simps]: "ReadBool (feed [if b then 1 else 0] r) = (Inr b, r)"
  by (simp add: ReadBool_def dbind_def dreturn_def feed_simps)

lemma read_from_feed [feed_simps]:
  "nullable_ok v \<Longrightarrow> read_from n version None read_nullable (feed (from_wire n version (nullable_wire v)) r) =
     (Inr (if n \<le> sint version then v else None), r)"
  "read_from n version 0 ReadInt32 (feed (from_wire n version (be_put 4 w)) r) =
     (Inr (if n \<le> sint version then w else 0), r)"
  "read_from n version False ReadBool (feed (from_wire n version [if b then 1 else 0]) r) =
     (Inr (if n \<le> sint version then b else False), r)"
  "length xs < 2 ^ 31 \<Longrightarrow>
   read_from n version [] (read_array ReadInt32) (feed (from_wire n version (array_wire (be_put 4) xs)) r) =
     (Inr (if n \<le> sint version then xs else []), r)"
  by (simp_all add: read_from_def from_wire_def dreturn_def feed_simps)

interpretation broker_codec:
  wire_view "broker_wire version" "\<lambda>_. read_broker version" broker_ok "broker_view version" for version
  by unfold_locales
    (simp add: read_broker_def broker_wire_def broker_ok_def broker_view_def dbind_def dreturn_def
      feed_simps)

interpretation partition_metadata_codec:
  wire_view "partition_metadata_wire version" "\<lambda>_. read_partition_metadata version"
    partition_metadata_ok "partition_metadata_view version" for version
  by unfold_locales
    (simp add: read_partition_metadata_def partition_metadata_wire_def partition_metadata_ok_def
      partition_metadata_view_def dbind_def dreturn_def feed_simps)

interpretation topic_metadata_codec:
  wire_view "topic_metadata_wire version" "\<lambda>_. read_topic_metadata version"
    topic_metadata_ok "topic_metadata_view version" for version
  by unfold_locales
    (simp add: read_topic_metadata_def topic_metadata_wire_def topic_metadata_ok_def read_array_def
      array_wire_def topic_metadata_view_def dbind_def dreturn_def feed_simps
      partition_metadata_codec.make_dec_enc)

text \<open>
  C31: for every version the client negotiates, reading the encoded metadata response by
  the layout documented for that version returns the correlation id and the response,
  with the fields a later version introduced at their defaults, and nothing is left over.
\<close>

theorem metadata_response_roundtrip:
  assumes "metadata_response_ok resp"
  shows "read_metadata_response version
      (feed (buffer (EncodeMetadataResponse correlationID version resp NewEncoder)) r) =
    (Inr (correlationID, metadata_view version resp), r)"
  using assms
  by (simp add: buffer_EncodeMetadataResponse wire_simps read_metadata_response_def
      metadata_response_wire_def metadata_response_ok_def metadata_view_def read_array_def
      array_wire_def dbind_def dreturn_def feed_simps broker_codec.make_dec_enc topic_metadata_codec.make_dec_enc)

definition sample_metadata_response :: metadata_response where
  "sample_metadata_response = \<lparr>mp_ClusterID = Some ''kage'',
     mp_Brokers = [\<lparr>br_Host = ''localhost'', br_Rack = None, br_NodeID = 1, br_Port = 9092\<rparr>],
     mp_Topics = [\<lparr>tm_Partitions = [\<lparr>pm_Replicas = [1], pm_Isr = [1], pm_OfflineReplicas = [], pm_Partition = 0,
         pm_Leader = 1, pm_ErrorCode = 0\<rparr>],
       tm_Name = ''t'', tm_ErrorCode = 0, tm_IsInternal = False\<rparr>], mp_ControllerID = 1\<rparr>"

theorem metadata_response_roundtrip_witness:
  "read_metadata_response 1
      (feed (buffer (EncodeMetadataResponse 5 1 sample_metadata_response NewEncoder)) \<lparr>rd_data = [], rd_err = io_EOF\<rparr>) =
    (Inr (5, metadata_view 1 sample_metadata_response), \<lparr>rd_data = [], rd_err = io_EOF\<rparr>)"
  using metadata_response_roundtrip [of sample_metadata_response 1 5]
  by (simp add: sample_metadata_response_def metadata_response_ok_def nullable_ok_def broker_ok_def
      topic_metadata_ok_def partition_metadata_ok_def)

end
