(* ===== verification/Offset_Records.thy ===== *)
theory Offset_Records
  imports Record_Batch
begin

text \<open>
  The records of the topic \<open>__consumer_offsets\<close> (\<open>internal/server/handler.go\<close>): a
  committed offset is stored as a length-prefixed key, which names the group, the topic and
  the partition, and a length-prefixed value.  The decoder checks every length before it
  slices; it inverts the encoder, and no input makes it read outside its record.
\<close>

record offsetCacheKey =
  ock_GroupID :: string
  ock_Topic :: string
  ock_Partition :: int32

definition Uint16_at :: "bytes \<Rightarrow> nat \<Rightarrow> 16 word" where
  "Uint16_at b i = be_get (subslice i (i + 2) b)"

definition Uint64_at :: "bytes \<Rightarrow> nat \<Rightarrow> 64 word" where
  "Uint64_at b i = be_get (subslice i (i + 8) b)"

section \<open>Encoding\<close>

definition encodeOffsetKey :: "string \<Rightarrow> string \<Rightarrow> int32 \<Rightarrow> bytes" where
  "encodeOffsetKey groupID topic pid =
     be_put 2 (word_of_nat (length groupID) :: 16 word) @ string_bytes groupID @
     be_put 2 (word_of_nat (length topic) :: 16 word) @ string_bytes topic @
     be_put 4 pid"

definition encodeOffsetRecord :: "bytes \<Rightarrow> bytes \<Rightarrow> bytes" where
  "encodeOffsetRecord key val =
     be_put 4 (word_of_nat (length key) :: 32 word) @ key @
     be_put 4 (word_of_nat (length val) :: 32 word) @ val"

section \<open>Decoding\<close>

text \<open>The key, once the record has been split into key and value.\<close>

definition decode_offset_key :: "bytes \<Rightarrow> goerr + offsetCacheKey" where
  "decode_offset_key key =
     (if length key < 2 then Inl (Errorf ''decodeOffsetRecord: key too short for groupID length'' [])
      else
        let groupIDLen = unat (Uint16_at key 0)
        in if length key < 2 + groupIDLen
           then Inl (Errorf ''decodeOffsetRecord: groupID length %d exceeds key'' [ArgInt (int groupIDLen)])
           else
             let groupID = bytes_string (subslice 2 (2 + groupIDLen) key);
                 kpos = 2 + groupIDLen
             in if length key < kpos + 2
                then Inl (Errorf ''decodeOffsetRecord: key too short for topic length'' [])
                else
                  let topicLen = unat (Uint16_at key kpos);
                      kpos = kpos + 2
                  in if length key < kpos + topicLen
                     then Inl (Errorf ''decodeOffsetRecord: topic length %d exceeds key'' [ArgInt (int topicLen)])
                     else
                       let topic = bytes_string (subslice kpos (kpos + topicLen) key);
                           kpos = kpos + topicLen
                       in if length key < kpos + 4
                          then Inl (Errorf ''decodeOffsetRecord: key too short for partition'' [])
                          else Inr \<lparr>ock_GroupID = groupID, ock_Topic = topic, ock_Partition = Uint32_at key kpos\<rparr>)"

definition decodeOffsetRecord :: "bytes \<Rightarrow> goerr + (offsetCacheKey \<times> int64)" where
  "decodeOffsetRecord rec =
     (if length rec < 4
      then Inl (Errorf ''decodeOffsetRecord: record too short (%d bytes)'' [ArgInt (int (length rec))])
      else
        let keyLen = unat (Uint32_at rec 0)
        in if length rec < 4 + keyLen
           then Inl (Errorf ''decodeOffsetRecord: key length %d exceeds record'' [ArgInt (int keyLen)])
           else
             let key = subslice 4 (4 + keyLen) rec;
                 pos = 4 + keyLen
             in if length rec < pos + 4
                then Inl (Errorf ''decodeOffsetRecord: no room for value length'' [])
                else
                  let valueLen = unat (Uint32_at rec pos);
                      pos = pos + 4
                  in if length rec < pos + valueLen
                     then Inl (Errorf ''decodeOffsetRecord: value length %d exceeds record'' [ArgInt (int valueLen)])
                     else
                       let val = subslice pos (pos + valueLen) rec
                       in case decode_offset_key key of
                            Inl e \<Rightarrow> Inl e
                          | Inr k \<Rightarrow>
                              if length val < 8
                              then Inl (Errorf ''decodeOffsetRecord: value too short for offset (%d bytes)''
                                     [ArgInt (int (length val))])
                              else Inr (k, Uint64_at val 0))"

section \<open>Round trip\<close>

lemma Uint_at_put:
  "length a = i \<Longrightarrow> Uint16_at (a @ be_put 2 wa @ b) i = wa"
  "length a = i \<Longrightarrow> Uint32_at (a @ be_put 4 wb @ b) i = wb"
  "length a = i \<Longrightarrow> Uint64_at (a @ be_put 8 wc @ b) i = wc"
  by (simp_all add: Uint16_at_def Uint32_at_def Uint64_at_def subslice_def be_get_be_put)

lemma subslice_middle: "length a = i \<Longrightarrow> j = i + length x \<Longrightarrow> subslice i j (a @ x @ b) = x"
  by (simp add: subslice_def)

lemma decode_offset_key_encode:
  assumes "length groupID < 2 ^ 16" and "length topic < 2 ^ 16"
  shows "decode_offset_key (encodeOffsetKey groupID topic pid) =
    Inr \<lparr>ock_GroupID = groupID, ock_Topic = topic, ock_Partition = pid\<rparr>"
proof -
  let ?g = "be_put 2 (word_of_nat (length groupID) :: 16 word)" and ?t = "be_put 2 (word_of_nat (length topic) :: 16 word)"
  let ?k = "encodeOffsetKey groupID topic pid"
  note K = encodeOffsetKey_def [of groupID topic pid]
  have n: "unat (word_of_nat (length groupID) :: 16 word) = length groupID"
    "unat (word_of_nat (length topic) :: 16 word) = length topic"
    using assms by (simp_all add: unat_of_nat)
  have len: "length ?k = 8 + length groupID + length topic" by (simp add: K)
  have g: "Uint16_at ?k 0 = word_of_nat (length groupID)" using Uint_at_put(1) [where a = "[]"] by (simp add: K)
  have gs: "subslice 2 (2 + length groupID) ?k = string_bytes groupID"
    unfolding K by (rule subslice_middle) simp_all
  have t: "Uint16_at ?k (2 + length groupID) = word_of_nat (length topic)"
    using Uint_at_put(1) [where a = "?g @ string_bytes groupID"] by (simp add: K)
  have ts: "subslice (2 + length groupID + 2) (2 + length groupID + 2 + length topic) ?k = string_bytes topic"
    using subslice_middle [where a = "?g @ string_bytes groupID @ ?t" and x = "string_bytes topic" and b = "be_put 4 pid", OF refl refl] by (simp add: K)
  have p: "Uint32_at ?k (2 + length groupID + 2 + length topic) = pid"
    using Uint_at_put(2) [where a = "?g @ string_bytes groupID @ ?t @ string_bytes topic" and b = "[]"] by (simp add: K)
  show ?thesis
    unfolding decode_offset_key_def Let_def g n gs t ts p by (simp add: len)
qed

lemma decodeOffsetRecord_encode:
  assumes "length groupID < 2 ^ 16" and "length topic < 2 ^ 16"
  shows "decodeOffsetRecord (encodeOffsetRecord (encodeOffsetKey groupID topic pid) (be_put 8 off)) =
    Inr (\<lparr>ock_GroupID = groupID, ock_Topic = topic, ock_Partition = pid\<rparr>, off)"
proof -
  let ?k = "encodeOffsetKey groupID topic pid"
  let ?r = "encodeOffsetRecord ?k (be_put 8 off)"
  let ?kl = "be_put 4 (word_of_nat (length ?k) :: 32 word)" and ?vl = "be_put 4 (8 :: 32 word)"
  have R: "?r = ?kl @ ?k @ ?vl @ be_put 8 off" by (simp add: encodeOffsetRecord_def)
  have lk: "length ?k < 2 ^ 32" using assms by (simp add: encodeOffsetKey_def)
  then have n: "unat (word_of_nat (length ?k) :: 32 word) = length ?k" by (simp add: unat_of_nat)
  have len: "length ?r = 16 + length ?k" by (simp add: R)
  have k: "Uint32_at ?r 0 = word_of_nat (length ?k)" using Uint_at_put(2) [where a = "[]"] by (simp add: R)
  have ks: "subslice 4 (4 + length ?k) ?r = ?k" unfolding R by (rule subslice_middle) simp_all
  have v: "Uint32_at ?r (4 + length ?k) = 8"
    using Uint_at_put(2) [where a = "?kl @ ?k" and wb = 8] by (simp add: R)
  have vs: "subslice (8 + length ?k) (16 + length ?k) ?r = be_put 8 off"
    using subslice_middle [where a = "?kl @ ?k @ ?vl" and x = "be_put 8 off" and b = "[]", OF refl refl] by (simp add: R)
  have o: "Uint64_at (be_put 8 off) 0 = off" using Uint_at_put(3) [where a = "[]" and b = "[]"] by simp
  show ?thesis
    unfolding decodeOffsetRecord_def Let_def k n ks v
    by (simp add: len vs o decode_offset_key_encode [OF assms])
qed

end
