(* ===== verification/Go_Strings.thy ===== *)
theory Go_Strings
  imports Kage_Prelude
begin

text \<open>
  What the source uses of \<open>fmt\<close>, \<open>strconv\<close>, \<open>strings\<close> and \<open>path/filepath\<close>: decimal
  numbers with and without padding, and the lexical processing of slash-separated paths.
  Strings are byte strings, as in Go.
\<close>

section \<open>Decimal numbers\<close>

definition digit_char :: "nat \<Rightarrow> char" where
  "digit_char n = char_of (48 + n mod 10)"

primrec dec_digits :: "nat \<Rightarrow> nat \<Rightarrow> string" where
  "dec_digits 0 n = []"
| "dec_digits (Suc k) n = dec_digits k (n div 10) @ [digit_char n]"

text \<open>\<open>fmt.Sprintf("%020d", n)\<close> of a \<open>uint64\<close>, which has at most twenty digits.\<close>

definition pad20 :: "int \<Rightarrow> string" where
  "pad20 n = dec_digits 20 (nat n)"

text \<open>\<open>%d\<close>: the shortest decimal representation, with a sign for a negative number.\<close>

function dec_nat :: "nat \<Rightarrow> string" where
  "dec_nat n = (if n < 10 then [digit_char n] else dec_nat (n div 10) @ [digit_char n])"
  by pat_completeness auto

termination
  by (relation "measure id") auto

declare dec_nat.simps [simp del]

definition fmt_d :: "int \<Rightarrow> string" where
  "fmt_d n = (if n < 0 then CHR ''-'' # dec_nat (nat (- n)) else dec_nat (nat n))"

definition is_digit :: "char \<Rightarrow> bool" where
  "is_digit c \<longleftrightarrow> 48 \<le> (of_char c :: nat) \<and> (of_char c :: nat) \<le> 57"

definition digits_value :: "string \<Rightarrow> nat" where
  "digits_value ds = foldl (\<lambda>n c. 10 * n + (of_char c - 48)) 0 ds"

text \<open>
  \<open>strconv.ParseInt(s, 10, bits)\<close>: an optional sign and at least one digit; a value that
  does not fit is a range error.
\<close>

definition ParseInt :: "nat \<Rightarrow> string \<Rightarrow> goerr + int" where
  "ParseInt bits s =
     (let neg = (s \<noteq> [] \<and> hd s = CHR ''-'');
          ds = (if s \<noteq> [] \<and> (hd s = CHR ''-'' \<or> hd s = CHR ''+'') then tl s else s);
          n = int (digits_value ds)
      in if ds = [] \<or> \<not> list_all is_digit ds then Inl (Errorf ''strconv.ParseInt: parsing %q: invalid syntax'' [ArgStr s])
         else if (if neg then 2 ^ (bits - 1) < n else 2 ^ (bits - 1) \<le> n)
         then Inl (Errorf ''strconv.ParseInt: parsing %q: value out of range'' [ArgStr s])
         else Inr (if neg then - n else n))"

lemma digit_char_inj: "digit_char m = digit_char n \<longleftrightarrow> m mod 10 = n mod 10"
proof
  assume eq: "digit_char m = digit_char n"
  have code: "of_char (digit_char k) = 48 + k mod 10" for k
  proof -
    have "48 + k mod 10 < 256" using mod_less_divisor [of 10 k] by linarith
    then show ?thesis unfolding digit_char_def by (simp only: of_char_of mod_less)
  qed
  have "48 + m mod 10 = 48 + n mod 10"
    using arg_cong [OF eq, of "of_char :: char \<Rightarrow> nat"] unfolding code .
  then show "m mod 10 = n mod 10" by (rule add_left_imp_eq)
qed (simp add: digit_char_def)

lemma length_dec_digits [simp]: "length (dec_digits k n) = k"
  by (induction k arbitrary: n) simp_all

lemma dec_digits_inj: "dec_digits k m = dec_digits k n \<longleftrightarrow> m mod 10 ^ k = n mod 10 ^ k"
proof (induction k arbitrary: m n)
  case (Suc k)
  have split: "m mod 10 ^ Suc k = 10 * (m div 10 mod 10 ^ k) + m mod 10" for m :: nat
    unfolding power_Suc by (rule mod_mult2_eq)
  have key: "10 * x + a = 10 * y + b \<longleftrightarrow> x = y \<and> a = b" if "a < 10" "b < 10" for x y a b :: nat
  proof
    assume eq: "10 * x + a = 10 * y + b"
    have "a = (10 * x + a) mod 10" "b = (10 * y + b) mod 10" using that by simp_all
    with eq show "x = y \<and> a = b" by simp
  qed simp
  have "m mod 10 ^ Suc k = n mod 10 ^ Suc k \<longleftrightarrow>
      m div 10 mod 10 ^ k = n div 10 mod 10 ^ k \<and> m mod 10 = n mod 10"
    unfolding split by (rule key) simp_all
  then show ?case by (simp only: dec_digits.simps append1_eq_conv Suc digit_char_inj)
qed simp

lemma pad20_inj:
  assumes "0 \<le> m" "m < 2 ^ 64" "0 \<le> n" "n < 2 ^ 64"
  shows "pad20 m = pad20 n \<longleftrightarrow> m = n"
proof -
  have "nat m < 10 ^ 20" "nat n < 10 ^ 20" using assms by (simp_all add: nat_less_iff)
  then show ?thesis using assms by (simp add: pad20_def dec_digits_inj) (simp add: nat_eq_iff)
qed

lemma of_char_digit [simp]: "of_char (digit_char k) = 48 + k mod (10 :: nat)"
proof -
  have "48 + k mod 10 < 256" using mod_less_divisor [of 10 k] by linarith
  then show ?thesis unfolding digit_char_def by (simp only: of_char_of mod_less)
qed

lemma is_digit_char [simp]: "is_digit (digit_char k)"
  using mod_less_divisor [of 10 k] by (simp add: is_digit_def)

lemma dec_nat_digits: "dec_nat n \<noteq> []" "list_all is_digit (dec_nat n)"
proof -
  show "dec_nat n \<noteq> []" by (simp add: dec_nat.simps [of n])
  show "list_all is_digit (dec_nat n)"
  proof (induction n rule: dec_nat.induct)
    case (1 n)
    then show ?case by (cases "n < 10") (simp_all add: dec_nat.simps [of n])
  qed
qed

lemma digits_value_snoc [simp]: "digits_value (ds @ [c]) = 10 * digits_value ds + (of_char c - 48)"
  by (simp add: digits_value_def)

lemma digits_value_dec_nat [simp]: "digits_value (dec_nat n) = n"
proof (induction n rule: dec_nat.induct)
  case (1 n)
  show ?case
  proof (cases "n < 10")
    case True
    then show ?thesis by (simp add: dec_nat.simps [of n] digits_value_def)
  next
    case False
    with 1 show ?thesis by (simp add: dec_nat.simps [of n])
  qed
qed

lemma dec_nat_inj [simp]: "dec_nat m = dec_nat n \<longleftrightarrow> m = n"
  by (metis digits_value_dec_nat)

lemma digit_not_sign: "is_digit c \<Longrightarrow> c \<noteq> CHR ''-'' \<and> c \<noteq> CHR ''+''"
  by (auto simp: is_digit_def)

text \<open>A formatted number parses back to itself when it fits.\<close>

lemma ParseInt_dec_nat:
  assumes "int n < 2 ^ (bits - 1)"
  shows "ParseInt bits (dec_nat n) = Inr (int n)"
proof -
  obtain c cs where c: "dec_nat n = c # cs" using dec_nat_digits(1) [of n] by (cases "dec_nat n") auto
  then have "is_digit c" using dec_nat_digits(2) [of n] by simp
  then have "c \<noteq> CHR ''-''" "c \<noteq> CHR ''+''" using digit_not_sign by blast+
  with c assms dec_nat_digits(2) [of n] digits_value_dec_nat [of n] show ?thesis
    by (simp add: ParseInt_def Let_def)
qed

section \<open>Splitting and joining\<close>

primrec split_on :: "char \<Rightarrow> string \<Rightarrow> string list" where
  "split_on c [] = [[]]"
| "split_on c (x # xs) =
     (if x = c then [] # split_on c xs
      else (x # hd (split_on c xs)) # tl (split_on c xs))"

fun join_with :: "char \<Rightarrow> string list \<Rightarrow> string" where
  "join_with c [] = []"
| "join_with c [x] = x"
| "join_with c (x # y # zs) = x @ c # join_with c (y # zs)"

lemma split_on_nonempty [simp]: "split_on c s \<noteq> []"
  by (cases s) simp_all

lemma split_on_free: "c \<notin> set s \<Longrightarrow> split_on c s = [s]"
  by (induction s) auto

lemma split_on_append: "split_on c (s @ c # t) = split_on c s @ split_on c t"
  by (induction s) (auto simp: neq_Nil_conv)

lemma split_on_parts: "x \<in> set (split_on c s) \<Longrightarrow> c \<notin> set x"
proof (induction s arbitrary: x)
  case (Cons y ys)
  then show ?case
    by (cases "split_on c ys") (auto split: if_splits)
qed simp

lemma split_on_join:
  assumes "xs \<noteq> []" and "list_all (\<lambda>x. c \<notin> set x) xs"
  shows "split_on c (join_with c xs) = xs"
  using assms by (induction c xs rule: join_with.induct) (simp_all add: split_on_free split_on_append)

lemma join_with_snoc: "join_with c (xs @ [x]) = (if xs = [] then x else join_with c xs @ c # x)"
  by (induction c xs rule: join_with.induct) simp_all

section \<open>Paths\<close>

text \<open>
  \<open>filepath.Clean\<close> on a slash-separated system: empty and \<open>.\<close> elements are dropped, a
  \<open>..\<close> removes the element before it, and at the root it is dropped.
\<close>

definition clean_step :: "bool \<Rightarrow> string \<Rightarrow> string list \<Rightarrow> string list" where
  "clean_step rooted x acc =
     (if x = [] \<or> x = ''.'' then acc
      else if x = ''..'' then
        (case acc of
           [] \<Rightarrow> if rooted then [] else [''..'']
         | y # ys \<Rightarrow> if y = ''..'' then ''..'' # acc else ys)
      else x # acc)"

definition rooted :: "string \<Rightarrow> bool" where
  "rooted p \<longleftrightarrow> p \<noteq> [] \<and> hd p = CHR ''/''"

definition clean_elems :: "string \<Rightarrow> string list" where
  "clean_elems p = rev (fold (clean_step (rooted p)) (split_on (CHR ''/'') p) [])"

definition path_string :: "bool \<Rightarrow> string list \<Rightarrow> string" where
  "path_string root xs =
     (if root then CHR ''/'' # join_with (CHR ''/'') xs
      else if xs = [] then ''.'' else join_with (CHR ''/'') xs)"

definition filepath_Clean :: "string \<Rightarrow> string" where
  "filepath_Clean p = path_string (rooted p) (clean_elems p)"

definition filepath_Join :: "string list \<Rightarrow> string" where
  "filepath_Join xs =
     (case dropWhile (\<lambda>x. x = []) xs of
        [] \<Rightarrow> []
      | y # ys \<Rightarrow> filepath_Clean (join_with (CHR ''/'') (y # ys)))"

definition filepath_Base :: "string \<Rightarrow> string" where
  "filepath_Base p =
     (if p = [] then ''.''
      else let q = rev (dropWhile (\<lambda>c. c = CHR ''/'') (rev p))
           in if q = [] then ''/'' else last (split_on (CHR ''/'') q))"

text \<open>A plain name is one that a directory entry may have.\<close>

definition plain_name :: "string \<Rightarrow> bool" where
  "plain_name x \<longleftrightarrow> x \<noteq> [] \<and> x \<noteq> ''.'' \<and> x \<noteq> ''..'' \<and> CHR ''/'' \<notin> set x"

definition canonical :: "bool \<Rightarrow> string list \<Rightarrow> bool" where
  "canonical root xs \<longleftrightarrow>
     (\<exists>k ys. xs = replicate k ''..'' @ ys \<and> (root \<longrightarrow> k = 0) \<and> list_all plain_name ys)"

lemma clean_step_canonical:
  assumes "canonical root (rev acc)" and "CHR ''/'' \<notin> set x"
  shows "canonical root (rev (clean_step root x acc))"
proof -
  obtain k ys where acc: "rev acc = replicate k ''..'' @ ys" and k: "root \<longrightarrow> k = 0" and ys: "list_all plain_name ys"
    using assms(1) unfolding canonical_def by blast
  then have acc': "acc = rev ys @ replicate k ''..''" by (metis rev_append rev_replicate rev_rev_ident)
  consider "x = [] \<or> x = ''.''" | "x = ''..''" | "plain_name x"
    using assms(2) by (auto simp: plain_name_def)
  then show ?thesis
  proof cases
    case 1
    then show ?thesis using assms(1) by (simp add: clean_step_def)
  next
    case 3
    then have "clean_step root x acc = x # acc" by (simp add: clean_step_def plain_name_def)
    then show ?thesis unfolding canonical_def using acc k ys 3
      by (intro exI [of _ k] exI [of _ "ys @ [x]"]) simp
  next
    case 2
    show ?thesis
    proof (cases ys rule: rev_cases)
      case Nil
      with 2 acc' k show ?thesis
        unfolding canonical_def clean_step_def
        by (cases k) (auto simp: replicate_append_same intro!: exI [of _ "Suc k"] exI [of _ "[]"])
    next
      case (snoc zs z)
      then have "clean_step root x acc = rev zs @ replicate k ''..''"
        using 2 acc' ys by (simp add: clean_step_def plain_name_def)
      then show ?thesis unfolding canonical_def using k ys snoc
        by (intro exI [of _ k] exI [of _ zs]) simp
    qed
  qed
qed

lemma canonical_fold:
  assumes "canonical root (rev acc)" and "\<forall>x \<in> set xs. CHR ''/'' \<notin> set x"
  shows "canonical root (rev (fold (clean_step root) xs acc))"
  using assms by (induction xs arbitrary: acc) (simp_all add: clean_step_canonical)

lemma canonical_clean_elems: "canonical (rooted p) (clean_elems p)"
  unfolding clean_elems_def
  by (rule canonical_fold) (auto simp: canonical_def dest: split_on_parts)

lemma fold_clean_canonical:
  assumes "canonical root xs"
  shows "fold (clean_step root) xs [] = rev xs"
proof -
  obtain k ys where xs: "xs = replicate k ''..'' @ ys" "root \<longrightarrow> k = 0" "list_all plain_name ys"
    using assms unfolding canonical_def by blast
  have dots: "fold (clean_step root) (replicate k ''..'') [] = replicate k ''..''"
  proof (cases root)
    case False
    have "fold (clean_step root) (replicate k ''..'') (replicate m ''..'') = replicate (k + m) ''..''" for m
    proof (induction k arbitrary: m)
      case (Suc k)
      have "clean_step root ''..'' (replicate m ''..'') = replicate (Suc m) ''..''"
        using False by (cases m) (simp_all add: clean_step_def)
      then show ?case using Suc [of "Suc m"] by simp
    qed simp
    from this [of 0] show ?thesis by simp
  qed (use xs in simp)
  have "fold (clean_step root) ys acc = rev ys @ acc" for acc
    using xs(3) by (induction ys arbitrary: acc) (simp_all add: clean_step_def plain_name_def)
  with dots show ?thesis by (simp add: xs(1))
qed

lemma canonical_parts:
  assumes "canonical root xs"
  shows "list_all (\<lambda>x. CHR ''/'' \<notin> set x \<and> x \<noteq> []) xs"
proof -
  obtain k ys where xs: "xs = replicate k ''..'' @ ys" "list_all plain_name ys"
    using assms unfolding canonical_def by blast
  have "list_all (\<lambda>x. CHR ''/'' \<notin> set x \<and> x \<noteq> []) ys"
    using xs(2) by (induction ys) (simp_all add: plain_name_def)
  moreover have "list_all (\<lambda>x. CHR ''/'' \<notin> set x \<and> x \<noteq> []) (replicate k ''..'')"
    by (induction k) simp_all
  ultimately show ?thesis by (simp add: xs(1))
qed

lemma hd_join:
  assumes "xs \<noteq> []" and "list_all (\<lambda>x. CHR ''/'' \<notin> set x \<and> x \<noteq> []) xs"
  shows "join_with (CHR ''/'') xs \<noteq> [] \<and> hd (join_with (CHR ''/'') xs) \<noteq> CHR ''/''"
proof -
  obtain x ys where xs: "xs = x # ys" using assms(1) by (cases xs) auto
  obtain r where "join_with (CHR ''/'') (x # ys) = x @ r" by (cases ys) auto
  moreover have x: "x \<noteq> []" "CHR ''/'' \<notin> set x" using assms(2) xs by simp_all
  moreover have "hd x \<noteq> CHR ''/''" using x by (metis hd_in_set)
  ultimately show ?thesis unfolding xs by simp
qed

text \<open>The elements and the root of a printed canonical path are those it was printed from.\<close>

lemma path_string_parts:
  assumes "canonical root xs"
  shows "rooted (path_string root xs) = root" "clean_elems (path_string root xs) = xs"
proof -
  note parts = canonical_parts [OF assms]
  have free: "list_all (\<lambda>x. CHR ''/'' \<notin> set x) xs" using parts by (auto simp: list_all_iff)
  show r: "rooted (path_string root xs) = root"
    using hd_join [OF _ parts] by (auto simp: rooted_def path_string_def)
  have "fold (clean_step root) (split_on (CHR ''/'') (path_string root xs)) [] = rev xs"
  proof (cases "xs = []")
    case True
    then show ?thesis by (simp add: path_string_def clean_step_def)
  next
    case False
    then have "split_on (CHR ''/'') (join_with (CHR ''/'') xs) = xs" using free by (rule split_on_join)
    with False show ?thesis
      using fold_clean_canonical [OF assms] by (cases root) (simp_all add: path_string_def clean_step_def)
  qed
  then show "clean_elems (path_string root xs) = xs" by (simp add: clean_elems_def r)
qed

lemma filepath_Clean_idem [simp]: "filepath_Clean (filepath_Clean p) = filepath_Clean p"
  by (simp add: filepath_Clean_def path_string_parts canonical_clean_elems)

lemma path_string_inj:
  assumes "canonical r xs" "canonical r' ys" "path_string r xs = path_string r' ys"
  shows "r = r' \<and> xs = ys"
  using path_string_parts [OF assms(1)] path_string_parts [OF assms(2)] assms(3) by metis

section \<open>Entries of a directory\<close>

lemma clean_elems_entry:
  assumes "dir \<noteq> []" and "plain_name x"
  shows "rooted (dir @ CHR ''/'' # x) = rooted dir" "clean_elems (dir @ CHR ''/'' # x) = clean_elems dir @ [x]"
proof -
  show r: "rooted (dir @ CHR ''/'' # x) = rooted dir" using assms(1) by (simp add: rooted_def)
  have "clean_step root x acc = x # acc" for root acc
    using assms(2) by (simp add: clean_step_def plain_name_def)
  then show "clean_elems (dir @ CHR ''/'' # x) = clean_elems dir @ [x]"
    using assms(2) by (simp add: clean_elems_def r split_on_append split_on_free plain_name_def)
qed

lemma canonical_snoc:
  assumes "canonical root xs" and "plain_name x"
  shows "canonical root (xs @ [x])"
proof -
  obtain k ys where "xs = replicate k ''..'' @ ys" "root \<longrightarrow> k = 0" "list_all plain_name ys"
    using assms(1) unfolding canonical_def by blast
  then have "xs @ [x] = replicate k ''..'' @ (ys @ [x]) \<and> (root \<longrightarrow> k = 0) \<and> list_all plain_name (ys @ [x])"
    using assms(2) by simp
  then show ?thesis unfolding canonical_def by blast
qed

lemma Join_entry:
  assumes "dir \<noteq> []" and "plain_name x"
  shows "filepath_Join [dir, x] = path_string (rooted dir) (clean_elems dir @ [x])"
  using assms clean_elems_entry [OF assms] by (simp add: filepath_Join_def filepath_Clean_def plain_name_def)

lemma Clean_Join_entry [simp]:
  assumes "dir \<noteq> []" and "plain_name x"
  shows "filepath_Clean (filepath_Join [dir, x]) = filepath_Join [dir, x]"
  using assms by (simp add: filepath_Join_def plain_name_def)

text \<open>Different entries of a directory have different paths, and the base name is the entry.\<close>

lemma Join_entry_inj:
  assumes "dir \<noteq> []" "plain_name x" "plain_name y"
  shows "filepath_Join [dir, x] = filepath_Join [dir, y] \<longleftrightarrow> x = y"
proof -
  have "canonical (rooted dir) (clean_elems dir @ [x])" "canonical (rooted dir) (clean_elems dir @ [y])"
    using assms(2,3) canonical_snoc canonical_clean_elems by blast+
  from path_string_inj [OF this] show ?thesis using assms by (auto simp: Join_entry)
qed

lemma Base_append:
  assumes "plain_name x" and "y = [] \<or> y = z @ ''/''"
  shows "filepath_Base (y @ x) = x"
proof -
  obtain xs c where x: "x = xs @ [c]" using assms(1) by (cases x rule: rev_cases) (auto simp: plain_name_def)
  then have "c \<noteq> CHR ''/''" using assms(1) by (auto simp: plain_name_def)
  then have "dropWhile (\<lambda>c. c = CHR ''/'') (rev (y @ x)) = rev (y @ x)" by (simp add: x)
  moreover have "last (split_on (CHR ''/'') (y @ x)) = x"
  proof -
    have free: "CHR ''/'' \<notin> set x" using assms(1) by (simp add: plain_name_def)
    from assms(2) show ?thesis
    proof
      assume "y = z @ ''/''"
      then show ?thesis using split_on_append [of "CHR ''/''" z x] split_on_free [OF free] by simp
    qed (use split_on_free [OF free] in simp)
  qed
  ultimately show ?thesis by (simp add: filepath_Base_def Let_def x)
qed

lemma Base_Join_entry:
  assumes "dir \<noteq> []" and "plain_name x"
  shows "filepath_Base (filepath_Join [dir, x]) = x"
proof (cases "clean_elems dir = []")
  case True
  then have "filepath_Join [dir, x] = (if rooted dir then ''/'' else []) @ x"
    using assms by (simp add: Join_entry path_string_def)
  then show ?thesis using Base_append [OF assms(2), of "[]"] Base_append [OF assms(2), of "''/''" "[]"] by simp
next
  case False
  let ?z = "(if rooted dir then ''/'' else []) @ join_with (CHR ''/'') (clean_elems dir)"
  from False have "filepath_Join [dir, x] = (?z @ ''/'') @ x"
    using assms by (simp add: Join_entry path_string_def join_with_snoc)
  then show ?thesis using Base_append [OF assms(2), of "?z @ ''/''" ?z] by metis
qed

end
