(* ===== verification/Metrics.thy ===== *)
theory Metrics
  imports Go_Strings
begin

text \<open>
  \<open>internal/metrics/metrics.go\<close>.  The counters and the histogram are objects of the
  Prometheus client library, which is not part of this repository: the record
  \<open>prometheus\<close> holds the two operations the program uses, a counter and a histogram being
  any state they work on.  Both may panic, as the library documents for a negative increment
  and for a label value that is not valid UTF-8; \<open>prom_accepts\<close> says that they do not panic
  for a topic.  The HTTP endpoint that exports the metrics is not modelled.
\<close>

record ('c, 'h) prometheus =
  counter_Add :: "string \<Rightarrow> int \<Rightarrow> 'c \<Rightarrow> 'c result"
  histogram_Observe :: "string \<Rightarrow> int \<Rightarrow> 'h \<Rightarrow> 'h result"

record ('c, 'h) metrics =
  me_MessagesProducedTotal :: 'c
  me_MessagesFetchedTotal :: 'c
  me_DiskWriteLatency :: 'h

text \<open>Times are in nanoseconds; \<open>now\<close> is the clock when the method runs.\<close>

definition ObserveDiskWrite ::
    "('c, 'h) prometheus \<Rightarrow> string \<Rightarrow> int \<Rightarrow> int \<Rightarrow> ('c, 'h) metrics \<Rightarrow> ('c, 'h) metrics result" where
  "ObserveDiskWrite pr topic start now m =
     (case histogram_Observe pr topic (now - start) (me_DiskWriteLatency m) of
        Inl f \<Rightarrow> Inl f
      | Inr h \<Rightarrow> Inr (m\<lparr>me_DiskWriteLatency := h\<rparr>))"

definition add_produced ::
    "('c, 'h) prometheus \<Rightarrow> string \<Rightarrow> int \<Rightarrow> ('c, 'h) metrics \<Rightarrow> ('c, 'h) metrics result" where
  "add_produced pr topic v m =
     (case counter_Add pr topic v (me_MessagesProducedTotal m) of
        Inl f \<Rightarrow> Inl f
      | Inr c \<Rightarrow> Inr (m\<lparr>me_MessagesProducedTotal := c\<rparr>))"

definition inc_fetched ::
    "('c, 'h) prometheus \<Rightarrow> string \<Rightarrow> ('c, 'h) metrics \<Rightarrow> ('c, 'h) metrics result" where
  "inc_fetched pr topic m =
     (case counter_Add pr topic 1 (me_MessagesFetchedTotal m) of
        Inl f \<Rightarrow> Inl f
      | Inr c \<Rightarrow> Inr (m\<lparr>me_MessagesFetchedTotal := c\<rparr>))"

definition MetricsAddr :: "int \<Rightarrow> string" where
  "MetricsAddr brokerPort = ''0.0.0.0:'' @ fmt_d (brokerPort + 1)"

definition prom_accepts :: "('c, 'h) prometheus \<Rightarrow> string \<Rightarrow> bool" where
  "prom_accepts pr topic \<longleftrightarrow>
     (\<forall>v c. 0 \<le> v \<longrightarrow> (\<exists>c'. counter_Add pr topic v c = Inr c')) \<and>
     (\<forall>v h. 0 \<le> v \<longrightarrow> (\<exists>h'. histogram_Observe pr topic v h = Inr h'))"

lemma prom_accepts_ok:
  assumes "prom_accepts pr topic"
  shows "start \<le> now \<Longrightarrow> \<exists>m'. ObserveDiskWrite pr topic start now m = Inr m'"
    "0 \<le> v \<Longrightarrow> \<exists>m'. add_produced pr topic v m = Inr m'"
    "\<exists>m'. inc_fetched pr topic m = Inr m'"
proof -
  show "start \<le> now \<Longrightarrow> \<exists>m'. ObserveDiskWrite pr topic start now m = Inr m'"
    using assms unfolding prom_accepts_def ObserveDiskWrite_def by (metis diff_ge_0_iff_ge sum.simps(6))
  show "0 \<le> v \<Longrightarrow> \<exists>m'. add_produced pr topic v m = Inr m'"
    using assms unfolding prom_accepts_def add_produced_def by (metis sum.simps(6))
  show "\<exists>m'. inc_fetched pr topic m = Inr m'"
    using assms unfolding prom_accepts_def inc_fetched_def by (metis sum.simps(6) zero_le_one)
qed

text \<open>An instance with the documented behaviour: totals per label, no negative increments.\<close>

definition sample_prom :: "((string \<times> int) list, (string \<times> int) list) prometheus" where
  "sample_prom =
     \<lparr>counter_Add = (\<lambda>t v c. if v < 0 then Inl (Panic ''counter cannot decrease in value'') else Inr ((t, v) # c)),
      histogram_Observe = (\<lambda>t v h. Inr ((t, v) # h))\<rparr>"

definition sample_metrics :: "((string \<times> int) list, (string \<times> int) list) metrics" where
  "sample_metrics = \<lparr>me_MessagesProducedTotal = [], me_MessagesFetchedTotal = [], me_DiskWriteLatency = []\<rparr>"

lemma sample_prom_accepts: "prom_accepts sample_prom topic"
  by (auto simp: prom_accepts_def sample_prom_def)

end
