(* ===== verification/Files.thy ===== *)
theory Files
  imports Go_Strings "HOL-Library.AList" "HOL-Library.Sublist"
begin

text \<open>
  What the storage packages use of \<open>os\<close> and \<open>bufio\<close>.

  A disk maps paths (a directory and an entry name) to files, knows which directories
  exist and which paths cannot be opened, how many bytes are free (\<open>None\<close>: enough) and
  the time.  Files are addressed by path: Kage opens every file with
  \<open>O_CREATE|O_RDWR|O_APPEND\<close>, so a write is an append.  A write beyond the free space
  stores a prefix and fails.  \<open>bufio.Writer\<close> is modelled with its buffer, its size and its
  sticky error, following the loop of \<open>Write\<close> and of \<open>Flush\<close>.
\<close>

section \<open>Disk and files\<close>

type_synonym path = "string \<times> string"

text \<open>The file \<open>filepath.Join(dir, name)\<close>, for a name without separator.\<close>

definition file_path :: "string \<Rightarrow> string \<Rightarrow> path" where
  "file_path dir name = (filepath_Clean dir, name)"

record disk_file =
  fl_data :: bytes
  fl_mtime :: int

record disk =
  dk_files :: "(path \<times> disk_file) list"
  dk_dirs :: "string list"
  dk_denied :: "path list"
  dk_free :: "nat option"
  dk_now :: int

definition file_at :: "disk \<Rightarrow> path \<Rightarrow> disk_file option" where
  "file_at d p = map_of (dk_files d) p"

definition put_file :: "path \<Rightarrow> disk_file \<Rightarrow> disk \<Rightarrow> disk" where
  "put_file p f d = d\<lparr>dk_files := AList.update p f (dk_files d)\<rparr>"

definition content :: "disk \<Rightarrow> path \<Rightarrow> bytes" where
  "content d p = (case file_at d p of None \<Rightarrow> [] | Some f \<Rightarrow> fl_data f)"

record osfile =
  of_path :: path
  of_open :: bool

definition os_closed :: goerr where
  "os_closed = os_error ''file already closed''"

definition os_OpenFile :: "path \<Rightarrow> disk \<Rightarrow> (goerr + osfile) \<times> disk" where
  "os_OpenFile p d =
     (if p \<in> set (dk_denied d) then (Inl (os_error ''permission denied''), d)
      else if fst p \<notin> set (dk_dirs d) then (Inl (os_error ''no such file or directory''), d)
      else (Inr \<lparr>of_path = p, of_open = True\<rparr>,
            (case file_at d p of
               None \<Rightarrow> put_file p \<lparr>fl_data = [], fl_mtime = dk_now d\<rparr> d
             | Some _ \<Rightarrow> d)))"

definition os_Write :: "osfile \<Rightarrow> bytes \<Rightarrow> disk \<Rightarrow> nat \<times> goerr option \<times> disk" where
  "os_Write f b d =
     (if \<not> of_open f then (0, Some os_closed, d)
      else case file_at d (of_path f) of
        None \<Rightarrow> (length b, None, d)
      | Some fl \<Rightarrow>
          (let n = (case dk_free d of None \<Rightarrow> length b | Some k \<Rightarrow> min k (length b));
               d' = put_file (of_path f) \<lparr>fl_data = fl_data fl @ take n b, fl_mtime = dk_now d\<rparr> d
           in (n, (if n < length b then Some (os_error ''no space left on device'') else None),
               d'\<lparr>dk_free := map_option (\<lambda>k. k - n) (dk_free d)\<rparr>)))"

definition os_ReadAt :: "osfile \<Rightarrow> nat \<Rightarrow> int \<Rightarrow> disk \<Rightarrow> goerr + bytes" where
  "os_ReadAt f n off d =
     (if \<not> of_open f then Inl os_closed
      else if off < 0 then Inl (os_error ''negative offset'')
      else let data = content d (of_path f)
           in if nat off + n \<le> length data then Inr (take n (drop (nat off) data)) else Inl io_EOF)"

definition os_Sync :: "osfile \<Rightarrow> goerr option" where
  "os_Sync f = (if of_open f then None else Some os_closed)"

definition os_Close :: "osfile \<Rightarrow> goerr option \<times> osfile" where
  "os_Close f = (if of_open f then (None, f\<lparr>of_open := False\<rparr>) else (Some os_closed, f))"

section \<open>Buffered writers\<close>

record bufw =
  bw_buf :: bytes
  bw_size :: nat
  bw_err :: "goerr option"

definition bufio_NewWriterSize :: "nat \<Rightarrow> bufw" where
  "bufio_NewWriterSize n = \<lparr>bw_buf = [], bw_size = n, bw_err = None\<rparr>"

definition bufio_Available :: "bufw \<Rightarrow> nat" where
  "bufio_Available w = bw_size w - length (bw_buf w)"

definition bufio_Flush :: "osfile \<Rightarrow> bufw \<Rightarrow> disk \<Rightarrow> goerr option \<times> bufw \<times> disk" where
  "bufio_Flush f w d =
     (case bw_err w of
        Some e \<Rightarrow> (Some e, w, d)
      | None \<Rightarrow>
          if bw_buf w = [] then (None, w, d)
          else case os_Write f (bw_buf w) d of
            (n, Some e, d') \<Rightarrow> (Some e, w\<lparr>bw_buf := drop n (bw_buf w), bw_err := Some e\<rparr>, d')
          | (n, None, d') \<Rightarrow> (None, w\<lparr>bw_buf := []\<rparr>, d'))"

lemma os_Write_full: "os_Write f b d = (n, None, d') \<Longrightarrow> n = length b"
  by (auto simp: os_Write_def Let_def split: if_splits option.splits)

lemma bufio_Flush_measure:
  assumes "bufio_Flush f w d = (e, w', d')"
  shows "bw_err w' = e" "e = None \<Longrightarrow> bw_buf w' = []" "bw_size w' = bw_size w"
  using assms
  by (auto simp: bufio_Flush_def split: option.splits if_splits prod.splits)

function bufio_Write :: "osfile \<Rightarrow> bytes \<Rightarrow> bufw \<Rightarrow> disk \<Rightarrow> goerr option \<times> bufw \<times> disk" where
  "bufio_Write f p w d =
     (if bufio_Available w < length p \<and> bw_err w = None
      then if bw_buf w = []
           then case os_Write f p d of (n, e, d') \<Rightarrow> bufio_Write f (drop n p) (w\<lparr>bw_err := e\<rparr>) d'
           else let k = bufio_Available w
                in case bufio_Flush f (w\<lparr>bw_buf := bw_buf w @ take k p\<rparr>) d of
                     (e, w', d') \<Rightarrow> bufio_Write f (drop k p) w' d'
      else case bw_err w of
             Some e \<Rightarrow> (Some e, w, d)
           | None \<Rightarrow> (None, w\<lparr>bw_buf := bw_buf w @ p\<rparr>, d))"
  by pat_completeness auto
termination
proof (relation "measure (\<lambda>(f, p, w, d). if bw_err w = None then 2 * length p + (if bw_buf w = [] then 0 else 1) else 0)",
    goal_cases)
  case 1
  then show ?case by simp
next
  case (2 f p w d n y e d')
  then show ?case using os_Write_full [of f p d n d'] by (cases e) auto
next
  case (3 f p w d k e y w' d')
  then show ?case
    using bufio_Flush_measure [of f "w\<lparr>bw_buf := bw_buf w @ take k p\<rparr>" d e w' d'] by auto
qed

declare bufio_Write.simps [simp del]

section \<open>Laws\<close>

lemma file_at_put [simp]: "file_at (put_file p f d) q = (if q = p then Some f else file_at d q)"
  by (simp add: file_at_def put_file_def update_conv')

lemma put_file_fields [simp]:
  "dk_dirs (put_file p f d) = dk_dirs d" "dk_denied (put_file p f d) = dk_denied d"
  "dk_free (put_file p f d) = dk_free d" "dk_now (put_file p f d) = dk_now d"
  by (simp_all add: put_file_def)

lemma file_at_fields [simp]:
  "file_at (d\<lparr>dk_free := k\<rparr>) q = file_at d q" "file_at (d\<lparr>dk_now := t\<rparr>) q = file_at d q"
  by (simp_all add: file_at_def)

lemma content_fields [simp]:
  "content (d\<lparr>dk_free := k\<rparr>) q = content d q" "content (d\<lparr>dk_now := t\<rparr>) q = content d q"
  by (simp_all add: content_def)

lemma content_put [simp]: "content (put_file p f d) q = (if q = p then fl_data f else content d q)"
  by (simp add: content_def)

text \<open>An operation on one file touches no other file and keeps the file in place.\<close>

definition only_file :: "path \<Rightarrow> disk \<Rightarrow> disk \<Rightarrow> bool" where
  "only_file p d d' \<longleftrightarrow>
     (\<forall>q. q \<noteq> p \<longrightarrow> file_at d' q = file_at d q) \<and>
     (file_at d p \<noteq> None \<longrightarrow> file_at d' p \<noteq> None) \<and>
     dk_dirs d' = dk_dirs d \<and> dk_denied d' = dk_denied d \<and> dk_now d' = dk_now d \<and>
     (dk_free d = None \<longrightarrow> dk_free d' = None)"

lemma only_file_refl [simp]: "only_file p d d"
  by (simp add: only_file_def)

lemma only_file_trans: "only_file p d d' \<Longrightarrow> only_file p d' d'' \<Longrightarrow> only_file p d d''"
  by (simp add: only_file_def)

lemma only_file_other: "only_file p d d' \<Longrightarrow> q \<noteq> p \<Longrightarrow> file_at d' q = file_at d q"
  unfolding only_file_def by blast

lemma only_file_content: "only_file p d d' \<Longrightarrow> q \<noteq> p \<Longrightarrow> content d' q = content d q"
  by (simp add: only_file_other content_def)

lemma only_file_fields:
  "only_file p d d' \<Longrightarrow> dk_dirs d' = dk_dirs d" "only_file p d d' \<Longrightarrow> dk_denied d' = dk_denied d"
  "only_file p d d' \<Longrightarrow> dk_now d' = dk_now d"
  "only_file p d d' \<Longrightarrow> dk_free d = None \<Longrightarrow> dk_free d' = None"
  by (simp_all add: only_file_def)

definition backed :: "osfile \<Rightarrow> disk \<Rightarrow> bool" where
  "backed f d \<longleftrightarrow> of_open f \<and> file_at d (of_path f) \<noteq> None"

lemma only_file_backed: "only_file p d d' \<Longrightarrow> backed f d \<Longrightarrow> backed f d'"
  unfolding only_file_def backed_def by metis

lemma os_Write_only: "os_Write f b d = (n, e, d') \<Longrightarrow> only_file (of_path f) d d'"
  by (auto simp: os_Write_def only_file_def Let_def split: if_splits option.splits)

lemma os_Write_content:
  assumes "os_Write f b d = (n, e, d')" and "backed f d"
  shows "content d' (of_path f) = content d (of_path f) @ take n b" "n \<le> length b"
    "e = None \<longleftrightarrow> n = length b" "dk_free d = None \<Longrightarrow> e = None"
  using assms
  by (auto simp: os_Write_def backed_def Let_def content_def split: if_splits option.splits)

definition logical :: "osfile \<Rightarrow> bufw \<Rightarrow> disk \<Rightarrow> bytes" where
  "logical f w d = content d (of_path f) @ bw_buf w"

lemma bufio_Flush_only: "bufio_Flush f w d = (e, w', d') \<Longrightarrow> only_file (of_path f) d d'"
  by (auto simp: bufio_Flush_def split: option.splits if_splits prod.splits dest: os_Write_only)

lemma bufio_Flush_logical:
  assumes "bufio_Flush f w d = (e, w', d')" and "backed f d"
  shows "logical f w' d' = logical f w d" "prefix (content d (of_path f)) (content d' (of_path f))"
    "dk_free d = None \<Longrightarrow> bw_err w = None \<Longrightarrow> e = None"
  using assms os_Write_content [of f "bw_buf w" d]
  by (auto simp: bufio_Flush_def logical_def split: option.splits if_splits prod.splits)

lemma bufio_Flush_done:
  assumes "bufio_Flush f w d = (None, w', d')" and "backed f d"
  shows "content d' (of_path f) = logical f w d"
  using bufio_Flush_logical(1) [OF assms] bufio_Flush_measure(2) [OF assms(1)]
  by (simp add: logical_def)

text \<open>One round of the loop of \<open>Write\<close>, as a case distinction.\<close>

lemma bufio_Write_round:
  assumes "bufio_Write f p w d = (e, w', d')"
  obtains (sticky) x where "bw_err w = Some x" "e = Some x" "w' = w" "d' = d"
  | (fits) "bw_err w = None" "length p \<le> bufio_Available w" "e = None"
      "w' = w\<lparr>bw_buf := bw_buf w @ p\<rparr>" "d' = d"
  | (direct) n x d1 where "bw_err w = None" "bufio_Available w < length p" "bw_buf w = []"
      "os_Write f p d = (n, x, d1)" "bufio_Write f (drop n p) (w\<lparr>bw_err := x\<rparr>) d1 = (e, w', d')"
  | (spill) x w1 d1 where "bw_err w = None" "bufio_Available w < length p" "bw_buf w \<noteq> []"
      "bufio_Flush f (w\<lparr>bw_buf := bw_buf w @ take (bufio_Available w) p\<rparr>) d = (x, w1, d1)"
      "bufio_Write f (drop (bufio_Available w) p) w1 d1 = (e, w', d')"
proof -
  note R = assms [unfolded bufio_Write.simps [of f p w d]]
  show thesis
  proof (cases "bw_err w")
    case (Some x)
    with R show thesis by (intro sticky [of x]) simp_all
  next
    case None
    show thesis
    proof (cases "length p \<le> bufio_Available w")
      case True
      with R None show thesis by (intro fits) simp_all
    next
      case False
      show thesis
      proof (cases "bw_buf w = []")
        case True
        obtain n x d1 where "os_Write f p d = (n, x, d1)" by (rule prod_cases3)
        with True False None R show thesis by (intro direct [of n x d1]) simp_all
      next
        case nonempty: False
        obtain x w1 d1 where
          "bufio_Flush f (w\<lparr>bw_buf := bw_buf w @ take (bufio_Available w) p\<rparr>) d = (x, w1, d1)"
          by (rule prod_cases3)
        with nonempty False None R show thesis by (intro spill [of x w1 d1]) (simp_all add: Let_def)
      qed
    qed
  qed
qed

lemma bufio_Write_only: "bufio_Write f p w d = (e, w', d') \<Longrightarrow> only_file (of_path f) d d'"
proof (induction f p w d rule: bufio_Write.induct)
  case (1 f p w d)
  from "1.prems" show ?case
  proof (cases rule: bufio_Write_round)
    case direct
    with "1.IH"(1) show ?thesis by (auto intro: only_file_trans os_Write_only)
  next
    case spill
    with "1.IH"(2) show ?thesis by (auto intro: only_file_trans bufio_Flush_only)
  qed simp_all
qed

lemma bufio_Write_err:
  "bufio_Write f p w d = (e, w', d') \<Longrightarrow> bw_err w' = e \<and> bw_size w' = bw_size w"
proof (induction f p w d rule: bufio_Write.induct)
  case (1 f p w d)
  from "1.prems" show ?case
  proof (cases rule: bufio_Write_round)
    case direct
    with "1.IH"(1) show ?thesis by auto
  next
    case spill
    with "1.IH"(2) show ?thesis by (auto dest: bufio_Flush_measure(3))
  qed simp_all
qed

lemma bufio_Write_logical:
  assumes "bufio_Write f p w d = (e, w', d')" and "backed f d"
  shows "(e = None \<longrightarrow> logical f w' d' = logical f w d @ p) \<and>
    prefix (content d (of_path f)) (content d' (of_path f)) \<and>
    prefix (content d' (of_path f)) (logical f w d @ p)"
  using assms
proof (induction f p w d rule: bufio_Write.induct)
  case (1 f p w d)
  from "1.prems"(1) show ?case
  proof (cases rule: bufio_Write_round)
    case (direct n x d1)
    note W = os_Write_content [OF direct(4) "1.prems"(2)]
    have "backed f d1" using "1.prems"(2) direct(4) by (blast intro: only_file_backed os_Write_only)
    moreover have "logical f (w\<lparr>bw_err := x\<rparr>) d1 = logical f w d @ take n p"
      using W(1) direct(3) by (simp add: logical_def)
    ultimately show ?thesis
      using "1.IH"(1) direct W(1) by (auto dest: append_prefixD)
  next
    case (spill x w1 d1)
    let ?k = "bufio_Available w" and ?w = "w\<lparr>bw_buf := bw_buf w @ take (bufio_Available w) p\<rparr>"
    note F = bufio_Flush_logical [OF spill(4) "1.prems"(2)]
    have "backed f d1" using "1.prems"(2) spill(4) by (blast intro: only_file_backed bufio_Flush_only)
    moreover have "logical f w1 d1 = logical f w d @ take ?k p"
      using F(1) by (simp add: logical_def)
    ultimately have "(e = None \<longrightarrow> logical f w' d' = logical f w d @ p) \<and>
        prefix (content d1 (of_path f)) (content d' (of_path f)) \<and>
        prefix (content d' (of_path f)) (logical f w d @ p)"
      using "1.IH"(2) spill by simp
    with F(2) show ?thesis by (metis prefix_order.trans)
  qed (simp_all add: logical_def prefix_def)
qed

lemma bufio_Write_healthy:
  assumes "bufio_Write f p w d = (e, w', d')" and "backed f d" and "dk_free d = None" and "bw_err w = None"
  shows "e = None"
  using assms
proof (induction f p w d rule: bufio_Write.induct)
  case (1 f p w d)
  from "1.prems"(1) show ?case
  proof (cases rule: bufio_Write_round)
    case (direct n x d1)
    with "1.prems" have "x = None" by (blast dest: os_Write_content(4))
    moreover have "backed f d1" "dk_free d1 = None"
      using "1.prems" os_Write_only [OF direct(4)] by (auto intro: only_file_backed only_file_fields(4))
    ultimately show ?thesis using "1.IH"(1) direct by auto
  next
    case (spill x w1 d1)
    with "1.prems" have "x = None" using bufio_Flush_logical(3) [OF spill(4)] by simp
    moreover have "backed f d1" "dk_free d1 = None"
      using "1.prems" bufio_Flush_only [OF spill(4)] by (auto intro: only_file_backed only_file_fields(4))
    ultimately show ?thesis using "1.IH"(2) spill bufio_Flush_measure(1) [OF spill(4)] by auto
  qed (use "1.prems" in simp_all)
qed

end
