(* ===== verification/Log_Index.thy ===== *)
theory Log_Index
  imports Files
begin

text \<open>
  \<open>internal/storage/index.go\<close>: the sparse index of a segment.  The state is the
  \<open>Index\<close> struct (file, buffered writer, entries in memory, bytes since the last
  entry); the operations also transform the disk.

  Shown here: the entry format round-trips through the loader, also behind a torn last
  entry; the binary search returns the position of the last entry at or below the target,
  the value of a linear scan; and the invariant that the index file holds exactly the
  entries in memory is kept by every operation and survives closing and reopening.
\<close>

definition IndexIntervalBytes :: int where "IndexIntervalBytes = 4096"
definition indexEntrySize :: nat where "indexEntrySize = 12"
definition indexWriteBufferSize :: nat where "indexWriteBufferSize = 65536"

section \<open>File names\<close>

definition index_path :: "string \<Rightarrow> int \<Rightarrow> path" where
  "index_path dir baseOffset = file_path dir (pad20 baseOffset @ ''.index'')"

section \<open>The index\<close>

record entry =
  en_offset :: "64 word"
  en_position :: "32 word"

record index =
  ix_file :: osfile
  ix_bw :: bufw
  ix_entries :: "entry list"
  ix_since :: int

definition entry_bytes :: "entry \<Rightarrow> bytes" where
  "entry_bytes e = be_put 8 (en_offset e) @ be_put 4 (en_position e)"

definition decode_entry :: "bytes \<Rightarrow> entry" where
  "decode_entry b = \<lparr>en_offset = be_get (take 8 b), en_position = be_get (subslice 8 12 b)\<rparr>"

text \<open>The read loop of \<open>loadEntries\<close>: a last chunk shorter than an entry is dropped.\<close>

function loadEntries :: "bytes \<Rightarrow> entry list" where
  "loadEntries data =
     (if length data < indexEntrySize then []
      else decode_entry (take indexEntrySize data) # loadEntries (drop indexEntrySize data))"
  by pat_completeness auto
termination
  by (relation "measure length") (auto simp: indexEntrySize_def)

declare loadEntries.simps [simp del]

definition openIndex :: "string \<Rightarrow> int \<Rightarrow> disk \<Rightarrow> (goerr + index) \<times> disk" where
  "openIndex dir baseOffset d =
     (case os_OpenFile (index_path dir baseOffset) d of
        (Inl e, d') \<Rightarrow> (Inl (Wrapf ''storage: open index %q: %w'' [ArgStr (filepath_Join [dir, pad20 baseOffset @ ''.index''])] e), d')
      | (Inr f, d') \<Rightarrow>
          (Inr \<lparr>ix_file = f, ix_bw = bufio_NewWriterSize indexWriteBufferSize,
             ix_entries = loadEntries (content d' (of_path f)), ix_since = 0\<rparr>, d'))"

definition maybeAppend ::
    "64 word \<Rightarrow> 32 word \<Rightarrow> int \<Rightarrow> index \<Rightarrow> disk \<Rightarrow> goerr option \<times> index \<times> disk" where
  "maybeAppend logOffset position recordSize idx d =
     (let since = i64 (ix_since idx + recordSize);
          idx1 = idx\<lparr>ix_since := since\<rparr>
      in if since < IndexIntervalBytes then (None, idx1, d)
         else
           let e = \<lparr>en_offset = logOffset, en_position = position\<rparr>
           in case bufio_Write (ix_file idx) (entry_bytes e) (ix_bw idx) d of
                (Some er, bw', d') \<Rightarrow>
                  (Some (Wrapf ''storage: write index entry: %w'' [] er), idx1\<lparr>ix_bw := bw'\<rparr>, d')
              | (None, bw', d') \<Rightarrow>
                  (None, idx1\<lparr>ix_bw := bw', ix_entries := ix_entries idx @ [e], ix_since := 0\<rparr>, d'))"

text \<open>The binary search loop of \<open>Lookup\<close>; \<open>result\<close> is \<open>-1\<close> until an entry qualifies.\<close>

function lookup_loop :: "entry list \<Rightarrow> 64 word \<Rightarrow> int \<Rightarrow> int \<Rightarrow> int \<Rightarrow> int" where
  "lookup_loop es target lo hi result =
     (if lo \<le> hi
      then let mid = (lo + hi) div 2
           in if en_offset (es ! nat mid) \<le> target
              then lookup_loop es target (mid + 1) hi mid
              else lookup_loop es target lo (mid - 1) result
      else result)"
  by pat_completeness auto
termination
  by (relation "measure (\<lambda>(es, target, lo, hi, result). nat (hi - lo + 1))") auto

declare lookup_loop.simps [simp del]

definition Lookup :: "64 word \<Rightarrow> index \<Rightarrow> goerr + 32 word" where
  "Lookup target idx =
     (if length (ix_entries idx) = 0 then Inl ErrOffsetNotFound
      else
        let result = lookup_loop (ix_entries idx) target 0 (int (length (ix_entries idx)) - 1) (- 1)
        in if result = - 1 then Inl ErrOffsetNotFound
           else Inr (en_position (ix_entries idx ! nat result)))"

definition index_Len :: "index \<Rightarrow> nat" where
  "index_Len idx = length (ix_entries idx)"

definition index_Flush :: "index \<Rightarrow> disk \<Rightarrow> goerr option \<times> index \<times> disk" where
  "index_Flush idx d =
     (case bufio_Flush (ix_file idx) (ix_bw idx) d of
        (Some e, bw', d') \<Rightarrow> (Some (Wrapf ''storage: flush index: %w'' [] e), idx\<lparr>ix_bw := bw'\<rparr>, d')
      | (None, bw', d') \<Rightarrow>
          (case os_Sync (ix_file idx) of
             Some e \<Rightarrow> (Some (Wrapf ''storage: fsync index: %w'' [] e), idx\<lparr>ix_bw := bw'\<rparr>, d')
           | None \<Rightarrow> (None, idx\<lparr>ix_bw := bw'\<rparr>, d')))"

definition index_Close :: "index \<Rightarrow> disk \<Rightarrow> goerr option \<times> index \<times> disk" where
  "index_Close idx d =
     (case bufio_Flush (ix_file idx) (ix_bw idx) d of
        (Some e, bw', d') \<Rightarrow> (Some (Wrapf ''storage: flush index on close: %w'' [] e), idx\<lparr>ix_bw := bw'\<rparr>, d')
      | (None, bw', d') \<Rightarrow>
          (case os_Close (ix_file idx) of
             (Some e, f') \<Rightarrow> (Some (Wrapf ''storage: close index file: %w'' [] e), idx\<lparr>ix_bw := bw', ix_file := f'\<rparr>, d')
           | (None, f') \<Rightarrow> (None, idx\<lparr>ix_bw := bw', ix_file := f'\<rparr>, d')))"

section \<open>The entry format\<close>

lemma length_entry_bytes [simp]: "length (entry_bytes e) = 12"
  by (simp add: entry_bytes_def)

lemma decode_entry_bytes [simp]: "decode_entry (entry_bytes e) = e"
  by (simp add: decode_entry_def entry_bytes_def subslice_def be_get_be_put)

lemma loadEntries_append [simp]: "loadEntries (entry_bytes e @ data) = e # loadEntries data"
  by (simp add: loadEntries.simps [of "entry_bytes e @ data"] indexEntrySize_def)

lemma loadEntries_entries:
  "length torn < 12 \<Longrightarrow> loadEntries (concat (map entry_bytes es) @ torn) = es"
  by (induction es) (simp_all add: loadEntries.simps [of torn] indexEntrySize_def)

section \<open>Lookup\<close>

definition sorted_entries :: "entry list \<Rightarrow> bool" where
  "sorted_entries es \<longleftrightarrow> sorted (map en_offset es)"

text \<open>The reference: scan the whole index for the last entry at or below the target.\<close>

definition index_scan :: "64 word \<Rightarrow> entry list \<Rightarrow> goerr + 32 word" where
  "index_scan target es =
     (case filter (\<lambda>e. en_offset e \<le> target) es of
        [] \<Rightarrow> Inl ErrOffsetNotFound
      | x # xs \<Rightarrow> Inr (en_position (last (x # xs))))"

lemma index_scan_snoc:
  "filter (\<lambda>e. en_offset e \<le> target) es = xs @ [x] \<Longrightarrow> index_scan target es = Inr (en_position x)"
  by (cases xs) (auto simp: index_scan_def)

lemma index_scan_Inr:
  assumes "index_scan target es = Inr pos"
  obtains e where "e \<in> set es" "en_offset e \<le> target" "pos = en_position e"
proof -
  let ?xs = "filter (\<lambda>e. en_offset e \<le> target) es"
  have "?xs \<noteq> []" "pos = en_position (last ?xs)"
    using assms by (auto simp: index_scan_def split: list.splits)
  moreover from this have "last ?xs \<in> set ?xs" by (intro last_in_set)
  ultimately show thesis using that [of "last ?xs"] by simp
qed

text \<open>Entry \<open>i\<close> is at or below the target exactly for \<open>i \<le> r\<close>.\<close>

definition splits_at :: "entry list \<Rightarrow> 64 word \<Rightarrow> int \<Rightarrow> bool" where
  "splits_at es target r \<longleftrightarrow>
     - 1 \<le> r \<and> r < int (length es) \<and>
     (\<forall>i < length es. en_offset (es ! i) \<le> target \<longleftrightarrow> int i \<le> r)"

lemma lookup_loop_splits:
  assumes "sorted_entries es" and "0 \<le> lo" and "lo \<le> hi + 1" and "hi < int (length es)" and "result = lo - 1"
    and "\<And>i. i < length es \<Longrightarrow> int i < lo \<Longrightarrow> en_offset (es ! i) \<le> target"
    and "\<And>i. i < length es \<Longrightarrow> hi < int i \<Longrightarrow> \<not> en_offset (es ! i) \<le> target"
  shows "splits_at es target (lookup_loop es target lo hi result)"
  using assms
proof (induction es target lo hi result rule: lookup_loop.induct)
  case (1 es target lo hi result)
  have mono: "en_offset (es ! i) \<le> en_offset (es ! j)" if "i \<le> j" "j < length es" for i j
    using "1.prems"(1) that sorted_nth_mono [of "map en_offset es" i j] by (simp add: sorted_entries_def)
  show ?case
  proof (cases "lo \<le> hi")
    case False
    with "1.prems"(3,5) have "lo = hi + 1" "result = hi" by simp_all
    moreover have "en_offset (es ! i) \<le> target \<longleftrightarrow> int i \<le> hi" if "i < length es" for i
      using "1.prems"(6,7) [OF that] \<open>lo = hi + 1\<close> by (cases "int i \<le> hi") auto
    ultimately have "splits_at es target result"
      using "1.prems"(2,4) by (simp add: splits_at_def)
    with False show ?thesis by (simp add: lookup_loop.simps [of es target lo hi result])
  next
    case True
    define mid where "mid = (lo + hi) div 2"
    have mid: "lo \<le> mid" "mid \<le> hi" "nat mid < length es"
      using True "1.prems"(2,4) by (auto simp: mid_def)
    show ?thesis
    proof (cases "en_offset (es ! nat mid) \<le> target")
      case below: True
      have "en_offset (es ! i) \<le> target" if "i < length es" "int i < mid + 1" for i
        using mono [of i "nat mid"] mid that below by force
      then have "splits_at es target (lookup_loop es target (mid + 1) hi mid)"
        using "1.IH"(1) [OF True mid_def below] "1.prems" mid by auto
      with True below show ?thesis
        by (simp add: lookup_loop.simps [of es target lo hi result] mid_def Let_def)
    next
      case above: False
      have "\<not> en_offset (es ! i) \<le> target" if "i < length es" "mid - 1 < int i" for i
        using mono [of "nat mid" i] mid that above by force
      then have "splits_at es target (lookup_loop es target lo (mid - 1) result)"
        using "1.IH"(2) [OF True mid_def above] "1.prems" mid by auto
      with True above show ?thesis
        by (simp add: lookup_loop.simps [of es target lo hi result] mid_def Let_def)
    qed
  qed
qed

lemma splits_at_filter:
  assumes "splits_at es target r"
  shows "filter (\<lambda>e. en_offset e \<le> target) es = take (nat (r + 1)) es"
proof -
  let ?P = "\<lambda>e. en_offset e \<le> target" and ?n = "nat (r + 1)"
  have "filter ?P es = filter ?P (take ?n es) @ filter ?P (drop ?n es)"
    by (metis append_take_drop_id filter_append)
  moreover have "\<forall>e \<in> set (take ?n es). ?P e"
    using assms by (auto simp: splits_at_def in_set_conv_nth)
  moreover have "\<forall>e \<in> set (drop ?n es). \<not> ?P e"
    using assms by (auto simp: splits_at_def in_set_conv_nth)
  ultimately show ?thesis by (simp add: filter_id_conv filter_empty_conv)
qed

lemma Lookup_scan:
  assumes "sorted_entries (ix_entries idx)"
  shows "Lookup target idx = index_scan target (ix_entries idx)"
proof (cases "ix_entries idx = []")
  case True
  then show ?thesis by (simp add: Lookup_def index_scan_def)
next
  case False
  let ?es = "ix_entries idx"
  let ?r = "lookup_loop ?es target 0 (int (length ?es) - 1) (- 1)"
  have S: "splits_at ?es target ?r"
    using assms by (intro lookup_loop_splits) auto
  note F = splits_at_filter [OF S]
  show ?thesis
  proof (cases "?r = - 1")
    case True
    with F False show ?thesis by (simp add: Lookup_def index_scan_def)
  next
    case r: False
    with S have n: "0 \<le> ?r" "nat ?r < length ?es" by (auto simp: splits_at_def)
    then have "nat (?r + 1) = Suc (nat ?r)" by simp
    with F n have "filter (\<lambda>e. en_offset e \<le> target) ?es = take (nat ?r) ?es @ [?es ! nat ?r]"
      by (simp add: take_Suc_conv_app_nth)
    then have "index_scan target ?es = Inr (en_position (?es ! nat ?r))"
      by (rule index_scan_snoc)
    with r False show ?thesis by (simp add: Lookup_def Let_def)
  qed
qed

text \<open>
  C19: on an index whose offsets are in order, the binary search returns what a linear scan
  returns: the position of the last entry whose offset is at most the target, and
  \<open>ErrOffsetNotFound\<close> when there is none.
\<close>

theorem Lookup_is_scan:
  assumes "sorted_entries (ix_entries idx)"
  shows "Lookup target idx = index_scan target (ix_entries idx)"
  using assms by (rule Lookup_scan)

definition sample_index :: index where
  "sample_index = \<lparr>ix_file = \<lparr>of_path = (''d'', ''i''), of_open = True\<rparr>, ix_bw = bufio_NewWriterSize 64,
     ix_entries = [\<lparr>en_offset = 0, en_position = 0\<rparr>, \<lparr>en_offset = 5000, en_position = 4100\<rparr>,
       \<lparr>en_offset = 9300, en_position = 8200\<rparr>], ix_since = 0\<rparr>"

theorem Lookup_is_scan_witness:
  "Lookup 9000 sample_index = Inr 4100"
  using Lookup_is_scan [of sample_index 9000]
  by (simp add: sample_index_def sorted_entries_def index_scan_def word_le_nat_alt)

section \<open>The index file holds the entries in memory\<close>

definition index_inv :: "index \<Rightarrow> disk \<Rightarrow> bool" where
  "index_inv idx d \<longleftrightarrow>
     backed (ix_file idx) d \<and> bw_err (ix_bw idx) = None \<and>
     logical (ix_file idx) (ix_bw idx) d = concat (map entry_bytes (ix_entries idx)) \<and>
     0 \<le> ix_since idx \<and> ix_since idx < IndexIntervalBytes"

lemma index_inv_only:
  "only_file p d d' \<Longrightarrow> p \<noteq> of_path (ix_file idx) \<Longrightarrow> index_inv idx d \<Longrightarrow> index_inv idx d'"
  by (auto simp: index_inv_def logical_def only_file_content intro: only_file_backed)

lemma openIndex_inv:
  assumes "openIndex dir base d = (Inr idx, d')"
    and "content d (index_path dir base) = concat (map entry_bytes es)"
  shows "index_inv idx d'" "ix_entries idx = es" "of_path (ix_file idx) = index_path dir base"
    "only_file (index_path dir base) d d'" "content d' (index_path dir base) = content d (index_path dir base)"
    "ix_since idx = 0"
  using assms loadEntries_entries [of "[]" es]
  by (auto simp: openIndex_def os_OpenFile_def index_inv_def backed_def logical_def content_def
      bufio_NewWriterSize_def IndexIntervalBytes_def only_file_def split: if_splits option.splits)

lemma maybeAppend_ok:
  assumes "maybeAppend off pos n idx d = (None, idx', d')" and "index_inv idx d" and "0 \<le> n" and "n < 2 ^ 62"
  shows "index_inv idx' d'"
    "ix_entries idx' = ix_entries idx @
       (if ix_since idx + n < IndexIntervalBytes then [] else [\<lparr>en_offset = off, en_position = pos\<rparr>])"
    "ix_file idx' = ix_file idx" "only_file (of_path (ix_file idx)) d d'"
proof -
  have *: "i64 (ix_since idx + n) = ix_since idx + n"
    using assms(2-4) by (intro i64_id) (simp_all add: index_inv_def IndexIntervalBytes_def)
  have W: "only_file (of_path (ix_file idx)) d d1 \<and> bw_err w = None \<and> backed (ix_file idx) d1 \<and>
      logical (ix_file idx) w d1 = logical (ix_file idx) (ix_bw idx) d @ b"
    if "bufio_Write (ix_file idx) b (ix_bw idx) d = (None, w, d1)" for w d1 b
    using assms(2) bufio_Write_only [OF that] bufio_Write_err [OF that] bufio_Write_logical [OF that]
    by (auto simp: index_inv_def intro: only_file_backed)
  show "index_inv idx' d'"
    "ix_entries idx' = ix_entries idx @
       (if ix_since idx + n < IndexIntervalBytes then [] else [\<lparr>en_offset = off, en_position = pos\<rparr>])"
    "ix_file idx' = ix_file idx" "only_file (of_path (ix_file idx)) d d'"
    using assms W
    by (auto simp: maybeAppend_def * Let_def index_inv_def IndexIntervalBytes_def
        split: if_splits prod.splits option.splits)
qed

lemma maybeAppend_healthy:
  assumes "maybeAppend off pos n idx d = (e, idx', d')" and "index_inv idx d" and "dk_free d = None"
  shows "e = None"
  using assms bufio_Write_healthy [of "ix_file idx" _ "ix_bw idx" d]
  by (fastforce simp: maybeAppend_def index_inv_def Let_def split: if_splits prod.splits option.splits)

lemma maybeAppend_only:
  assumes "maybeAppend off pos n idx d = (e, idx', d')"
  shows "only_file (of_path (ix_file idx)) d d'"
  using assms bufio_Write_only [of "ix_file idx" _ "ix_bw idx" d]
  by (fastforce simp: maybeAppend_def Let_def split: if_splits prod.splits option.splits)

lemma index_Flush_ok:
  assumes "index_Flush idx d = (None, idx', d')" and "index_inv idx d"
  shows "index_inv idx' d'" "ix_entries idx' = ix_entries idx" "ix_file idx' = ix_file idx"
    "ix_since idx' = ix_since idx" "only_file (of_path (ix_file idx)) d d'"
    "content d' (of_path (ix_file idx)) = concat (map entry_bytes (ix_entries idx))"
proof -
  obtain w where F: "bufio_Flush (ix_file idx) (ix_bw idx) d = (None, w, d')" and idx': "idx' = idx\<lparr>ix_bw := w\<rparr>"
    using assms(1) by (auto simp: index_Flush_def split: prod.splits option.splits)
  have B: "backed (ix_file idx) d" using assms(2) by (simp add: index_inv_def)
  note FM = bufio_Flush_measure [OF F] and FL = bufio_Flush_logical [OF F B] and FO = bufio_Flush_only [OF F]
  show "only_file (of_path (ix_file idx)) d d'" by (rule FO)
  then have "backed (ix_file idx) d'" using B by (rule only_file_backed)
  then show "index_inv idx' d'" using assms(2) FM FL idx' by (simp add: index_inv_def)
  show "content d' (of_path (ix_file idx)) = concat (map entry_bytes (ix_entries idx))"
    using bufio_Flush_done [OF F B] assms(2) by (simp add: index_inv_def)
  show "ix_entries idx' = ix_entries idx" "ix_file idx' = ix_file idx" "ix_since idx' = ix_since idx"
    using idx' by simp_all
qed

lemma index_Close_ok:
  assumes "index_Close idx d = (None, idx', d')" and "index_inv idx d"
  shows "only_file (of_path (ix_file idx)) d d'"
    "content d' (of_path (ix_file idx)) = concat (map entry_bytes (ix_entries idx))"
proof -
  obtain w where F: "bufio_Flush (ix_file idx) (ix_bw idx) d = (None, w, d')"
    using assms(1) by (auto simp: index_Close_def split: prod.splits option.splits)
  show "only_file (of_path (ix_file idx)) d d'" by (rule bufio_Flush_only [OF F])
  show "content d' (of_path (ix_file idx)) = concat (map entry_bytes (ix_entries idx))"
    using bufio_Flush_done [OF F] assms(2) by (simp add: index_inv_def)
qed

end
