(* ===== verification/Segment.thy ===== *)
theory Segment
  imports Log_Index Codec
begin

text \<open>
  \<open>internal/storage/segment.go\<close>: an append-only, length-prefixed log file with its
  sparse index.  An operation returns its result, the segment and the disk; the mutex of
  the source makes each of them atomic, so they are functions.

  \<open>seg_inv s d ps\<close> says that the segment on the disk holds exactly the records
  \<open>ps\<close>: the bytes in the file followed by the bytes in the write buffer are the framed
  records, the size field is their length, and every index entry points at the start of a
  record.  Every operation is described against this abstract log.
\<close>

definition DefaultMaxSegmentSize :: int where "DefaultMaxSegmentSize = 1073741824"
definition recordHeaderSize :: int where "recordHeaderSize = 4"
definition writeBufferSize :: nat where "writeBufferSize = 262144"

record segment =
  sg_file :: osfile
  sg_bw :: bufw
  sg_idx :: index
  sg_baseOffset :: int
  sg_size :: int
  sg_maxSize :: int

record segment_config =
  sc_MaxSize :: int
  sc_Retention :: int

definition log_path :: "string \<Rightarrow> int \<Rightarrow> path" where
  "log_path dir baseOffset = file_path dir (pad20 baseOffset @ ''.log'')"

definition OpenSegment :: "string \<Rightarrow> int \<Rightarrow> segment_config \<Rightarrow> disk \<Rightarrow> (goerr + segment) \<times> disk" where
  "OpenSegment dir baseOffset cfg d =
     (let maxSize = (if sc_MaxSize cfg \<le> 0 then DefaultMaxSegmentSize else sc_MaxSize cfg)
      in case os_OpenFile (log_path dir baseOffset) d of
           (Inl e, d1) \<Rightarrow> (Inl (Wrapf ''storage: open segment %q: %w'' [ArgStr (filepath_Join [dir, pad20 baseOffset @ ''.log''])] e), d1)
         | (Inr f, d1) \<Rightarrow>
             (case openIndex dir baseOffset d1 of
                (Inl e, d2) \<Rightarrow> (Inl e, d2)
              | (Inr idx, d2) \<Rightarrow>
                  (Inr \<lparr>sg_file = f, sg_bw = bufio_NewWriterSize writeBufferSize, sg_idx = idx,
                     sg_baseOffset = baseOffset, sg_size = int (length (content d1 (of_path f))),
                     sg_maxSize = maxSize\<rparr>, d2)))"

definition segment_Append :: "bytes \<Rightarrow> segment \<Rightarrow> disk \<Rightarrow> (goerr + int) \<times> segment \<times> disk" where
  "segment_Append payload s d =
     (let recordSize = i64 (recordHeaderSize + int (length payload))
      in if sg_maxSize s < i64 (sg_size s + recordSize) then (Inl ErrSegmentFull, s, d)
         else
           let offset = u64 (sg_size s);
               hdr = be_put 4 (word_of_nat (length payload) :: 32 word)
           in case bufio_Write (sg_file s) hdr (sg_bw s) d of
                (Some e, bw1, d1) \<Rightarrow>
                  (Inl (Wrapf ''storage: write record header: %w'' [] e), s\<lparr>sg_bw := bw1\<rparr>, d1)
              | (None, bw1, d1) \<Rightarrow>
                  (case bufio_Write (sg_file s) payload bw1 d1 of
                     (Some e, bw2, d2) \<Rightarrow>
                       (Inl (Wrapf ''storage: write record payload: %w'' [] e), s\<lparr>sg_bw := bw2\<rparr>, d2)
                   | (None, bw2, d2) \<Rightarrow>
                       let s2 = s\<lparr>sg_bw := bw2, sg_size := i64 (sg_size s + recordSize)\<rparr>
                       in case maybeAppend (word_of_int offset) (word_of_int (u32 offset)) recordSize (sg_idx s) d2 of
                            (Some e, idx', d3) \<Rightarrow>
                              (Inl (Wrapf ''storage: update index: %w'' [] e), s2\<lparr>sg_idx := idx'\<rparr>, d3)
                          | (None, idx', d3) \<Rightarrow> (Inr offset, s2\<lparr>sg_idx := idx'\<rparr>, d3)))"

definition segment_Flush :: "segment \<Rightarrow> disk \<Rightarrow> goerr option \<times> segment \<times> disk" where
  "segment_Flush s d =
     (case bufio_Flush (sg_file s) (sg_bw s) d of
        (Some e, bw', d1) \<Rightarrow> (Some (Wrapf ''storage: flush segment: %w'' [] e), s\<lparr>sg_bw := bw'\<rparr>, d1)
      | (None, bw', d1) \<Rightarrow>
          (case os_Sync (sg_file s) of
             Some e \<Rightarrow> (Some (Wrapf ''storage: fsync segment: %w'' [] e), s\<lparr>sg_bw := bw'\<rparr>, d1)
           | None \<Rightarrow>
               (case index_Flush (sg_idx s) d1 of
                  (r, idx', d2) \<Rightarrow> (r, s\<lparr>sg_bw := bw', sg_idx := idx'\<rparr>, d2))))"

definition segment_ReadAt :: "int \<Rightarrow> segment \<Rightarrow> disk \<Rightarrow> (goerr + bytes) \<times> segment \<times> disk" where
  "segment_ReadAt offset s d =
     (case bufio_Flush (sg_file s) (sg_bw s) d of
        (Some e, bw', d1) \<Rightarrow> (Inl (Wrapf ''storage: flush before read: %w'' [] e), s\<lparr>sg_bw := bw'\<rparr>, d1)
      | (None, bw', d1) \<Rightarrow>
          (let s1 = s\<lparr>sg_bw := bw'\<rparr>
           in case os_ReadAt (sg_file s) 4 (i64 offset) d1 of
                Inl e \<Rightarrow> (Inl (Wrapf ''storage: read record header at %d: %w'' [ArgInt offset] e), s1, d1)
              | Inr hdr \<Rightarrow>
                  let len = unat (be_get hdr :: 32 word)
                  in if len = 0 then (Inr [], s1, d1)
                     else case os_ReadAt (sg_file s) len (i64 (i64 offset + recordHeaderSize)) d1 of
                            Inl e \<Rightarrow> (Inl (Wrapf ''storage: read record payload at %d: %w'' [ArgInt offset] e), s1, d1)
                          | Inr payload \<Rightarrow> (Inr payload, s1, d1)))"

text \<open>
  \<open>io.NewSectionReader\<close> over the log file: the bytes of the window that the file has,
  then \<open>io.EOF\<close>.  The log only grows, so the window can be read at once.
\<close>

definition section_reader :: "osfile \<Rightarrow> int \<Rightarrow> int \<Rightarrow> disk \<Rightarrow> go_reader" where
  "section_reader f off n d =
     (if \<not> of_open f then \<lparr>rd_data = [], rd_err = os_closed\<rparr>
      else if off < 0 then \<lparr>rd_data = [], rd_err = os_error ''negative offset''\<rparr>
      else \<lparr>rd_data = take (nat n) (drop (nat off) (content d (of_path f))), rd_err = io_EOF\<rparr>)"

definition segment_Read :: "int \<Rightarrow> int \<Rightarrow> segment \<Rightarrow> disk \<Rightarrow> (goerr + go_reader) \<times> segment \<times> disk" where
  "segment_Read offset n s d =
     (if n \<le> 0 then (Inl ErrInvalidSize, s, d)
      else if sg_size s \<le> i64 offset then (Inl ErrInvalidOffset, s, d)
      else if sg_size s < i64 (i64 offset + n) then (Inl ErrInvalidSize, s, d)
      else case bufio_Flush (sg_file s) (sg_bw s) d of
             (Some e, bw', d1) \<Rightarrow> (Inl (Wrapf ''storage: flush before read: %w'' [] e), s\<lparr>sg_bw := bw'\<rparr>, d1)
           | (None, bw', d1) \<Rightarrow> (Inr (section_reader (sg_file s) (i64 offset) n d1), s\<lparr>sg_bw := bw'\<rparr>, d1))"

definition segment_Close :: "segment \<Rightarrow> disk \<Rightarrow> goerr option \<times> segment \<times> disk" where
  "segment_Close s d =
     (case bufio_Flush (sg_file s) (sg_bw s) d of
        (Some e, bw', d1) \<Rightarrow> (Some (Wrapf ''storage: flush on close: %w'' [] e), s\<lparr>sg_bw := bw'\<rparr>, d1)
      | (None, bw', d1) \<Rightarrow>
          (case os_Close (sg_file s) of
             (Some e, f') \<Rightarrow>
               (Some (Wrapf ''storage: close segment file: %w'' [] e), s\<lparr>sg_bw := bw', sg_file := f'\<rparr>, d1)
           | (None, f') \<Rightarrow>
               (case index_Close (sg_idx s) d1 of
                  (r, idx', d2) \<Rightarrow> (r, s\<lparr>sg_bw := bw', sg_file := f', sg_idx := idx'\<rparr>, d2))))"

section \<open>The abstract log\<close>

definition rec_bytes :: "bytes \<Rightarrow> bytes" where
  "rec_bytes p = be_put 4 (word_of_nat (length p) :: 32 word) @ p"

definition log_bytes :: "bytes list \<Rightarrow> bytes" where
  "log_bytes ps = concat (map rec_bytes ps)"

definition rec_offset :: "bytes list \<Rightarrow> nat \<Rightarrow> nat" where
  "rec_offset ps i = length (log_bytes (take i ps))"

definition entries_ok :: "bytes list \<Rightarrow> entry list \<Rightarrow> bool" where
  "entries_ok ps es \<longleftrightarrow>
     sorted_entries es \<and>
     (\<forall>e \<in> set es. \<exists>i < length ps.
        en_offset e = word_of_nat (rec_offset ps i) \<and> en_position e = word_of_nat (rec_offset ps i))"

definition seg_inv :: "segment \<Rightarrow> disk \<Rightarrow> bytes list \<Rightarrow> bool" where
  "seg_inv s d ps \<longleftrightarrow>
     backed (sg_file s) d \<and> bw_err (sg_bw s) = None \<and>
     of_path (sg_file s) \<noteq> of_path (ix_file (sg_idx s)) \<and>
     logical (sg_file s) (sg_bw s) d = log_bytes ps \<and>
     sg_size s = int (length (log_bytes ps)) \<and> sg_size s < 2 ^ 62 \<and> sg_maxSize s < 2 ^ 62 \<and>
     list_all (\<lambda>p. length p < 2 ^ 32) ps \<and>
     index_inv (sg_idx s) d \<and> entries_ok ps (ix_entries (sg_idx s))"

lemma length_rec_bytes [simp]: "length (rec_bytes p) = 4 + length p"
  by (simp add: rec_bytes_def)

lemma log_bytes_simps [simp]:
  "log_bytes [] = []" "log_bytes (p # ps) = rec_bytes p @ log_bytes ps"
  "log_bytes (ps @ qs) = log_bytes ps @ log_bytes qs"
  by (simp_all add: log_bytes_def)

lemma rec_offset_append: "i \<le> length ps \<Longrightarrow> rec_offset (ps @ qs) i = rec_offset ps i"
  by (simp add: rec_offset_def)

lemma rec_offset_bound:
  assumes "i < length ps"
  shows "rec_offset ps i + 4 + length (ps ! i) \<le> length (log_bytes ps)"
    "drop (rec_offset ps i) (log_bytes ps) = rec_bytes (ps ! i) @ log_bytes (drop (Suc i) ps)"
proof -
  have "ps = take i ps @ ps ! i # drop (Suc i) ps"
    using assms by (rule id_take_nth_drop)
  then have "log_bytes ps = log_bytes (take i ps) @ rec_bytes (ps ! i) @ log_bytes (drop (Suc i) ps)"
    by (metis log_bytes_simps(2,3))
  then show "rec_offset ps i + 4 + length (ps ! i) \<le> length (log_bytes ps)"
    "drop (rec_offset ps i) (log_bytes ps) = rec_bytes (ps ! i) @ log_bytes (drop (Suc i) ps)"
    by (simp_all add: rec_offset_def)
qed

section \<open>Flushing\<close>

lemma seg_flush:
  assumes "bufio_Flush (sg_file s) (sg_bw s) d = (None, w, d')" and "seg_inv s d ps"
  shows "seg_inv (s\<lparr>sg_bw := w\<rparr>) d' ps" "content d' (of_path (sg_file s)) = log_bytes ps"
    "only_file (of_path (sg_file s)) d d'"
proof -
  have B: "backed (sg_file s) d" using assms(2) by (simp add: seg_inv_def)
  show O: "only_file (of_path (sg_file s)) d d'" by (rule bufio_Flush_only [OF assms(1)])
  show "content d' (of_path (sg_file s)) = log_bytes ps"
    using bufio_Flush_done [OF assms(1) B] assms(2) by (simp add: seg_inv_def)
  have "index_inv (sg_idx s) d'"
    using O assms(2) by (auto simp: seg_inv_def intro: index_inv_only)
  then show "seg_inv (s\<lparr>sg_bw := w\<rparr>) d' ps"
    using assms(2) bufio_Flush_logical(1) [OF assms(1) B] bufio_Flush_measure(1) [OF assms(1)]
      only_file_backed [OF O B]
    by (simp add: seg_inv_def)
qed

lemma seg_flush_healthy:
  assumes "seg_inv s d ps" and "dk_free d = None"
  shows "\<exists>w d'. bufio_Flush (sg_file s) (sg_bw s) d = (None, w, d')"
  using assms bufio_Flush_logical(3) [of "sg_file s" "sg_bw s" d]
  by (cases "bufio_Flush (sg_file s) (sg_bw s) d") (auto simp: seg_inv_def)

section \<open>Appending\<close>

lemma rec_offset_less:
  assumes "i < length ps"
  shows "rec_offset ps i < length (log_bytes ps)"
  using rec_offset_bound(1) [OF assms] by simp

lemma entries_ok_more:
  assumes "entries_ok ps es"
  shows "entries_ok (ps @ [p]) es"
  unfolding entries_ok_def
proof (intro conjI ballI)
  show "sorted_entries es" using assms by (simp add: entries_ok_def)
  fix e assume "e \<in> set es"
  then obtain i where i: "i < length ps" "en_offset e = word_of_nat (rec_offset ps i)"
    "en_position e = word_of_nat (rec_offset ps i)"
    using assms unfolding entries_ok_def by blast
  then have "i < length (ps @ [p])" "rec_offset (ps @ [p]) i = rec_offset ps i"
    by (simp_all add: rec_offset_append)
  with i show "\<exists>i < length (ps @ [p]). en_offset e = word_of_nat (rec_offset (ps @ [p]) i) \<and>
      en_position e = word_of_nat (rec_offset (ps @ [p]) i)" by metis
qed

lemma entries_ok_append:
  assumes "entries_ok ps es" and "int (length (log_bytes ps)) < 2 ^ 62"
    and "en_offset e = word_of_nat (length (log_bytes ps))"
    and "en_position e = word_of_nat (length (log_bytes ps))"
  shows "entries_ok (ps @ [p]) (es @ [e])"
  unfolding entries_ok_def
proof (intro conjI ballI)
  have "en_offset x \<le> en_offset e" if x: "x \<in> set es" for x
  proof -
    obtain i where "i < length ps" and eq: "en_offset x = word_of_nat (rec_offset ps i)"
      using assms(1) x unfolding entries_ok_def by blast
    then have le: "rec_offset ps i < length (log_bytes ps)" by (simp add: rec_offset_less)
    have "length (log_bytes ps) < 2 ^ 64" using assms(2) by simp
    with le show ?thesis
      unfolding eq assms(3) by (simp add: word_of_nat_less_eq_iff take_bit_nat_eq_self)
  qed
  then show "sorted_entries (es @ [e])"
    using assms(1) by (simp add: entries_ok_def sorted_entries_def sorted_append)
  fix x assume "x \<in> set (es @ [e])"
  then consider "x \<in> set es" | "x = e" by auto
  then show "\<exists>i < length (ps @ [p]). en_offset x = word_of_nat (rec_offset (ps @ [p]) i) \<and>
      en_position x = word_of_nat (rec_offset (ps @ [p]) i)"
  proof cases
    case 1
    then show ?thesis using entries_ok_more [OF assms(1), of p] unfolding entries_ok_def by blast
  next
    case 2
    have "rec_offset (ps @ [p]) (length ps) = length (log_bytes ps)" by (simp add: rec_offset_def)
    then show ?thesis using 2 assms(3,4) by (intro exI [of _ "length ps"]) simp
  qed
qed

text \<open>
  A successful append writes one framed record behind the log and returns the old size;
  an append that does not fit changes nothing.
\<close>

lemma segment_Append_refuse:
  assumes "0 \<le> sg_size s" "sg_size s < 2 ^ 62" and "length p < 2 ^ 32"
    and "sg_maxSize s < sg_size s + (4 + int (length p))"
  shows "segment_Append p s d = (Inl ErrSegmentFull, s, d)"
proof -
  have "i64 (4 + int (length p)) = 4 + int (length p)"
    "i64 (sg_size s + (4 + int (length p))) = sg_size s + (4 + int (length p))"
    using assms(1-3) by (auto intro!: i64_id)
  then show ?thesis
    using assms(4) by (simp add: segment_Append_def recordHeaderSize_def)
qed

lemma segment_Append_full:
  assumes "seg_inv s d ps" and "length p < 2 ^ 32"
    and "sg_maxSize s < sg_size s + (4 + int (length p))"
  shows "segment_Append p s d = (Inl ErrSegmentFull, s, d)"
  using assms by (intro segment_Append_refuse) (simp_all add: seg_inv_def)

lemma segment_Append_steps:
  assumes "seg_inv s d ps" and "length p < 2 ^ 32" and "sg_size s + (4 + int (length p)) \<le> sg_maxSize s"
    and "bufio_Write (sg_file s) (be_put 4 (word_of_nat (length p) :: 32 word)) (sg_bw s) d = (e1, w1, d1)"
    and "bufio_Write (sg_file s) p w1 d1 = (e2, w2, d2)"
    and "maybeAppend (word_of_int (sg_size s)) (word_of_int (sg_size s)) (4 + int (length p)) (sg_idx s) d2 = (e3, idx', d3)"
  shows "segment_Append p s d =
    (case e1 of
       Some e \<Rightarrow> (Inl (Wrapf ''storage: write record header: %w'' [] e), s\<lparr>sg_bw := w1\<rparr>, d1)
     | None \<Rightarrow>
         (case e2 of
            Some e \<Rightarrow> (Inl (Wrapf ''storage: write record payload: %w'' [] e), s\<lparr>sg_bw := w2\<rparr>, d2)
          | None \<Rightarrow>
              let s' = s\<lparr>sg_bw := w2, sg_size := sg_size s + (4 + int (length p)), sg_idx := idx'\<rparr>
              in (case e3 of
                    Some e \<Rightarrow> (Inl (Wrapf ''storage: update index: %w'' [] e), s', d3)
                  | None \<Rightarrow> (Inr (sg_size s), s', d3))))"
proof -
  have i: "i64 (4 + int (length p)) = 4 + int (length p)"
    "i64 (sg_size s + (4 + int (length p))) = sg_size s + (4 + int (length p))" "u64 (sg_size s) = sg_size s"
    using assms(1,2) by (auto simp: seg_inv_def intro!: i64_id u64_id)
  have u: "(word_of_int (u32 (sg_size s)) :: 32 word) = word_of_int (sg_size s)"
    by (simp add: u32_def word_of_int_eq_iff)
  show ?thesis
    using assms(3)
    unfolding segment_Append_def recordHeaderSize_def Let_def i u assms(4)
    by (cases e1; cases e2; cases e3; simp add: assms(5,6))
qed

text \<open>The files of a segment: everything else on the disk is left alone by its operations.\<close>

definition seg_paths :: "segment \<Rightarrow> path set" where
  "seg_paths s = {of_path (sg_file s), of_path (ix_file (sg_idx s))}"

definition only_files :: "path set \<Rightarrow> disk \<Rightarrow> disk \<Rightarrow> bool" where
  "only_files P d d' \<longleftrightarrow>
     (\<forall>q. q \<notin> P \<longrightarrow> file_at d' q = file_at d q) \<and> (\<forall>q. file_at d q \<noteq> None \<longrightarrow> file_at d' q \<noteq> None) \<and>
     dk_dirs d' = dk_dirs d \<and> dk_denied d' = dk_denied d \<and> dk_now d' = dk_now d \<and>
     (dk_free d = None \<longrightarrow> dk_free d' = None)"

lemma only_files_refl [simp]: "only_files P d d"
  by (simp add: only_files_def)

lemma only_files_trans: "only_files P d d' \<Longrightarrow> only_files P d' d'' \<Longrightarrow> only_files P d d''"
  unfolding only_files_def by metis

lemma only_files_mono: "only_files P d d' \<Longrightarrow> P \<subseteq> Q \<Longrightarrow> only_files Q d d'"
  unfolding only_files_def by blast

lemma only_file_files: "only_file p d d' \<Longrightarrow> p \<in> P \<Longrightarrow> only_files P d d'"
  unfolding only_file_def only_files_def by metis

lemma only_files_content: "only_files P d d' \<Longrightarrow> q \<notin> P \<Longrightarrow> content d' q = content d q"
  unfolding only_files_def content_def by metis

lemma only_files_healthy: "only_files P d d' \<Longrightarrow> dk_free d = None \<Longrightarrow> dk_free d' = None"
  unfolding only_files_def by blast

lemma segment_Append_cases:
  assumes A: "segment_Append p s d = (r, s', d')" and I: "seg_inv s d ps" and L: "length p < 2 ^ 32"
  obtains (full) "sg_maxSize s < sg_size s + (4 + int (length p))" "r = Inl ErrSegmentFull" "s' = s" "d' = d"
  | (run) e1 w1 d1 e2 w2 d2 e3 idx' d3 where
      "sg_size s + (4 + int (length p)) \<le> sg_maxSize s"
      "bufio_Write (sg_file s) (be_put 4 (word_of_nat (length p) :: 32 word)) (sg_bw s) d = (e1, w1, d1)"
      "bufio_Write (sg_file s) p w1 d1 = (e2, w2, d2)"
      "maybeAppend (word_of_int (sg_size s)) (word_of_int (sg_size s)) (4 + int (length p)) (sg_idx s) d2 = (e3, idx', d3)"
      "segment_Append p s d =
        (case e1 of
           Some e \<Rightarrow> (Inl (Wrapf ''storage: write record header: %w'' [] e), s\<lparr>sg_bw := w1\<rparr>, d1)
         | None \<Rightarrow>
             (case e2 of
                Some e \<Rightarrow> (Inl (Wrapf ''storage: write record payload: %w'' [] e), s\<lparr>sg_bw := w2\<rparr>, d2)
              | None \<Rightarrow>
                  let s' = s\<lparr>sg_bw := w2, sg_size := sg_size s + (4 + int (length p)), sg_idx := idx'\<rparr>
                  in (case e3 of
                        Some e \<Rightarrow> (Inl (Wrapf ''storage: update index: %w'' [] e), s', d3)
                      | None \<Rightarrow> (Inr (sg_size s), s', d3))))"
proof (cases "sg_maxSize s < sg_size s + (4 + int (length p))")
  case True
  then show thesis using full A segment_Append_full [OF I L] by simp
next
  case False
  then have fits: "sg_size s + (4 + int (length p)) \<le> sg_maxSize s" by simp
  obtain e1 w1 d1 where W1:
    "bufio_Write (sg_file s) (be_put 4 (word_of_nat (length p) :: 32 word)) (sg_bw s) d = (e1, w1, d1)"
    by (rule prod_cases3)
  obtain e2 w2 d2 where W2: "bufio_Write (sg_file s) p w1 d1 = (e2, w2, d2)"
    by (rule prod_cases3)
  obtain e3 idx' d3 where M:
    "maybeAppend (word_of_int (sg_size s)) (word_of_int (sg_size s)) (4 + int (length p)) (sg_idx s) d2 = (e3, idx', d3)"
    by (rule prod_cases3)
  show thesis by (rule run [OF fits W1 W2 M segment_Append_steps [OF I L fits W1 W2 M]])
qed

lemma segment_Append_done:
  assumes A: "segment_Append p s d = (Inr off, s', d')" and I: "seg_inv s d ps" and L: "length p < 2 ^ 32"
  obtains w1 d1 w2 d2 idx' where "sg_size s + (4 + int (length p)) \<le> sg_maxSize s"
    "bufio_Write (sg_file s) (be_put 4 (word_of_nat (length p) :: 32 word)) (sg_bw s) d = (None, w1, d1)"
    "bufio_Write (sg_file s) p w1 d1 = (None, w2, d2)"
    "maybeAppend (word_of_int (sg_size s)) (word_of_int (sg_size s)) (4 + int (length p)) (sg_idx s) d2 = (None, idx', d')"
    "s' = s\<lparr>sg_bw := w2, sg_size := sg_size s + (4 + int (length p)), sg_idx := idx'\<rparr>" "off = sg_size s"
  using A I L
proof (cases rule: segment_Append_cases)
  case (run e1 w1 d1 e2 w2 d2 e3 idx' d3)
  note R = run(5) [unfolded A]
  have "e1 = None" using R by (cases e1) simp_all
  moreover from this have "e2 = None" using R by (cases e2) simp_all
  moreover from this \<open>e1 = None\<close> have "e3 = None" using R by (cases e3) (simp_all add: Let_def)
  ultimately have "s' = s\<lparr>sg_bw := w2, sg_size := sg_size s + (4 + int (length p)), sg_idx := idx'\<rparr>"
    "off = sg_size s" "d' = d3" using R by (simp_all add: Let_def)
  with run \<open>e1 = None\<close> \<open>e2 = None\<close> \<open>e3 = None\<close> show thesis
    by (intro that [of w1 d1 w2 d2 idx']) simp_all
qed simp

lemma segment_Append_ok:
  assumes A: "segment_Append p s d = (Inr off, s', d')" and I: "seg_inv s d ps" and L: "length p < 2 ^ 32"
  shows "seg_inv s' d' (ps @ [p])" "off = sg_size s" "sg_size s + (4 + int (length p)) \<le> sg_maxSize s"
    "sg_maxSize s' = sg_maxSize s" "sg_baseOffset s' = sg_baseOffset s" "seg_paths s' = seg_paths s"
    "only_files (seg_paths s) d d'"
    "of_path (sg_file s') = of_path (sg_file s)" "of_path (ix_file (sg_idx s')) = of_path (ix_file (sg_idx s))"
proof -
  let ?n = "4 + int (length p)" and ?f = "sg_file s" and ?ix = "of_path (ix_file (sg_idx s))"
  from A obtain w1 d1 w2 d2 idx' where fits: "sg_size s + ?n \<le> sg_maxSize s"
    and W1: "bufio_Write ?f (be_put 4 (word_of_nat (length p) :: 32 word)) (sg_bw s) d = (None, w1, d1)"
    and W2: "bufio_Write ?f p w1 d1 = (None, w2, d2)"
    and M: "maybeAppend (word_of_int (sg_size s)) (word_of_int (sg_size s)) ?n (sg_idx s) d2 = (None, idx', d')"
    and s': "s' = s\<lparr>sg_bw := w2, sg_size := sg_size s + ?n, sg_idx := idx'\<rparr>" and off: "off = sg_size s"
    by (rule segment_Append_done [OF _ I L])
  have B: "backed ?f d" and E: "bw_err (sg_bw s) = None" and X: "index_inv (sg_idx s) d"
    and ne: "of_path ?f \<noteq> ?ix" and sz: "sg_size s = int (length (log_bytes ps))"
    and en: "entries_ok ps (ix_entries (sg_idx s))" using I by (simp_all add: seg_inv_def)
  have O1: "only_file (of_path ?f) d d1" and O2: "only_file (of_path ?f) d1 d2"
    using W1 W2 by (blast intro: bufio_Write_only)+
  then have O: "only_file (of_path ?f) d d2" by (rule only_file_trans)
  have B1: "backed ?f d1" using O1 B by (rule only_file_backed)
  have L2: "logical ?f w2 d2 = log_bytes (ps @ [p])"
    using bufio_Write_logical [OF W1 B] bufio_Write_logical [OF W2 B1] I
    by (simp add: seg_inv_def rec_bytes_def)
  have "index_inv (sg_idx s) d2" using O ne X by (rule index_inv_only)
  note M' = maybeAppend_ok [OF M this]
  have n: "0 \<le> ?n" "?n < 2 ^ 62" using L by simp_all
  have "entries_ok (ps @ [p]) (ix_entries idx')"
    unfolding M'(2) [OF n] using en I sz
    by (simp add: entries_ok_append entries_ok_more seg_inv_def)
  moreover have "logical ?f w2 d' = log_bytes (ps @ [p])" "backed ?f d'"
    using M'(4) [OF n] ne L2 only_file_backed [OF O B]
    by (auto simp: logical_def only_file_content intro: only_file_backed)
  ultimately show "seg_inv s' d' (ps @ [p])"
    using I L fits s' M'(1,3) [OF n] bufio_Write_err [OF W2] ne sz
    by (simp add: seg_inv_def)
  show "off = sg_size s" "sg_size s + ?n \<le> sg_maxSize s" "seg_paths s' = seg_paths s"
    "sg_maxSize s' = sg_maxSize s" "sg_baseOffset s' = sg_baseOffset s"
    "of_path (sg_file s') = of_path (sg_file s)" "of_path (ix_file (sg_idx s')) = of_path (ix_file (sg_idx s))"
    using off fits s' M'(3) [OF n] by (simp_all add: seg_paths_def)
  show "only_files (seg_paths s) d d'"
    by (rule only_files_trans [OF only_file_files [OF O] only_file_files [OF M'(4) [OF n]]])
      (simp_all add: seg_paths_def)
qed

text \<open>On a disk with room every append that fits succeeds.\<close>

lemma segment_Append_healthy:
  assumes I: "seg_inv s d ps" and L: "length p < 2 ^ 32" and F: "dk_free d = None"
    and fits: "sg_size s + (4 + int (length p)) \<le> sg_maxSize s"
  shows "\<exists>s' d'. segment_Append p s d = (Inr (sg_size s), s', d')"
proof -
  obtain r s' d' where A: "segment_Append p s d = (r, s', d')" by (rule prod_cases3)
  from A I L show ?thesis
  proof (cases rule: segment_Append_cases)
    case (run e1 w1 d1 e2 w2 d2 e3 idx' d3)
    have B: "backed (sg_file s) d" and E: "bw_err (sg_bw s) = None" and X: "index_inv (sg_idx s) d"
      and ne: "of_path (sg_file s) \<noteq> of_path (ix_file (sg_idx s))" using I by (simp_all add: seg_inv_def)
    have O1: "only_file (of_path (sg_file s)) d d1" and O2: "only_file (of_path (sg_file s)) d1 d2"
      using run(2,3) by (blast intro: bufio_Write_only)+
    have "e1 = None" by (rule bufio_Write_healthy [OF run(2) B F E])
    moreover from this have "e2 = None"
      using bufio_Write_healthy [OF run(3) only_file_backed [OF O1 B] only_file_fields(4) [OF O1 F]]
        bufio_Write_err [OF run(2)] by simp
    moreover have "e3 = None"
      using maybeAppend_healthy [OF run(4) index_inv_only [OF only_file_trans [OF O1 O2] ne X]]
        only_file_fields(4) [OF only_file_trans [OF O1 O2] F] L by simp
    ultimately show ?thesis using run(5) by (simp add: Let_def)
  qed (use fits in simp)
qed

section \<open>Reading\<close>

text \<open>What a reading operation may change: the write buffer of the segment, which it empties.\<close>

lemma seg_inv_bw_files [simp]: "seg_paths (s\<lparr>sg_bw := w\<rparr>) = seg_paths s"
  by (simp add: seg_paths_def)

lemma seg_record_at:
  assumes I: "seg_inv s d ps" and C: "content d (of_path (sg_file s)) = log_bytes ps" and i: "i < length ps"
  shows "os_ReadAt (sg_file s) 4 (int (rec_offset ps i)) d = Inr (be_put 4 (word_of_nat (length (ps ! i)) :: 32 word))"
    "os_ReadAt (sg_file s) (length (ps ! i)) (int (rec_offset ps i) + 4) d = Inr (ps ! i)"
proof -
  have op: "of_open (sg_file s)" using I by (simp add: seg_inv_def backed_def)
  note b = rec_offset_bound [OF i]
  have "drop (rec_offset ps i + 4) (log_bytes ps) = drop 4 (rec_bytes (ps ! i)) @ log_bytes (drop (Suc i) ps)"
    using arg_cong [OF b(2), of "drop 4"] by (simp add: add.commute)
  moreover have "nat (int (rec_offset ps i) + 4) = rec_offset ps i + 4" by simp
  ultimately show "os_ReadAt (sg_file s) (length (ps ! i)) (int (rec_offset ps i) + 4) d = Inr (ps ! i)"
    using op b(1) unfolding os_ReadAt_def C by (simp add: rec_bytes_def Let_def)
  show "os_ReadAt (sg_file s) 4 (int (rec_offset ps i)) d = Inr (be_put 4 (word_of_nat (length (ps ! i)) :: 32 word))"
    using op b unfolding os_ReadAt_def C by (simp add: rec_bytes_def Let_def)
qed

lemma seg_inv_record:
  assumes "seg_inv s d ps" and "i < length ps"
  shows "length (ps ! i) < 2 ^ 32" "int (rec_offset ps i) + 4 < 2 ^ 62"
  using assms rec_offset_bound(1) [OF assms(2)]
  by (auto simp: seg_inv_def list_all_length)

lemma segment_ReadAt_record:
  assumes I: "seg_inv s d ps" and i: "i < length ps"
    and F: "bufio_Flush (sg_file s) (sg_bw s) d = (None, w, d')"
  shows "segment_ReadAt (int (rec_offset ps i)) s d = (Inr (ps ! i), s\<lparr>sg_bw := w\<rparr>, d')"
proof -
  let ?o = "int (rec_offset ps i)"
  note SF = seg_flush [OF F I]
  have R: "os_ReadAt (sg_file s) 4 ?o d' = Inr (be_put 4 (word_of_nat (length (ps ! i)) :: 32 word))"
    "os_ReadAt (sg_file s) (length (ps ! i)) (?o + 4) d' = Inr (ps ! i)"
    using seg_record_at [OF SF(1) _ i] SF(2) by simp_all
  note b = seg_inv_record [OF I i]
  have "i64 ?o = ?o" "i64 (?o + 4) = ?o + 4" using b(2) by (auto intro!: i64_id)
  moreover have "unat (word_of_nat (length (ps ! i)) :: 32 word) = length (ps ! i)"
    using b(1) by (simp add: unat_of_nat take_bit_nat_eq_self)
  ultimately show ?thesis
    using R by (simp add: segment_ReadAt_def F recordHeaderSize_def Let_def be_get_be_put)
qed

lemma segment_Read_window:
  assumes I: "seg_inv s d ps" and F: "bufio_Flush (sg_file s) (sg_bw s) d = (None, w, d')"
    and "0 \<le> off" "0 < n" "off + n \<le> sg_size s"
  shows "segment_Read off n s d =
    (Inr \<lparr>rd_data = take (nat n) (drop (nat off) (log_bytes ps)), rd_err = io_EOF\<rparr>, s\<lparr>sg_bw := w\<rparr>, d')"
proof -
  have "i64 off = off" "i64 (off + n) = off + n"
    using assms by (auto simp: seg_inv_def intro!: i64_id)
  then show ?thesis
    using assms seg_flush(2) [OF F I] by (simp add: segment_Read_def section_reader_def seg_inv_def backed_def)
qed

lemma segment_Read_past_end:
  assumes "seg_inv s d ps" and "0 < n" "sg_size s \<le> off" "off < 2 ^ 63"
  shows "segment_Read off n s d = (Inl ErrInvalidOffset, s, d)"
proof -
  have "i64 off = off" using assms by (auto simp: seg_inv_def intro!: i64_id)
  then show ?thesis using assms by (simp add: segment_Read_def)
qed

text \<open>The sparse index answers with the start of a record at or before the target.\<close>

lemma Lookup_record:
  assumes I: "seg_inv s d ps" and small: "sg_size s < 2 ^ 32" and L: "Lookup target (sg_idx s) = Inr pos"
  shows "\<exists>i < length ps. unat pos = rec_offset ps i \<and> rec_offset ps i \<le> unat target"
proof -
  let ?es = "ix_entries (sg_idx s)"
  have en: "entries_ok ps ?es" and sz: "length (log_bytes ps) < 2 ^ 32"
    using I small by (simp_all add: seg_inv_def)
  have "index_scan target ?es = Inr pos"
    using L Lookup_scan [of "sg_idx s" target] en by (simp add: entries_ok_def)
  then obtain e where e: "e \<in> set ?es" "en_offset e \<le> target" "pos = en_position e"
    by (rule index_scan_Inr)
  then obtain i where i: "i < length ps" "en_offset e = word_of_nat (rec_offset ps i)"
    "en_position e = word_of_nat (rec_offset ps i)"
    using en unfolding entries_ok_def by blast
  have "rec_offset ps i < 2 ^ 32" using rec_offset_less [OF i(1)] sz by simp
  then have "unat (word_of_nat (rec_offset ps i) :: 32 word) = rec_offset ps i"
    "unat (word_of_nat (rec_offset ps i) :: 64 word) = rec_offset ps i"
    by (simp_all add: unat_of_nat take_bit_nat_eq_self)
  then show ?thesis using i e by (metis word_le_nat_alt)
qed

section \<open>Flushing and closing\<close>

lemma index_Flush_healthy:
  assumes "index_inv idx d" and "dk_free d = None"
  shows "\<exists>idx' d'. index_Flush idx d = (None, idx', d')"
proof -
  obtain e w d' where F: "bufio_Flush (ix_file idx) (ix_bw idx) d = (e, w, d')" by (rule prod_cases3)
  then have "e = None" using assms bufio_Flush_logical(3) [OF F] by (simp add: index_inv_def)
  with F assms(1) show ?thesis
    by (simp add: index_Flush_def os_Sync_def index_inv_def backed_def)
qed

lemma index_Close_healthy:
  assumes "index_inv idx d" and "dk_free d = None"
  shows "\<exists>idx' d'. index_Close idx d = (None, idx', d')"
proof -
  obtain e w d' where F: "bufio_Flush (ix_file idx) (ix_bw idx) d = (e, w, d')" by (rule prod_cases3)
  then have "e = None" using assms bufio_Flush_logical(3) [OF F] by (simp add: index_inv_def)
  with F assms(1) show ?thesis
    by (simp add: index_Close_def os_Close_def index_inv_def backed_def)
qed

text \<open>After \<open>Flush\<close> both files hold everything that was appended.\<close>

lemma segment_Flush_durable:
  assumes I: "seg_inv s d ps" and free: "dk_free d = None"
  obtains s' d' where "segment_Flush s d = (None, s', d')" "seg_inv s' d' ps"
    "content d' (of_path (sg_file s)) = log_bytes ps"
    "content d' (of_path (ix_file (sg_idx s))) = concat (map entry_bytes (ix_entries (sg_idx s)))"
    "only_files (seg_paths s) d d'"
proof -
  obtain w d1 where F: "bufio_Flush (sg_file s) (sg_bw s) d = (None, w, d1)"
    using seg_flush_healthy [OF I free] by blast
  note SF = seg_flush [OF F I]
  have I1: "index_inv (sg_idx s) d1" and ne: "of_path (sg_file s) \<noteq> of_path (ix_file (sg_idx s))"
    using SF(1) by (simp_all add: seg_inv_def)
  obtain idx' d2 where X: "index_Flush (sg_idx s) d1 = (None, idx', d2)"
    using index_Flush_healthy [OF I1 only_file_fields(4) [OF SF(3) free]] by blast
  note XF = index_Flush_ok [OF X I1]
  have C: "content d2 (of_path (sg_file s)) = content d1 (of_path (sg_file s))"
    using XF(5) ne by (simp add: only_file_content)
  show thesis
  proof (rule that [of "s\<lparr>sg_bw := w, sg_idx := idx'\<rparr>" d2])
    show "segment_Flush s d = (None, s\<lparr>sg_bw := w, sg_idx := idx'\<rparr>, d2)"
      using F X I by (simp add: segment_Flush_def os_Sync_def seg_inv_def backed_def)
    show "seg_inv (s\<lparr>sg_bw := w, sg_idx := idx'\<rparr>) d2 ps"
      using SF(1) XF(1-3) C only_file_backed [OF XF(5)] by (simp add: seg_inv_def logical_def)
    show "content d2 (of_path (sg_file s)) = log_bytes ps" using C SF(2) by simp
    show "content d2 (of_path (ix_file (sg_idx s))) = concat (map entry_bytes (ix_entries (sg_idx s)))"
      by (rule XF(6))
    show "only_files (seg_paths s) d d2"
      by (rule only_files_trans [OF only_file_files [OF SF(3)] only_file_files [OF XF(5)]])
        (simp_all add: seg_paths_def)
  qed
qed

lemma segment_Close_ok:
  assumes C: "segment_Close s d = (None, s', d')" and I: "seg_inv s d ps"
  shows "content d' (of_path (sg_file s)) = log_bytes ps"
    "content d' (of_path (ix_file (sg_idx s))) = concat (map entry_bytes (ix_entries (sg_idx s)))"
    "only_files (seg_paths s) d d'"
proof -
  obtain w d1 f' idx' where F: "bufio_Flush (sg_file s) (sg_bw s) d = (None, w, d1)"
    and X: "index_Close (sg_idx s) d1 = (None, idx', d')"
    using C by (auto simp: segment_Close_def split: prod.splits option.splits)
  note SF = seg_flush [OF F I]
  have I1: "index_inv (sg_idx s) d1" and ne: "of_path (sg_file s) \<noteq> of_path (ix_file (sg_idx s))"
    using SF(1) by (simp_all add: seg_inv_def)
  note XC = index_Close_ok [OF X I1]
  show "content d' (of_path (sg_file s)) = log_bytes ps"
    using XC(1) ne SF(2) by (simp add: only_file_content)
  show "content d' (of_path (ix_file (sg_idx s))) = concat (map entry_bytes (ix_entries (sg_idx s)))"
    by (rule XC(2))
  show "only_files (seg_paths s) d d'"
    by (rule only_files_trans [OF only_file_files [OF SF(3)] only_file_files [OF XC(1)]])
      (simp_all add: seg_paths_def)
qed

lemma segment_Close_healthy:
  assumes I: "seg_inv s d ps" and free: "dk_free d = None"
  shows "\<exists>s' d'. segment_Close s d = (None, s', d')"
proof -
  obtain w d1 where F: "bufio_Flush (sg_file s) (sg_bw s) d = (None, w, d1)"
    using seg_flush_healthy [OF I free] by blast
  note SF = seg_flush [OF F I]
  have I1: "index_inv (sg_idx s) d1" using SF(1) by (simp add: seg_inv_def)
  obtain idx' d2 where "index_Close (sg_idx s) d1 = (None, idx', d2)"
    using index_Close_healthy [OF I1 only_file_fields(4) [OF SF(3) free]] by blast
  then show ?thesis using F I by (simp add: segment_Close_def os_Close_def seg_inv_def backed_def)
qed

section \<open>Opening\<close>

definition max_size_of :: "segment_config \<Rightarrow> int" where
  "max_size_of cfg = (if sc_MaxSize cfg \<le> 0 then DefaultMaxSegmentSize else sc_MaxSize cfg)"

definition openable :: "string \<Rightarrow> int \<Rightarrow> disk \<Rightarrow> bool" where
  "openable dir base d \<longleftrightarrow>
     fst (log_path dir base) \<in> set (dk_dirs d) \<and>
     log_path dir base \<notin> set (dk_denied d) \<and> index_path dir base \<notin> set (dk_denied d)"

lemma log_index_paths [simp]:
  "log_path dir base \<noteq> index_path dir base'" "index_path dir base' \<noteq> log_path dir base"
  by (simp_all add: log_path_def index_path_def file_path_def append_eq_append_conv2 pad20_def)

lemma OpenSegment_ok:
  assumes O: "openable dir base d"
    and L: "content d (log_path dir base) = log_bytes ps" "list_all (\<lambda>p. length p < 2 ^ 32) ps"
      "length (log_bytes ps) < 2 ^ 62"
    and X: "content d (index_path dir base) = concat (map entry_bytes es)" "entries_ok ps es"
    and M: "max_size_of cfg < 2 ^ 62"
  obtains s d' where "OpenSegment dir base cfg d = (Inr s, d')" "seg_inv s d' ps"
    "ix_entries (sg_idx s) = es" "sg_baseOffset s = base" "sg_maxSize s = max_size_of cfg"
    "of_path (sg_file s) = log_path dir base" "of_path (ix_file (sg_idx s)) = index_path dir base"
    "only_files {log_path dir base, index_path dir base} d d'"
proof -
  let ?p = "log_path dir base" and ?q = "index_path dir base"
  let ?f = "\<lparr>of_path = ?p, of_open = True\<rparr>"
  obtain d1 where F: "os_OpenFile ?p d = (Inr ?f, d1)" and O1: "only_file ?p d d1" "file_at d1 ?p \<noteq> None"
    and C1: "content d1 ?p = content d ?p"
    using O by (auto simp: os_OpenFile_def openable_def only_file_def content_def split: option.splits)
  have dirs: "fst ?q = fst ?p" by (simp add: log_path_def index_path_def file_path_def)
  obtain idx d2 where Y: "openIndex dir base d1 = (Inr idx, d2)"
    using O only_file_fields(1,2) [OF O1(1)] dirs
    by (auto simp: openIndex_def os_OpenFile_def openable_def split: option.splits)
  have "content d1 ?q = concat (map entry_bytes es)"
    using only_file_content [OF O1(1), of ?q] X(1) log_index_paths(1) [of dir base base] by metis
  note XO = openIndex_inv [OF Y this]
  have C2: "content d2 ?p = content d1 ?p"
    using XO(4) by (simp add: only_file_content)
  define s where "s = \<lparr>sg_file = ?f, sg_bw = bufio_NewWriterSize writeBufferSize, sg_idx = idx,
      sg_baseOffset = base, sg_size = int (length (content d1 ?p)), sg_maxSize = max_size_of cfg\<rparr>"
  have "OpenSegment dir base cfg d = (Inr s, d2)"
    using F Y by (simp add: OpenSegment_def s_def max_size_of_def Let_def)
  moreover have "backed ?f d2"
    by (rule only_file_backed [OF XO(4)]) (use O1 in \<open>simp add: backed_def\<close>)
  then have "seg_inv s d2 ps"
    using L X(2) M C1 C2 XO
    by (simp add: seg_inv_def s_def logical_def bufio_NewWriterSize_def)
  moreover have "only_files {?p, ?q} d d2"
    by (rule only_files_trans [OF only_file_files [OF O1(1)] only_file_files [OF XO(4)]]) simp_all
  ultimately show thesis using XO by (intro that [of s d2]) (simp_all add: s_def)
qed

lemma OpenSegment_opens:
  assumes "openable dir base d"
  obtains s d' where "OpenSegment dir base cfg d = (Inr s, d')"
    "sg_size s = int (length (content d (log_path dir base)))" "sg_maxSize s = max_size_of cfg"
    "content d' (log_path dir base) = content d (log_path dir base)"
    "of_path (sg_file s) = log_path dir base" "only_files {log_path dir base, index_path dir base} d d'"
    "\<And>x. \<exists>s'. segment_Close s x = (None, s', x)"
proof -
  let ?p = "log_path dir base" and ?q = "index_path dir base"
  obtain d1 where F: "os_OpenFile ?p d = (Inr \<lparr>of_path = ?p, of_open = True\<rparr>, d1)" and O1: "only_file ?p d d1"
    and C1: "content d1 ?p = content d ?p"
    using assms by (auto simp: os_OpenFile_def openable_def only_file_def content_def split: option.splits)
  have dirs: "fst ?q = fst ?p" by (simp add: log_path_def index_path_def file_path_def)
  obtain d2 where G: "os_OpenFile ?q d1 = (Inr \<lparr>of_path = ?q, of_open = True\<rparr>, d2)" and O2: "only_file ?q d1 d2"
    using assms only_file_fields(1,2) [OF O1] dirs
    by (auto simp: os_OpenFile_def openable_def only_file_def split: option.splits)
  show thesis
  proof (rule that)
    show "OpenSegment dir base cfg d =
        (Inr \<lparr>sg_file = \<lparr>of_path = ?p, of_open = True\<rparr>, sg_bw = bufio_NewWriterSize writeBufferSize,
           sg_idx = \<lparr>ix_file = \<lparr>of_path = ?q, of_open = True\<rparr>, ix_bw = bufio_NewWriterSize indexWriteBufferSize,
             ix_entries = loadEntries (content d2 ?q), ix_since = 0\<rparr>,
           sg_baseOffset = base, sg_size = int (length (content d1 ?p)), sg_maxSize = max_size_of cfg\<rparr>, d2)"
      using F G by (simp add: OpenSegment_def openIndex_def max_size_of_def)
    show "content d2 ?p = content d ?p" using O2 C1 by (simp add: only_file_content)
    show "only_files {?p, ?q} d d2"
      by (rule only_files_trans [OF only_file_files [OF O1] only_file_files [OF O2]]) simp_all
  qed (simp_all add: C1 segment_Close_def index_Close_def bufio_Flush_def bufio_NewWriterSize_def os_Close_def)
qed

lemma OpenSegment_fresh:
  assumes "openable dir base d" and "content d (log_path dir base) = []" and "content d (index_path dir base) = []"
    and "max_size_of cfg < 2 ^ 62"
  obtains s d' where "OpenSegment dir base cfg d = (Inr s, d')" "seg_inv s d' []"
    "sg_baseOffset s = base" "sg_maxSize s = max_size_of cfg"
    "of_path (sg_file s) = log_path dir base" "of_path (ix_file (sg_idx s)) = index_path dir base"
    "only_files {log_path dir base, index_path dir base} d d'"
proof -
  have "content d (log_path dir base) = log_bytes []" "list_all (\<lambda>p. length p < 2 ^ 32) ([] :: bytes list)"
    "length (log_bytes []) < 2 ^ 62" "content d (index_path dir base) = concat (map entry_bytes [])" "entries_ok [] []"
    using assms(2,3) by (simp_all add: entries_ok_def sorted_entries_def)
  from OpenSegment_ok [OF assms(1) this assms(4)] that show thesis by metis
qed

section \<open>What an append leaves on the disk when it fails\<close>

lemma segment_Append_prefix:
  assumes A: "segment_Append p s d = (r, s', d')" and I: "seg_inv s d ps" and L: "length p < 2 ^ 32"
  shows "prefix (content d (of_path (sg_file s))) (content d' (of_path (sg_file s))) \<and>
    prefix (content d' (of_path (sg_file s))) (log_bytes (ps @ [p]))"
  using A I L
proof (cases rule: segment_Append_cases)
  case full
  then show ?thesis using I by (auto simp: seg_inv_def logical_def prefix_def) (metis append.assoc)
next
  case (run e1 w1 d1 e2 w2 d2 e3 idx' d3)
  let ?c = "\<lambda>d. content d (of_path (sg_file s))"
  have B: "backed (sg_file s) d" and X: "index_inv (sg_idx s) d"
    and lg: "logical (sg_file s) (sg_bw s) d = log_bytes ps"
    and ne: "of_path (sg_file s) \<noteq> of_path (ix_file (sg_idx s))" using I by (simp_all add: seg_inv_def)
  have O1: "only_file (of_path (sg_file s)) d d1" and O2: "only_file (of_path (sg_file s)) d1 d2"
    using run(2,3) by (blast intro: bufio_Write_only)+
  note W1 = bufio_Write_logical [OF run(2) B, unfolded lg]
    and W2 = bufio_Write_logical [OF run(3) only_file_backed [OF O1 B]]
  have O3: "only_file (of_path (ix_file (sg_idx s))) d2 d3" by (rule maybeAppend_only [OF run(4)])
  have log: "log_bytes (ps @ [p]) = (log_bytes ps @ be_put 4 (word_of_nat (length p) :: 32 word)) @ p"
    by (simp add: rec_bytes_def)
  show ?thesis
  proof (cases "e1 = None")
    case True
    then have p2: "prefix (?c d) (?c d2)" "prefix (?c d2) (log_bytes (ps @ [p]))"
      using W1 W2 prefix_order.trans unfolding log by auto
    have "?c d3 = ?c d2" using O3 ne by (simp add: only_file_content)
    then have "?c d' = ?c d2"
      using run(5) A True by (auto simp: Let_def split: option.splits)
    with p2 show ?thesis by simp
  next
    case False
    then have "d' = d1" using run(5) A by auto
    with W1 show ?thesis unfolding log by (blast intro: prefix_prefix)
  qed
qed

section \<open>Properties\<close>

definition sample_segment_disk :: disk where
  "sample_segment_disk = \<lparr>dk_files = [(log_path ''d'' 0, \<lparr>fl_data = [], fl_mtime = 0\<rparr>),
       (index_path ''d'' 0, \<lparr>fl_data = [], fl_mtime = 0\<rparr>)],
     dk_dirs = [fst (log_path ''d'' 0)], dk_denied = [], dk_free = None, dk_now = 0\<rparr>"

definition sample_segment :: segment where
  "sample_segment = \<lparr>sg_file = \<lparr>of_path = log_path ''d'' 0, of_open = True\<rparr>,
     sg_bw = \<lparr>bw_buf = log_bytes [[1, 2], [7, 8, 9]], bw_size = writeBufferSize, bw_err = None\<rparr>,
     sg_idx = \<lparr>ix_file = \<lparr>of_path = index_path ''d'' 0, of_open = True\<rparr>,
       ix_bw = bufio_NewWriterSize indexWriteBufferSize, ix_entries = [], ix_since = 13\<rparr>,
     sg_baseOffset = 0, sg_size = 13, sg_maxSize = 100\<rparr>"

lemma sample_segment_inv: "seg_inv sample_segment sample_segment_disk [[1, 2], [7, 8, 9]]"
  by (simp add: seg_inv_def sample_segment_def sample_segment_disk_def backed_def file_at_def logical_def
      content_def index_inv_def entries_ok_def sorted_entries_def bufio_NewWriterSize_def
      IndexIntervalBytes_def)

lemma sample_segment_fields:
  "sg_size sample_segment = 13" "sg_maxSize sample_segment = 100" "dk_free sample_segment_disk = None"
  "openable ''d'' 0 sample_segment_disk" "of_path (sg_file sample_segment) = log_path ''d'' 0"
  "of_path (ix_file (sg_idx sample_segment)) = index_path ''d'' 0" "rec_offset [[1, 2], [7, 8, 9]] (Suc 0) = 6"
  by (simp_all add: sample_segment_def sample_segment_disk_def openable_def rec_offset_def)

text \<open>
  C11: on a disk with room, \<open>Append\<close> refines appending to the abstract log.  A record that
  fits is stored behind the others and its offset is the length of the framed log before it;
  a record that does not fit is refused with \<open>ErrSegmentFull\<close> and changes neither the
  segment nor the disk.
\<close>

theorem segment_append_log:
  assumes "seg_inv s d ps" and "length p < 2 ^ 32" and "dk_free d = None"
  shows "if sg_size s + recordHeaderSize + int (length p) \<le> sg_maxSize s
    then \<exists>s' d'. segment_Append p s d = (Inr (int (rec_offset (ps @ [p]) (length ps))), s', d') \<and>
           seg_inv s' d' (ps @ [p]) \<and> only_files (seg_paths s) d d'
    else segment_Append p s d = (Inl ErrSegmentFull, s, d)"
proof (cases "sg_size s + (4 + int (length p)) \<le> sg_maxSize s")
  case True
  obtain s' d' where A: "segment_Append p s d = (Inr (sg_size s), s', d')"
    using segment_Append_healthy [OF assms True] by blast
  have "int (rec_offset (ps @ [p]) (length ps)) = sg_size s"
    using assms(1) by (simp add: rec_offset_def seg_inv_def)
  with A True segment_Append_ok(1,7) [OF A assms(1,2)] show ?thesis
    by (simp add: recordHeaderSize_def)
next
  case False
  then show ?thesis
    using segment_Append_full [OF assms(1,2)] by (simp add: recordHeaderSize_def)
qed

theorem segment_append_log_witness:
  "\<exists>s' d'. segment_Append [5] sample_segment sample_segment_disk = (Inr 13, s', d') \<and>
     seg_inv s' d' [[1, 2], [7, 8, 9], [5]]"
  using segment_append_log [OF sample_segment_inv, of "[5]"]
  by (auto simp: sample_segment_fields recordHeaderSize_def rec_offset_def)

text \<open>
  C27: every record that was appended reads back at the offset its append returned, whether
  it is still in the write buffer or on the disk, and reading changes no record.
\<close>

theorem segment_read_record:
  assumes "seg_inv s d ps" and "i < length ps" and "dk_free d = None"
  shows "\<exists>s' d'. segment_ReadAt (int (rec_offset ps i)) s d = (Inr (ps ! i), s', d') \<and>
    seg_inv s' d' ps \<and> only_files (seg_paths s) d d'"
proof -
  obtain w d' where F: "bufio_Flush (sg_file s) (sg_bw s) d = (None, w, d')"
    using seg_flush_healthy [OF assms(1,3)] by blast
  have "only_files (seg_paths s) d d'"
    by (rule only_file_files [OF seg_flush(3) [OF F assms(1)]]) (simp add: seg_paths_def)
  with segment_ReadAt_record [OF assms(1,2) F] seg_flush(1) [OF F assms(1)] show ?thesis by blast
qed

theorem segment_read_record_witness:
  "\<exists>s' d'. segment_ReadAt 6 sample_segment sample_segment_disk = (Inr [7, 8, 9], s', d')"
  using segment_read_record [OF sample_segment_inv, of 1] by (auto simp: sample_segment_fields)

text \<open>
  C28: closing a segment and opening it again, for instance after a restart, gives back the
  same log and the same index: no record is lost, moved or reordered.
\<close>

theorem segment_reopen:
  assumes "seg_inv s d ps" and "dk_free d = None" and "openable dir base d"
    and "of_path (sg_file s) = log_path dir base" and "of_path (ix_file (sg_idx s)) = index_path dir base"
    and "sc_MaxSize cfg < 2 ^ 62"
  shows "\<exists>s1 d1 s2 d2. segment_Close s d = (None, s1, d1) \<and> OpenSegment dir base cfg d1 = (Inr s2, d2) \<and>
    seg_inv s2 d2 ps \<and> ix_entries (sg_idx s2) = ix_entries (sg_idx s)"
proof -
  obtain s1 d1 where C: "segment_Close s d = (None, s1, d1)"
    using segment_Close_healthy [OF assms(1,2)] by blast
  note CO = segment_Close_ok [OF C assms(1)]
  have "openable dir base d1"
    using assms(3) CO(3) by (simp add: openable_def only_files_def)
  moreover have "max_size_of cfg < 2 ^ 62"
    using assms(6) by (simp add: max_size_of_def DefaultMaxSegmentSize_def)
  moreover have "list_all (\<lambda>p. length p < 2 ^ 32) ps" "length (log_bytes ps) < 2 ^ 62"
    "entries_ok ps (ix_entries (sg_idx s))" using assms(1) by (simp_all add: seg_inv_def)
  moreover have "content d1 (log_path dir base) = log_bytes ps"
    "content d1 (index_path dir base) = concat (map entry_bytes (ix_entries (sg_idx s)))"
    using CO(1,2) assms(4,5) by simp_all
  ultimately obtain s2 d2 where "OpenSegment dir base cfg d1 = (Inr s2, d2)" "seg_inv s2 d2 ps"
    "ix_entries (sg_idx s2) = ix_entries (sg_idx s)"
    using OpenSegment_ok [of dir base d1 ps "ix_entries (sg_idx s)" cfg] by metis
  with C show ?thesis by blast
qed

theorem segment_reopen_witness:
  "\<exists>s1 d1 s2 d2. segment_Close sample_segment sample_segment_disk = (None, s1, d1) \<and>
     OpenSegment ''d'' 0 \<lparr>sc_MaxSize = 0, sc_Retention = 0\<rparr> d1 = (Inr s2, d2) \<and>
     seg_inv s2 d2 [[1, 2], [7, 8, 9]]"
  using segment_reopen [OF sample_segment_inv, of "''d''" 0 "\<lparr>sc_MaxSize = 0, sc_Retention = 0\<rparr>"]
  by (auto simp: sample_segment_fields)

text \<open>
  C18: whatever happens to an append, a full disk included, the log file keeps what it had
  and holds a prefix of the framed records up to and including the new one: no write is
  duplicated, reordered or damaged.
\<close>

theorem segment_append_crash_prefix:
  assumes "segment_Append p s d = (r, s', d')" and "seg_inv s d ps" and "length p < 2 ^ 32"
  shows "prefix (content d (of_path (sg_file s))) (content d' (of_path (sg_file s))) \<and>
    prefix (content d' (of_path (sg_file s))) (log_bytes (ps @ [p]))"
  using assms by (rule segment_Append_prefix)

theorem segment_append_crash_prefix_witness:
  "\<exists>r s' d'. segment_Append [5] sample_segment sample_segment_disk = (r, s', d') \<and>
     prefix (content d' (log_path ''d'' 0)) (log_bytes [[1, 2], [7, 8, 9], [5]])"
proof -
  obtain r s' d' where A: "segment_Append [5] sample_segment sample_segment_disk = (r, s', d')"
    by (rule prod_cases3)
  show ?thesis
    using A segment_append_crash_prefix [OF A sample_segment_inv] by (auto simp: sample_segment_fields)
qed

text \<open>
  C20: in a segment below 4 GiB, the position the sparse index returns for a target is the
  start of a record at or before the target.
\<close>

theorem index_points_at_record:
  assumes "seg_inv s d ps" and "sg_size s < 2 ^ 32" and "Lookup target (sg_idx s) = Inr pos"
  shows "\<exists>i < length ps. unat pos = rec_offset ps i \<and> rec_offset ps i \<le> unat target"
  using assms by (rule Lookup_record)

definition indexed_segment :: segment where
  "indexed_segment = sample_segment\<lparr>sg_idx := (sg_idx sample_segment)
     \<lparr>ix_bw := \<lparr>bw_buf = entry_bytes \<lparr>en_offset = 6, en_position = 6\<rparr>, bw_size = indexWriteBufferSize, bw_err = None\<rparr>,
       ix_entries := [\<lparr>en_offset = 6, en_position = 6\<rparr>], ix_since := 0\<rparr>\<rparr>"

lemma indexed_segment_inv: "seg_inv indexed_segment sample_segment_disk [[1, 2], [7, 8, 9]]"
proof -
  have "entries_ok [[1, 2], [7, 8, 9]] [\<lparr>en_offset = 6, en_position = 6\<rparr>]"
    by (auto simp: entries_ok_def sorted_entries_def sample_segment_fields intro!: exI [of _ "Suc 0"])
  then show ?thesis
    using sample_segment_inv
    by (simp add: indexed_segment_def seg_inv_def sample_segment_def sample_segment_disk_def backed_def
        file_at_def logical_def content_def index_inv_def bufio_NewWriterSize_def)
qed

theorem index_points_at_record_witness:
  "Lookup 10 (sg_idx indexed_segment) = Inr 6 \<and>
     (\<exists>i < 2. unat (6 :: 32 word) = rec_offset [[1, 2], [7, 8, 9]] i)"
proof -
  have L: "Lookup 10 (sg_idx indexed_segment) = Inr 6"
    using Lookup_scan [of "sg_idx indexed_segment" 10]
    by (simp add: indexed_segment_def sorted_entries_def index_scan_def word_le_nat_alt)
  have "sg_size indexed_segment < 2 ^ 32" by (simp add: indexed_segment_def sample_segment_def)
  then show ?thesis using L index_points_at_record [OF indexed_segment_inv _ L] by (auto simp: numeral_2_eq_2)
qed

end
