(* ===== verification/Store_Interface.thy ===== *)
theory Store_Interface
  imports Segment
begin

text \<open>
  The interfaces \<open>AppendStore\<close> and \<open>FetchStore\<close> of \<open>internal/storage/store.go\<close> as locales:
  what the server relies on when it appends a record and reads a window of the log.
  \<open>holds st ps\<close> says that the log the store serves is the framed records \<open>ps\<close>; \<open>room p st\<close>
  that \<open>p\<close> can be appended to that log.  The laws are discharged for the partition store in
  the theory of that component.
\<close>

locale append_store =
  fixes append :: "bytes \<Rightarrow> 's \<Rightarrow> (goerr + int) \<times> 's"
    and size_of :: "'s \<Rightarrow> int"
    and holds :: "'s \<Rightarrow> bytes list \<Rightarrow> bool"
    and room :: "bytes \<Rightarrow> 's \<Rightarrow> bool"
  assumes size_holds: "holds st ps \<Longrightarrow> size_of st = int (length (log_bytes ps))"
    and append_room: "holds st ps \<Longrightarrow> room p st \<Longrightarrow>
      \<exists>st'. append p st = (Inr (size_of st), st') \<and> holds st' (ps @ [p])"
begin

lemma append_offset:
  assumes "holds st ps" and "room p st"
  obtains st' where "append p st = (Inr (int (rec_offset (ps @ [p]) (length ps))), st')" "holds st' (ps @ [p])"
  using append_room [OF assms] size_holds [OF assms(1)] by (auto simp: rec_offset_def)

end

locale fetch_store = append_store append size_of holds room
  for append :: "bytes \<Rightarrow> 's \<Rightarrow> (goerr + int) \<times> 's" and size_of and holds and room +
  fixes read :: "int \<Rightarrow> int \<Rightarrow> 's \<Rightarrow> (goerr + (go_reader \<times> int)) \<times> 's"
  assumes read_window: "holds st ps \<Longrightarrow> 0 \<le> off \<Longrightarrow> off < size_of st \<Longrightarrow> 0 < n \<Longrightarrow> n < 2 ^ 31 \<Longrightarrow>
      \<exists>st'. read off n st =
        (Inr (\<lparr>rd_data = take (nat (min n (size_of st - off))) (drop (nat off) (log_bytes ps)), rd_err = io_EOF\<rparr>,
              min n (size_of st - off)), st') \<and> holds st' ps"
    and read_past_end: "holds st ps \<Longrightarrow> size_of st \<le> off \<Longrightarrow> off < 2 ^ 63 \<Longrightarrow>
      read off n st = (Inl ErrInvalidOffset, st)"
begin

text \<open>A window as long as a record, at the offset of that record, is that record.\<close>

lemma read_record:
  assumes H: "holds st ps" and i: "i < length ps" and n: "4 + length (ps ! i) < 2 ^ 31"
  obtains st' where "read (int (rec_offset ps i)) (4 + int (length (ps ! i))) st =
      (Inr (\<lparr>rd_data = rec_bytes (ps ! i), rd_err = io_EOF\<rparr>, 4 + int (length (ps ! i))), st')" "holds st' ps"
proof -
  let ?o = "int (rec_offset ps i)" and ?n = "4 + int (length (ps ! i))"
  note b = rec_offset_bound [OF i] and s = size_holds [OF H]
  have le: "?o + ?n \<le> size_of st" using b(1) s by simp
  then have m: "min ?n (size_of st - ?o) = ?n" "?o < size_of st" by simp_all
  have "take (nat ?n) (drop (nat ?o) (log_bytes ps)) = rec_bytes (ps ! i)"
    using b(2) by (simp add: rec_bytes_def nat_add_distrib)
  with read_window [OF H, of ?o ?n] m n that show thesis by auto
qed

text \<open>What was just appended can be read back at the offset the append returned.\<close>

lemma append_then_read:
  assumes "holds st ps" and "room p st" and "4 + length p < 2 ^ 31"
  obtains off st' st'' where "append p st = (Inr off, st')"
    "read off (4 + int (length p)) st' = (Inr (\<lparr>rd_data = rec_bytes p, rd_err = io_EOF\<rparr>, 4 + int (length p)), st'')"
    "holds st'' (ps @ [p])"
proof -
  obtain st' where A: "append p st = (Inr (int (rec_offset (ps @ [p]) (length ps))), st')" "holds st' (ps @ [p])"
    using append_offset [OF assms(1,2)] .
  obtain st'' where
    "read (int (rec_offset (ps @ [p]) (length ps))) (4 + int (length p)) st' =
      (Inr (\<lparr>rd_data = rec_bytes p, rd_err = io_EOF\<rparr>, 4 + int (length p)), st'')" "holds st'' (ps @ [p])"
    using read_record [OF A(2), of "length ps"] assms(3) by (auto simp: nth_append)
  with A(1) show thesis by (rule that)
qed

end

end
