(* ===== verification/Directories.thy ===== *)
theory Directories
  imports Files "HOL-Library.List_Lexorder" "HOL-Library.Char_ord"
begin

text \<open>
  What the storage packages use of the directory functions of \<open>os\<close>: \<open>ReadDir\<close>,
  \<open>DirEntry.Info\<close>, \<open>Remove\<close> and \<open>MkdirAll\<close>.  Directories are recorded by their clean path; \<open>/\<close> and \<open>.\<close>, and what
  lies above the working directory, are taken to exist.
\<close>

definition os_ErrNotExist :: goerr where
  "os_ErrNotExist = os_error ''no such file or directory''"

definition os_IsNotExist :: "goerr \<Rightarrow> bool" where
  "os_IsNotExist e \<longleftrightarrow> e = os_ErrNotExist"

record dir_entry =
  de_name :: string
  de_IsDir :: bool

definition is_child :: "string \<Rightarrow> string \<Rightarrow> bool" where
  "is_child dir x \<longleftrightarrow>
     rooted x = rooted dir \<and> clean_elems x \<noteq> [] \<and>
     butlast (clean_elems x) = clean_elems dir \<and> plain_name (last (clean_elems x))"

text \<open>The entries of a directory, sorted by name.\<close>

definition dir_entries :: "string \<Rightarrow> disk \<Rightarrow> dir_entry list" where
  "dir_entries dir d =
     [\<lparr>de_name = snd p, de_IsDir = False\<rparr>. (p, f) \<leftarrow> dk_files d, fst p = filepath_Clean dir] @
     [\<lparr>de_name = last (clean_elems x), de_IsDir = True\<rparr>. x \<leftarrow> dk_dirs d, is_child (filepath_Clean dir) x]"

definition os_ReadDir :: "string \<Rightarrow> disk \<Rightarrow> goerr + dir_entry list" where
  "os_ReadDir dir d =
     (if filepath_Clean dir \<in> set (dk_dirs d) then Inr (sort_key de_name (dir_entries dir d))
      else Inl os_ErrNotExist)"

text \<open>Whether \<open>x\<close> is the directory at a path, and whether there is one.\<close>

definition subdir_at :: "path \<Rightarrow> string \<Rightarrow> bool" where
  "subdir_at p x \<longleftrightarrow> is_child (fst p) x \<and> last (clean_elems x) = snd p"

definition dir_at :: "disk \<Rightarrow> path \<Rightarrow> bool" where
  "dir_at d p \<longleftrightarrow> (\<exists>x \<in> set (dk_dirs d). subdir_at p x)"

text \<open>
  The modification time of an entry, or the error when it is gone.  The disk does not keep the
  times of directories; they are an argument, so what is shown holds whatever they are.
\<close>

definition entry_ModTime :: "(path \<Rightarrow> int) \<Rightarrow> path \<Rightarrow> disk \<Rightarrow> goerr + int" where
  "entry_ModTime dirtime p d =
     (case file_at d p of
        Some f \<Rightarrow> Inr (fl_mtime f)
      | None \<Rightarrow> if dir_at d p then Inr (dirtime p) else Inl os_ErrNotExist)"

text \<open>\<open>Remove\<close> takes away a file or an empty directory.\<close>

definition os_Remove :: "path \<Rightarrow> disk \<Rightarrow> goerr option \<times> disk" where
  "os_Remove p d =
     (if p \<in> set (dk_denied d) then (Some (os_error ''permission denied''), d)
      else if file_at d p \<noteq> None then (None, d\<lparr>dk_files := AList.delete p (dk_files d)\<rparr>)
      else if \<not> dir_at d p then (Some os_ErrNotExist, d)
      else if \<exists>x \<in> set (dk_dirs d). subdir_at p x \<and> dir_entries x d \<noteq> []
      then (Some (os_error ''directory not empty''), d)
      else (None, d\<lparr>dk_dirs := filter (\<lambda>x. \<not> subdir_at p x) (dk_dirs d)\<rparr>))"

primrec mkdir_elems :: "bool \<Rightarrow> string list \<Rightarrow> string list \<Rightarrow> disk \<Rightarrow> goerr option \<times> disk" where
  "mkdir_elems root [] acc d = (None, d)"
| "mkdir_elems root (x # xs) acc d =
     (let parent = path_string root acc; here = path_string root (acc @ [x])
      in if x = ''..'' \<or> here \<in> set (dk_dirs d) then mkdir_elems root xs (acc @ [x]) d
         else if (parent, x) \<in> set (dk_denied d) then (Some (os_error ''permission denied''), d)
         else if file_at d (parent, x) \<noteq> None then (Some (os_error ''not a directory''), d)
         else mkdir_elems root xs (acc @ [x]) (d\<lparr>dk_dirs := here # dk_dirs d\<rparr>))"

definition os_MkdirAll :: "string \<Rightarrow> disk \<Rightarrow> goerr option \<times> disk" where
  "os_MkdirAll dir d = mkdir_elems (rooted dir) (clean_elems dir) [] d"

section \<open>Laws\<close>

lemma os_ReadDir_names:
  assumes "os_ReadDir dir d = Inr es"
  shows "set es = set (dir_entries dir d)"
  using assms by (auto simp: os_ReadDir_def split: if_splits)

lemma dir_entries_file:
  assumes "file_at d (file_path dir name) = Some f"
  shows "\<lparr>de_name = name, de_IsDir = False\<rparr> \<in> set (dir_entries dir d)"
proof -
  have "((filepath_Clean dir, name), f) \<in> set (dk_files d)"
    using assms by (simp add: file_at_def file_path_def map_of_SomeD)
  then show ?thesis unfolding dir_entries_def set_append by (intro UnI1) force
qed

lemma file_at_delete [simp]:
  "file_at (d\<lparr>dk_files := AList.delete p (dk_files d)\<rparr>) q = (if q = p then None else file_at d q)"
  by (simp add: file_at_def delete_conv')

lemma dir_entries_Nil:
  "dir_entries x d = [] \<longleftrightarrow>
     (\<forall>n. file_at d (filepath_Clean x, n) = None) \<and> (\<forall>y \<in> set (dk_dirs d). \<not> is_child (filepath_Clean x) y)"
proof -
  have "(\<forall>pf \<in> set (dk_files d). fst (fst pf) \<noteq> filepath_Clean x) \<longleftrightarrow> (\<forall>n. file_at d (filepath_Clean x, n) = None)"
    by (force simp: file_at_def map_of_eq_None_iff)
  then show ?thesis by (auto simp: dir_entries_def filter_empty_conv concat_eq_Nil_conv)
qed

lemma mkdir_elems_files:
  "mkdir_elems root xs acc d = (e, d') \<Longrightarrow>
     dk_files d' = dk_files d \<and> dk_denied d' = dk_denied d \<and> dk_free d' = dk_free d \<and> dk_now d' = dk_now d \<and>
     set (dk_dirs d) \<subseteq> set (dk_dirs d')"
proof (induction xs arbitrary: acc d)
  case (Cons x xs)
  let ?d = "d\<lparr>dk_dirs := path_string root (acc @ [x]) # dk_dirs d\<rparr>"
  from Cons.prems consider "mkdir_elems root xs (acc @ [x]) d = (e, d')" | "d' = d"
    | "mkdir_elems root xs (acc @ [x]) ?d = (e, d')"
    by (auto simp: Let_def split: if_splits)
  then show ?case
  proof cases
    case 3
    from Cons.IH [OF this] show ?thesis by simp
  qed (use Cons.IH in simp_all)
qed simp

lemma mkdir_elems_done:
  "mkdir_elems root xs acc d = (None, d') \<Longrightarrow> xs \<noteq> [] \<Longrightarrow> last xs \<noteq> ''..'' \<Longrightarrow>
     path_string root (acc @ xs) \<in> set (dk_dirs d')"
proof (induction xs arbitrary: acc d)
  case (Cons x xs)
  show ?case
  proof (cases "xs = []")
    case True
    with Cons.prems show ?thesis by (auto simp: Let_def split: if_splits)
  next
    case False
    with Cons.prems Cons.IH [of "acc @ [x]"] show ?thesis by (auto simp: Let_def split: if_splits)
  qed
qed simp

lemma mkdir_elems_skip:
  assumes "\<And>i. 0 < i \<Longrightarrow> i \<le> length xs \<Longrightarrow> path_string root (acc @ take i xs) \<in> set (dk_dirs d)"
  shows "mkdir_elems root (xs @ ys) acc d = mkdir_elems root ys (acc @ xs) d"
  using assms
proof (induction xs arbitrary: acc)
  case (Cons x xs)
  have "path_string root (acc @ [x]) \<in> set (dk_dirs d)" using Cons.prems [of 1] by simp
  moreover have "mkdir_elems root (xs @ ys) (acc @ [x]) d = mkdir_elems root ys ((acc @ [x]) @ xs) d"
    using Cons.prems [of "Suc i" for i] by (intro Cons.IH) simp
  ultimately show ?case by simp
qed simp

lemma os_MkdirAll_done:
  assumes "os_MkdirAll dir d = (None, d')" and "clean_elems dir \<noteq> []" and "last (clean_elems dir) \<noteq> ''..''"
  shows "filepath_Clean dir \<in> set (dk_dirs d')"
  using mkdir_elems_done [OF assms(1) [unfolded os_MkdirAll_def] assms(2,3)]
  by (simp add: filepath_Clean_def)

lemma os_MkdirAll_files:
  assumes "os_MkdirAll dir d = (e, d')"
  shows "file_at d' = file_at d" "dk_denied d' = dk_denied d" "dk_free d' = dk_free d" "dk_now d' = dk_now d"
    "set (dk_dirs d) \<subseteq> set (dk_dirs d')"
  using mkdir_elems_files [OF assms [unfolded os_MkdirAll_def]] by (auto simp: file_at_def fun_eq_iff)

end
