(* ===== verification/Partition_Store.thy ===== *)
theory Partition_Store
  imports Store_Interface Directories
begin

text \<open>
  \<open>internal/storage/store.go\<close>: the store of one topic-partition.  It owns the active
  segment, rolls over to a new one when it is full, reads from the active segment and
  deletes closed segments that are too old.

  \<open>ps_inv G ps d cs cur\<close> relates a store to the closed segments \<open>cs\<close> (a list of records
  each, oldest first) and the records \<open>cur\<close> of the active segment.  The file of a closed
  segment is named after the number of bytes in all segments before it.  The files in \<open>G\<close> may
  have been removed by the cleaner; every other closed segment is on the disk in full.
\<close>

record partition_store =
  ps_dir :: string
  ps_cfg :: segment_config
  ps_active :: segment
  ps_nextBase :: int

definition OpenPartitionStore :: "string \<Rightarrow> segment_config \<Rightarrow> disk \<Rightarrow> (goerr + partition_store) \<times> disk" where
  "OpenPartitionStore dir cfg d =
     (case OpenSegment dir 0 cfg d of
        (Inl e, d1) \<Rightarrow> (Inl (Wrapf ''storage: open partition store: %w'' [] e), d1)
      | (Inr seg, d1) \<Rightarrow>
          (Inr \<lparr>ps_dir = dir, ps_cfg = cfg, ps_active = seg, ps_nextBase = 0\<rparr>, d1))"

definition rollover :: "partition_store \<Rightarrow> disk \<Rightarrow> goerr option \<times> partition_store \<times> disk" where
  "rollover ps d =
     (case segment_Close (ps_active ps) d of
        (Some e, s1, d1) \<Rightarrow> (Some (Wrapf ''storage: rollover close: %w'' [] e), ps\<lparr>ps_active := s1\<rparr>, d1)
      | (None, s1, d1) \<Rightarrow>
          (let nextBase = u64 (ps_nextBase ps + u64 (sg_size (ps_active ps)));
               ps1 = ps\<lparr>ps_active := s1, ps_nextBase := nextBase\<rparr>
           in case OpenSegment (ps_dir ps) nextBase (ps_cfg ps) d1 of
                (Inl e, d2) \<Rightarrow> (Some (Wrapf ''storage: rollover open: %w'' [] e), ps1, d2)
              | (Inr seg, d2) \<Rightarrow> (None, ps1\<lparr>ps_active := seg\<rparr>, d2)))"

definition partition_Append :: "bytes \<Rightarrow> partition_store \<Rightarrow> disk \<Rightarrow> (goerr + int) \<times> partition_store \<times> disk" where
  "partition_Append data ps d =
     (case segment_Append data (ps_active ps) d of
        (Inr offset, s1, d1) \<Rightarrow> (Inr offset, ps\<lparr>ps_active := s1\<rparr>, d1)
      | (Inl e, s1, d1) \<Rightarrow>
          if e = ErrSegmentFull
          then case rollover (ps\<lparr>ps_active := s1\<rparr>) d1 of
                 (Some e2, ps2, d2) \<Rightarrow> (Inl e2, ps2, d2)
               | (None, ps2, d2) \<Rightarrow>
                   (case segment_Append data (ps_active ps2) d2 of
                      (Inr offset, s3, d3) \<Rightarrow> (Inr offset, ps2\<lparr>ps_active := s3\<rparr>, d3)
                    | (Inl e3, s3, d3) \<Rightarrow>
                        (Inl (Wrapf ''storage: partition store append: %w'' [] e3), ps2\<lparr>ps_active := s3\<rparr>, d3))
          else (Inl (Wrapf ''storage: partition store append: %w'' [] e), ps\<lparr>ps_active := s1\<rparr>, d1))"

definition partition_Read ::
    "int \<Rightarrow> int \<Rightarrow> partition_store \<Rightarrow> disk \<Rightarrow> (goerr + (go_reader \<times> int)) \<times> partition_store \<times> disk" where
  "partition_Read fetchOffset maxBytes ps d =
     (let segSize = sg_size (ps_active ps)
      in if segSize \<le> i64 fetchOffset then (Inl ErrInvalidOffset, ps, d)
         else
           let available = i64 (segSize - i64 fetchOffset);
               n = (if available < maxBytes then i32 available else maxBytes)
           in case segment_Read fetchOffset n (ps_active ps) d of
                (Inl e, s1, d1) \<Rightarrow> (Inl e, ps\<lparr>ps_active := s1\<rparr>, d1)
              | (Inr r, s1, d1) \<Rightarrow> (Inr (r, n), ps\<lparr>ps_active := s1\<rparr>, d1))"

definition partition_Size :: "partition_store \<Rightarrow> int" where
  "partition_Size ps = sg_size (ps_active ps)"

definition partition_Flush :: "partition_store \<Rightarrow> disk \<Rightarrow> goerr option \<times> partition_store \<times> disk" where
  "partition_Flush ps d =
     (case segment_Flush (ps_active ps) d of (e, s1, d1) \<Rightarrow> (e, ps\<lparr>ps_active := s1\<rparr>, d1))"

definition partition_Close :: "partition_store \<Rightarrow> disk \<Rightarrow> goerr option \<times> partition_store \<times> disk" where
  "partition_Close ps d =
     (case segment_Close (ps_active ps) d of (e, s1, d1) \<Rightarrow> (e, ps\<lparr>ps_active := s1\<rparr>, d1))"

text \<open>
  One round of the cleaner.  An entry whose name ends in \<open>.log\<close> may be a directory as well;
  an empty one is removed like a file.
\<close>

definition HasSuffix :: "string \<Rightarrow> string \<Rightarrow> bool" where
  "HasSuffix s suf \<longleftrightarrow> length suf \<le> length s \<and> drop (length s - length suf) s = suf"

definition clean_entry ::
    "(path \<Rightarrow> int) \<Rightarrow> string \<Rightarrow> string \<Rightarrow> int \<Rightarrow> dir_entry \<Rightarrow> nat \<times> disk \<Rightarrow> nat \<times> disk" where
  "clean_entry dirtime dir activeLogName cutoff e st =
     (case st of (deleted, d) \<Rightarrow>
        let name = de_name e
        in if \<not> HasSuffix name ''.log'' \<or> name = activeLogName then (deleted, d)
           else
             case entry_ModTime dirtime (file_path dir name) d of
               Inl err \<Rightarrow> (deleted, d)
             | Inr modTime \<Rightarrow>
                 if cutoff < modTime then (deleted, d)
                 else
                   case os_Remove (file_path dir name) d of (r1, d1) \<Rightarrow>
                     if r1 \<noteq> None \<and> \<not> os_IsNotExist (the r1) then (deleted, d1)
                     else
                       let stem = take (length name - 4) name
                       in case os_Remove (file_path dir (stem @ ''.index'')) d1 of (r2, d2) \<Rightarrow>
                            if r2 \<noteq> None \<and> \<not> os_IsNotExist (the r2) then (deleted, d2)
                            else (Suc deleted, d2))"

definition CleanOldSegments :: "(path \<Rightarrow> int) \<Rightarrow> int \<Rightarrow> partition_store \<Rightarrow> disk \<Rightarrow> (goerr + nat) \<times> disk" where
  "CleanOldSegments dirtime retention ps d =
     (let activeLogName = pad20 (sg_baseOffset (ps_active ps)) @ ''.log'';
          cutoff = dk_now d - retention
      in case os_ReadDir (ps_dir ps) d of
           Inl e \<Rightarrow> (Inl (Wrapf ''storage: cleaner read dir %q: %w'' [ArgStr (ps_dir ps)] e), d)
         | Inr entries \<Rightarrow>
             (case fold (clean_entry dirtime (ps_dir ps) activeLogName cutoff) entries (0, d) of
                (deleted, d') \<Rightarrow> (Inr deleted, d')))"

section \<open>File names of a partition\<close>

lemma log_path_inj:
  assumes "0 \<le> b" "b < 2 ^ 64" "0 \<le> b'" "b' < 2 ^ 64"
  shows "log_path dir b = log_path dir b' \<longleftrightarrow> b = b'" "index_path dir b = index_path dir b' \<longleftrightarrow> b = b'"
  using assms by (simp_all add: log_path_def index_path_def file_path_def pad20_inj)

lemma path_dir [simp]:
  "fst (log_path dir b) = filepath_Clean dir" "fst (index_path dir b) = filepath_Clean dir"
  "fst (file_path dir n) = filepath_Clean dir"
  by (simp_all add: log_path_def index_path_def file_path_def)

definition dir_files :: "string \<Rightarrow> path set" where
  "dir_files dir = {p. fst p = filepath_Clean dir}"

text \<open>What a store sees of the disk: the files of its directory and whether it can be written.\<close>

definition same_dir :: "string \<Rightarrow> disk \<Rightarrow> disk \<Rightarrow> bool" where
  "same_dir dir d d' \<longleftrightarrow>
     (\<forall>q. fst q = filepath_Clean dir \<longrightarrow> file_at d' q = file_at d q) \<and>
     set (dk_dirs d) \<subseteq> set (dk_dirs d') \<and> dk_denied d' = dk_denied d"

definition writable_dir :: "string \<Rightarrow> disk \<Rightarrow> bool" where
  "writable_dir dir d \<longleftrightarrow>
     filepath_Clean dir \<in> set (dk_dirs d) \<and> (\<forall>p \<in> set (dk_denied d). fst p \<noteq> filepath_Clean dir)"

lemma writable_openable: "writable_dir dir d \<Longrightarrow> openable dir base d"
  unfolding writable_dir_def openable_def by (auto dest: bspec)

lemma writable_only_files: "only_files P d d' \<Longrightarrow> writable_dir dir d \<Longrightarrow> writable_dir dir d'"
  by (simp add: only_files_def writable_dir_def)

lemma seg_inv_same:
  assumes "seg_inv s d ps" and "file_at d' (of_path (sg_file s)) = file_at d (of_path (sg_file s))"
    and "file_at d' (of_path (ix_file (sg_idx s))) = file_at d (of_path (ix_file (sg_idx s)))"
  shows "seg_inv s d' ps"
  using assms by (simp add: seg_inv_def backed_def logical_def content_def index_inv_def)

section \<open>The invariant\<close>

definition base_of :: "bytes list list \<Rightarrow> nat \<Rightarrow> int" where
  "base_of cs i = int (length (log_bytes (concat (take i cs))))"

definition ps_inv :: "path set \<Rightarrow> partition_store \<Rightarrow> disk \<Rightarrow> bytes list list \<Rightarrow> bytes list \<Rightarrow> bool" where
  "ps_inv G ps d cs cur \<longleftrightarrow>
     seg_inv (ps_active ps) d cur \<and> ps_nextBase ps = base_of cs (length cs) \<and>
     ps_nextBase ps + sg_size (ps_active ps) < 2 ^ 62 \<and>
     of_path (sg_file (ps_active ps)) = log_path (ps_dir ps) (ps_nextBase ps) \<and>
     of_path (ix_file (sg_idx (ps_active ps))) = index_path (ps_dir ps) (ps_nextBase ps) \<and>
     sg_baseOffset (ps_active ps) = ps_nextBase ps \<and>
     sg_maxSize (ps_active ps) = max_size_of (ps_cfg ps) \<and>
     writable_dir (ps_dir ps) d \<and>
     (\<forall>i < length cs. cs ! i \<noteq> [] \<and>
        (log_path (ps_dir ps) (base_of cs i) \<notin> G \<longrightarrow>
           content d (log_path (ps_dir ps) (base_of cs i)) = log_bytes (cs ! i))) \<and>
     (\<forall>b. ps_nextBase ps < b \<and> b < 2 ^ 64 \<longrightarrow>
        content d (log_path (ps_dir ps) b) = [] \<and> content d (index_path (ps_dir ps) b) = [])"

lemma ps_invD:
  assumes "ps_inv G ps d cs cur"
  shows "seg_inv (ps_active ps) d cur" "ps_nextBase ps = base_of cs (length cs)"
    "ps_nextBase ps + sg_size (ps_active ps) < 2 ^ 62"
    "of_path (sg_file (ps_active ps)) = log_path (ps_dir ps) (ps_nextBase ps)"
    "of_path (ix_file (sg_idx (ps_active ps))) = index_path (ps_dir ps) (ps_nextBase ps)"
    "sg_baseOffset (ps_active ps) = ps_nextBase ps"
    "sg_maxSize (ps_active ps) = max_size_of (ps_cfg ps)"
    "writable_dir (ps_dir ps) d"
    "\<And>i. i < length cs \<Longrightarrow> cs ! i \<noteq> []"
    "\<And>i. i < length cs \<Longrightarrow> log_path (ps_dir ps) (base_of cs i) \<notin> G \<Longrightarrow>
       content d (log_path (ps_dir ps) (base_of cs i)) = log_bytes (cs ! i)"
    "\<And>b. ps_nextBase ps < b \<Longrightarrow> b < 2 ^ 64 \<Longrightarrow> content d (log_path (ps_dir ps) b) = []"
    "\<And>b. ps_nextBase ps < b \<Longrightarrow> b < 2 ^ 64 \<Longrightarrow> content d (index_path (ps_dir ps) b) = []"
  using assms unfolding ps_inv_def by blast+

lemma ps_inv_files:
  assumes I: "ps_inv G ps d cs cur" and W: "writable_dir (ps_dir ps) d'"
    and F: "\<And>b. file_at d' (log_path (ps_dir ps) b) = file_at d (log_path (ps_dir ps) b)"
      "\<And>b. file_at d' (index_path (ps_dir ps) b) = file_at d (index_path (ps_dir ps) b)"
  shows "ps_inv G ps d' cs cur"
proof -
  have "seg_inv (ps_active ps) d' cur"
    by (rule seg_inv_same [OF ps_invD(1) [OF I]]) (simp_all add: ps_invD(4,5) [OF I] F)
  with W show ?thesis
    using I unfolding ps_inv_def content_def F by (elim conjE) (intro conjI; assumption)
qed

lemma ps_inv_same:
  assumes I: "ps_inv G ps d cs cur" and S: "same_dir (ps_dir ps) d d'"
  shows "ps_inv G ps d' cs cur"
proof (rule ps_inv_files [OF I])
  show "writable_dir (ps_dir ps) d'"
    using ps_invD(8) [OF I] S by (auto simp: same_dir_def writable_dir_def)
qed (use S in \<open>simp_all add: same_dir_def log_path_def index_path_def file_path_def\<close>)

lemma base_of_less:
  assumes "i < length cs" and "cs ! i \<noteq> []"
  shows "base_of cs i < base_of cs (length cs)"
proof -
  have "concat cs = concat (take i cs) @ cs ! i @ concat (drop (Suc i) cs)"
    by (subst id_take_nth_drop [OF assms(1)]) simp
  then have "length (log_bytes (concat cs)) = length (log_bytes (concat (take i cs))) +
      length (log_bytes (cs ! i)) + length (log_bytes (concat (drop (Suc i) cs)))"
    by simp
  moreover have "4 \<le> length (log_bytes (cs ! i))"
    using assms(2) by (cases "cs ! i") simp_all
  ultimately show ?thesis unfolding base_of_def take_all [OF order_refl] by linarith
qed

lemma base_of_range:
  assumes "ps_inv G ps d cs cur"
  shows "0 \<le> base_of cs i" "i \<le> length cs \<Longrightarrow> base_of cs i \<le> ps_nextBase ps" "0 \<le> ps_nextBase ps"
    "ps_nextBase ps < 2 ^ 62"
proof -
  show "0 \<le> base_of cs i" "0 \<le> ps_nextBase ps" "ps_nextBase ps < 2 ^ 62"
    using assms by (simp_all add: base_of_def ps_inv_def seg_inv_def)
  assume "i \<le> length cs"
  then show "base_of cs i \<le> ps_nextBase ps"
    using assms base_of_less [of i cs] by (cases "i = length cs") (simp_all add: ps_inv_def)
qed

lemma base_of_append: "i \<le> length cs \<Longrightarrow> base_of (cs @ ds) i = base_of cs i"
  by (simp add: base_of_def)

text \<open>The active segment moves on; the other segments and the free file names stay.\<close>

lemma ps_inv_active:
  assumes I: "ps_inv G ps d cs cur" and S: "seg_inv s' d' cur'"
    and O: "only_files (seg_paths (ps_active ps)) d d'"
    and P: "of_path (sg_file s') = of_path (sg_file (ps_active ps))"
      "of_path (ix_file (sg_idx s')) = of_path (ix_file (sg_idx (ps_active ps)))"
    and M: "sg_maxSize s' = sg_maxSize (ps_active ps)" "sg_baseOffset s' = sg_baseOffset (ps_active ps)"
    and B: "ps_nextBase ps + sg_size s' < 2 ^ 62"
  shows "ps_inv G (ps\<lparr>ps_active := s'\<rparr>) d' cs cur'"
proof -
  let ?n = "ps_nextBase ps" and ?dir = "ps_dir ps"
  note D = ps_invD [OF I] and R = base_of_range [OF I]
  have paths: "seg_paths (ps_active ps) = {log_path ?dir ?n, index_path ?dir ?n}"
    by (simp add: seg_paths_def D(4,5))
  have other: "content d' (log_path ?dir b) = content d (log_path ?dir b)"
    "content d' (index_path ?dir b) = content d (index_path ?dir b)"
    if "b \<noteq> ?n" "0 \<le> b" "b < 2 ^ 64" for b
    using that R(3,4) log_path_inj [of b ?n ?dir]
    by (auto intro!: only_files_content [OF O] simp: paths)
  have closed: "cs ! i \<noteq> [] \<and> (log_path ?dir (base_of cs i) \<notin> G \<longrightarrow>
      content d' (log_path ?dir (base_of cs i)) = log_bytes (cs ! i))" if "i < length cs" for i
  proof -
    have "base_of cs i < ?n" using base_of_less [OF that D(9) [OF that]] D(2) by simp
    then show ?thesis using other(1) [of "base_of cs i"] R(1,4) D(9,10) [OF that] by simp
  qed
  have free: "content d' (log_path ?dir b) = [] \<and> content d' (index_path ?dir b) = []" if "?n < b" "b < 2 ^ 64" for b
    using other [of b] D(11,12) [OF that] that R(3) by simp
  show ?thesis
    unfolding ps_inv_def
    using S D(2,4-7) P M B writable_only_files [OF O D(8)] closed free by simp
qed

section \<open>Rolling over\<close>

lemma base_of_last: "base_of (cs @ [cur]) (Suc (length cs)) = base_of cs (length cs) + int (length (log_bytes cur))"
  by (simp add: base_of_def)

lemma seg_paths_dir: "ps_inv G ps d cs cur \<Longrightarrow> seg_paths (ps_active ps) \<subseteq> dir_files (ps_dir ps)"
  by (simp add: seg_paths_def dir_files_def ps_invD(4,5))

lemma seg_inv_size: "seg_inv s d ps \<Longrightarrow> sg_size s = int (length (log_bytes ps))"
  by (simp add: seg_inv_def)

lemma log_bytes_size: "ps \<noteq> [] \<Longrightarrow> 4 \<le> length (log_bytes ps)"
  by (cases ps) simp_all

lemma rollover_files:
  assumes I: "ps_inv G ps d cs cur" and "cur \<noteq> []"
    and C: "content d1 (log_path (ps_dir ps) (ps_nextBase ps)) = log_bytes cur"
    and O1: "only_files (seg_paths (ps_active ps)) d d1"
    and O2: "only_files {log_path (ps_dir ps) nb, index_path (ps_dir ps) nb} d1 d2"
    and nb: "nb = ps_nextBase ps + sg_size (ps_active ps)"
  shows "\<forall>i < length (cs @ [cur]). (cs @ [cur]) ! i \<noteq> [] \<and>
      (log_path (ps_dir ps) (base_of (cs @ [cur]) i) \<notin> G \<longrightarrow>
         content d2 (log_path (ps_dir ps) (base_of (cs @ [cur]) i)) = log_bytes ((cs @ [cur]) ! i))"
    "\<forall>b. nb < b \<and> b < 2 ^ 64 \<longrightarrow>
       content d2 (log_path (ps_dir ps) b) = [] \<and> content d2 (index_path (ps_dir ps) b) = []"
    "content d1 (log_path (ps_dir ps) nb) = []" "content d1 (index_path (ps_dir ps) nb) = []"
proof -
  let ?n = "ps_nextBase ps" and ?dir = "ps_dir ps"
  note D = ps_invD [OF I] and R = base_of_range [OF I]
  have big: "?n + 4 \<le> nb" "nb < 2 ^ 62"
    using nb D(3) seg_inv_size [OF D(1)] log_bytes_size [OF assms(2)] by simp_all
  have paths: "seg_paths (ps_active ps) = {log_path ?dir ?n, index_path ?dir ?n}"
    by (simp add: seg_paths_def D(4,5))
  have keep1: "content d1 (log_path ?dir b) = content d (log_path ?dir b) \<and>
      content d1 (index_path ?dir b) = content d (index_path ?dir b)"
    if "b \<noteq> ?n" "0 \<le> b" "b < 2 ^ 64" for b
    using that R(3,4) log_path_inj [of b ?n ?dir] by (auto intro!: only_files_content [OF O1] simp: paths)
  have keep2: "content d2 (log_path ?dir b) = content d1 (log_path ?dir b) \<and>
      content d2 (index_path ?dir b) = content d1 (index_path ?dir b)"
    if "b \<noteq> nb" "0 \<le> b" "b < 2 ^ 64" for b
    using that R(3) big log_path_inj [of b nb ?dir] by (auto intro!: only_files_content [OF O2])
  show "\<forall>i < length (cs @ [cur]). (cs @ [cur]) ! i \<noteq> [] \<and>
      (log_path ?dir (base_of (cs @ [cur]) i) \<notin> G \<longrightarrow>
         content d2 (log_path ?dir (base_of (cs @ [cur]) i)) = log_bytes ((cs @ [cur]) ! i))"
  proof (intro allI impI)
    fix i assume i: "i < length (cs @ [cur])"
    show "(cs @ [cur]) ! i \<noteq> [] \<and> (log_path ?dir (base_of (cs @ [cur]) i) \<notin> G \<longrightarrow>
        content d2 (log_path ?dir (base_of (cs @ [cur]) i)) = log_bytes ((cs @ [cur]) ! i))"
    proof (cases "i < length cs")
      case True
      have "base_of cs i < ?n" using base_of_less [OF True D(9) [OF True]] D(2) by simp
      then have "content d2 (log_path ?dir (base_of cs i)) = content d (log_path ?dir (base_of cs i))"
        using keep1 [of "base_of cs i"] keep2 [of "base_of cs i"] R(1,4) big by simp
      then show ?thesis using True D(9,10) [OF True] by (simp add: nth_append base_of_append)
    next
      case False
      then have "i = length cs" using i by simp
      then show ?thesis
        using keep2 [of ?n] C assms(2) big R(3) D(2) by (simp add: base_of_append)
    qed
  qed
  show "\<forall>b. nb < b \<and> b < 2 ^ 64 \<longrightarrow> content d2 (log_path ?dir b) = [] \<and> content d2 (index_path ?dir b) = []"
    using keep1 keep2 D(11,12) big R(3) by simp
  show "content d1 (log_path ?dir nb) = []" "content d1 (index_path ?dir nb) = []"
    using keep1 [of nb] D(11,12) [of nb] big R(3) by simp_all
qed

lemma rollover_ok:
  assumes I: "ps_inv G ps d cs cur" and free: "dk_free d = None" and ne: "cur \<noteq> []"
  obtains ps' d' where "rollover ps d = (None, ps', d')" "ps_inv G ps' d' (cs @ [cur]) []"
    "ps_dir ps' = ps_dir ps" "ps_cfg ps' = ps_cfg ps" "only_files (dir_files (ps_dir ps)) d d'"
proof -
  let ?n = "ps_nextBase ps" and ?dir = "ps_dir ps" and ?s = "ps_active ps"
  let ?nb = "?n + sg_size ?s"
  note D = ps_invD [OF I] and R = base_of_range [OF I]
  have size: "sg_size ?s = int (length (log_bytes cur))" by (rule seg_inv_size [OF D(1)])
  have u: "u64 (sg_size ?s) = sg_size ?s" "u64 ?nb = ?nb" using size D(3) R(3) by (auto intro!: u64_id)
  obtain s1 d1 where C: "segment_Close ?s d = (None, s1, d1)"
    using segment_Close_healthy [OF D(1) free] by blast
  note CO = segment_Close_ok [OF C D(1)]
  have C1: "content d1 (log_path ?dir ?n) = log_bytes cur" using CO(1) D(4) by simp
  note E = rollover_files(3,4) [OF I ne C1 CO(3) only_files_refl refl]
  have M: "max_size_of (ps_cfg ps) < 2 ^ 62" using D(1,7) by (simp add: seg_inv_def)
  have W: "writable_dir ?dir d1" by (rule writable_only_files [OF CO(3) D(8)])
  obtain seg d2 where S: "OpenSegment ?dir ?nb (ps_cfg ps) d1 = (Inr seg, d2)" "seg_inv seg d2 []"
    "sg_baseOffset seg = ?nb" "sg_maxSize seg = max_size_of (ps_cfg ps)"
    "of_path (sg_file seg) = log_path ?dir ?nb" "of_path (ix_file (sg_idx seg)) = index_path ?dir ?nb"
    and O: "only_files {log_path ?dir ?nb, index_path ?dir ?nb} d1 d2"
    by (rule OpenSegment_fresh [OF writable_openable [OF W] E M])
  let ?ps' = "ps\<lparr>ps_active := seg, ps_nextBase := ?nb\<rparr>"
  have "ps_inv G ?ps' d2 (cs @ [cur]) []"
    unfolding ps_inv_def
    using S D(2,3) size base_of_last [of cs cur] writable_only_files [OF O W] seg_inv_size [OF S(2)]
      rollover_files(1,2) [OF I ne C1 CO(3) O refl]
    by simp
  moreover have "rollover ps d = (None, ?ps', d2)"
    by (simp add: rollover_def C S u Let_def)
  moreover have "only_files (dir_files ?dir) d d2"
    by (rule only_files_trans [OF only_files_mono [OF CO(3) seg_paths_dir [OF I]] only_files_mono [OF O]])
      (simp add: dir_files_def)
  ultimately show thesis by (intro that [of ?ps' d2]) simp_all
qed

section \<open>Appending\<close>

text \<open>
  The abstract store: closed segments and the current one.  A record that does not fit into
  the current segment starts a new one, where its offset is 0.
\<close>

definition log_append :: "int \<Rightarrow> bytes \<Rightarrow> bytes list list \<Rightarrow> bytes list \<Rightarrow> int \<times> bytes list list \<times> bytes list" where
  "log_append maxSize p cs cur =
     (if int (length (log_bytes cur)) + 4 + int (length p) \<le> maxSize
      then (int (length (log_bytes cur)), cs, cur @ [p])
      else (0, cs @ [cur], [p]))"

lemma partition_Append_fit:
  assumes I: "ps_inv G ps d cs cur" and free: "dk_free d = None" and L: "length p < 2 ^ 32"
    and fits: "sg_size (ps_active ps) + (4 + int (length p)) \<le> max_size_of (ps_cfg ps)"
    and small: "ps_nextBase ps + sg_size (ps_active ps) + (4 + int (length p)) < 2 ^ 62"
  obtains s' d' where "segment_Append p (ps_active ps) d = (Inr (sg_size (ps_active ps)), s', d')"
    "ps_inv G (ps\<lparr>ps_active := s'\<rparr>) d' cs (cur @ [p])" "only_files (dir_files (ps_dir ps)) d d'"
proof -
  note D = ps_invD [OF I]
  obtain s' d' where A: "segment_Append p (ps_active ps) d = (Inr (sg_size (ps_active ps)), s', d')"
    using segment_Append_healthy [OF D(1) L free] fits D(7) by auto
  note O = segment_Append_ok [OF A D(1) L]
  have "sg_size s' = sg_size (ps_active ps) + (4 + int (length p))"
    using seg_inv_size [OF O(1)] seg_inv_size [OF D(1)] by simp
  then have "ps_inv G (ps\<lparr>ps_active := s'\<rparr>) d' cs (cur @ [p])"
    using small by (intro ps_inv_active [OF I O(1,7,8,9,4,5)]) simp
  then show thesis by (rule that [OF A _ only_files_mono [OF O(7) seg_paths_dir [OF I]]])
qed

lemma partition_Append_ok:
  assumes I: "ps_inv G ps d cs cur" and free: "dk_free d = None" and L: "length p < 2 ^ 32"
    and fits: "4 + int (length p) \<le> max_size_of (ps_cfg ps)"
    and small: "ps_nextBase ps + sg_size (ps_active ps) + (4 + int (length p)) < 2 ^ 62"
    and abs: "log_append (max_size_of (ps_cfg ps)) p cs cur = (off, cs', cur')"
  obtains ps' d' where "partition_Append p ps d = (Inr off, ps', d')" "ps_inv G ps' d' cs' cur'"
    "ps_dir ps' = ps_dir ps" "ps_cfg ps' = ps_cfg ps" "only_files (dir_files (ps_dir ps)) d d'"
proof (cases "sg_size (ps_active ps) + (4 + int (length p)) \<le> max_size_of (ps_cfg ps)")
  case True
  obtain s' d' where A: "segment_Append p (ps_active ps) d = (Inr (sg_size (ps_active ps)), s', d')"
    "ps_inv G (ps\<lparr>ps_active := s'\<rparr>) d' cs (cur @ [p])" "only_files (dir_files (ps_dir ps)) d d'"
    using partition_Append_fit [OF I free L True small] .
  moreover have "(off, cs', cur') = (sg_size (ps_active ps), cs, cur @ [p])"
    using abs True seg_inv_size [OF ps_invD(1) [OF I]] by (simp add: log_append_def)
  ultimately show thesis
    by (intro that [of "ps\<lparr>ps_active := s'\<rparr>" d']) (simp_all add: partition_Append_def)
next
  case False
  note D = ps_invD [OF I]
  have full: "segment_Append p (ps_active ps) d = (Inl ErrSegmentFull, ps_active ps, d)"
    using False D(7) by (intro segment_Append_full [OF D(1) L]) simp
  have ne: "cur \<noteq> []" using False fits seg_inv_size [OF D(1)] by auto
  obtain ps1 d1 where R: "rollover ps d = (None, ps1, d1)" "ps_inv G ps1 d1 (cs @ [cur]) []"
    "ps_dir ps1 = ps_dir ps" "ps_cfg ps1 = ps_cfg ps" "only_files (dir_files (ps_dir ps)) d d1"
    using rollover_ok [OF I free ne] .
  note D1 = ps_invD [OF R(2)]
  have s1: "sg_size (ps_active ps1) = 0" using seg_inv_size [OF D1(1)] by simp
  have b1: "ps_nextBase ps1 = ps_nextBase ps + sg_size (ps_active ps)"
    using D(2) D1(2) base_of_last [of cs cur] seg_inv_size [OF D(1)] by simp
  obtain s' d' where A: "segment_Append p (ps_active ps1) d1 = (Inr (sg_size (ps_active ps1)), s', d')"
    "ps_inv G (ps1\<lparr>ps_active := s'\<rparr>) d' (cs @ [cur]) ([] @ [p])" "only_files (dir_files (ps_dir ps1)) d1 d'"
    using partition_Append_fit [OF R(2) only_files_healthy [OF R(5) free] L] fits small s1 b1 R(4) by auto
  have "(off, cs', cur') = (0, cs @ [cur], [p])"
    using abs False seg_inv_size [OF D(1)] by (simp add: log_append_def)
  moreover have "partition_Append p ps d = (Inr 0, ps1\<lparr>ps_active := s'\<rparr>, d')"
    by (simp add: partition_Append_def full R(1) A(1) s1)
  ultimately show thesis
    using A(2,3) R(3-5) by (intro that [of "ps1\<lparr>ps_active := s'\<rparr>" d']) (auto intro: only_files_trans)
qed

section \<open>Reading\<close>

lemma ps_inv_bw:
  assumes I: "ps_inv G ps d cs cur" and F: "bufio_Flush (sg_file (ps_active ps)) (sg_bw (ps_active ps)) d = (None, w, d')"
  shows "ps_inv G (ps\<lparr>ps_active := (ps_active ps)\<lparr>sg_bw := w\<rparr>\<rparr>) d' cs cur"
    "only_files (dir_files (ps_dir ps)) d d'"
proof -
  note SF = seg_flush [OF F ps_invD(1) [OF I]]
  have O: "only_files (seg_paths (ps_active ps)) d d'"
    by (rule only_file_files [OF SF(3)]) (simp add: seg_paths_def)
  show "ps_inv G (ps\<lparr>ps_active := (ps_active ps)\<lparr>sg_bw := w\<rparr>\<rparr>) d' cs cur"
    using ps_invD(3) [OF I] by (intro ps_inv_active [OF I SF(1) O]) simp_all
  show "only_files (dir_files (ps_dir ps)) d d'" by (rule only_files_mono [OF O seg_paths_dir [OF I]])
qed

lemma partition_Read_ok:
  assumes I: "ps_inv G ps d cs cur" and free: "dk_free d = None"
    and off: "0 \<le> off" "off < partition_Size ps" and n: "0 < n" "n < 2 ^ 31"
  obtains ps' d' where "partition_Read off n ps d =
      (Inr (\<lparr>rd_data = take (nat (min n (partition_Size ps - off))) (drop (nat off) (log_bytes cur)), rd_err = io_EOF\<rparr>,
         min n (partition_Size ps - off)), ps', d')" "ps_inv G ps' d' cs cur"
    "ps_dir ps' = ps_dir ps" "ps_cfg ps' = ps_cfg ps" "only_files (dir_files (ps_dir ps)) d d'"
proof -
  let ?s = "ps_active ps"
  let ?m = "min n (sg_size ?s - off)"
  note D = ps_invD [OF I]
  have sz: "sg_size ?s < 2 ^ 62" using D(1) by (simp add: seg_inv_def)
  obtain w d' where F: "bufio_Flush (sg_file ?s) (sg_bw ?s) d = (None, w, d')"
    using seg_flush_healthy [OF D(1) free] by blast
  have i: "i64 off = off" "i64 (sg_size ?s - off) = sg_size ?s - off"
    using off sz by (auto simp: partition_Size_def intro!: i64_id)
  have m: "(if sg_size ?s - off < n then i32 (sg_size ?s - off) else n) = ?m"
    using off n i32_id [of "sg_size ?s - off"] by (auto simp: partition_Size_def min_def)
  have R: "segment_Read off ?m ?s d =
      (Inr \<lparr>rd_data = take (nat ?m) (drop (nat off) (log_bytes cur)), rd_err = io_EOF\<rparr>, ?s\<lparr>sg_bw := w\<rparr>, d')"
    using off n by (intro segment_Read_window [OF D(1) F]) (auto simp: partition_Size_def)
  have "partition_Read off n ps d = (Inr (\<lparr>rd_data = take (nat ?m) (drop (nat off) (log_bytes cur)), rd_err = io_EOF\<rparr>,
         ?m), ps\<lparr>ps_active := ?s\<lparr>sg_bw := w\<rparr>\<rparr>, d')"
    using off(2) unfolding partition_Read_def Let_def i m R by (simp add: partition_Size_def)
  with ps_inv_bw [OF I F] show thesis
    by (intro that [of "ps\<lparr>ps_active := ?s\<lparr>sg_bw := w\<rparr>\<rparr>" d']) (simp_all add: partition_Size_def)
qed

lemma partition_Read_past_end:
  assumes "ps_inv G ps d cs cur" and "partition_Size ps \<le> off" and "off < 2 ^ 63"
  shows "partition_Read off n ps d = (Inl ErrInvalidOffset, ps, d)"
proof -
  have "0 \<le> off" using assms(2) ps_invD(1) [OF assms(1)] by (simp add: partition_Size_def seg_inv_def)
  then have "i64 off = off" using assms(3) by (intro i64_id) simp_all
  with assms(2) show ?thesis by (simp add: partition_Read_def partition_Size_def)
qed

text \<open>
  Any other read is refused, or, at a negative offset, hands out a reader that fails at once;
  the records stay as they are.
\<close>

lemma partition_Read_refuse:
  assumes I: "ps_inv G ps d cs cur" and free: "dk_free d = None" and bad: "i64 off < 0 \<or> n \<le> 0"
  obtains r ps' d' where "partition_Read off n ps d = (r, ps', d')" "ps_inv G ps' d' cs cur"
    "ps_dir ps' = ps_dir ps" "ps_cfg ps' = ps_cfg ps" "only_files (dir_files (ps_dir ps)) d d'"
    "\<And>rd m. r = Inr (rd, m) \<Longrightarrow> rd_data rd = [] \<and> 0 < m"
proof -
  let ?s = "ps_active ps"
  define m where "m = (if i64 (sg_size ?s - i64 off) < n then i32 (i64 (sg_size ?s - i64 off)) else n)"
  have P: "partition_Read off n ps d =
      (if sg_size ?s \<le> i64 off then (Inl ErrInvalidOffset, ps, d)
       else case segment_Read off m ?s d of
              (Inl e, s1, d1) \<Rightarrow> (Inl e, ps\<lparr>ps_active := s1\<rparr>, d1)
            | (Inr r, s1, d1) \<Rightarrow> (Inr (r, m), ps\<lparr>ps_active := s1\<rparr>, d1))"
    unfolding partition_Read_def m_def Let_def ..
  show thesis
  proof (cases "sg_size ?s \<le> i64 off \<or> m \<le> 0 \<or> sg_size ?s < i64 (i64 off + m)")
    case True
    then have "fst (partition_Read off n ps d) \<in> {Inl ErrInvalidOffset, Inl ErrInvalidSize}"
      "snd (partition_Read off n ps d) = (ps, d)"
      unfolding P segment_Read_def by auto
    then show thesis using I by (intro that [of "fst (partition_Read off n ps d)" ps d]) (auto simp: prod_eq_iff)
  next
    case False
    obtain w d' where F: "bufio_Flush (sg_file ?s) (sg_bw ?s) d = (None, w, d')"
      using seg_flush_healthy [OF ps_invD(1) [OF I] free] by blast
    have neg: "i64 off < 0"
    proof (rule ccontr)
      assume "\<not> i64 off < 0"
      then have n: "n \<le> 0" "0 \<le> i64 off" using bad by simp_all
      then have "i64 (sg_size ?s - i64 off) = sg_size ?s - i64 off"
        using False ps_invD(1) [OF I] by (intro i64_id) (auto simp: seg_inv_def)
      then show False using n False by (auto simp: m_def split: if_splits)
    qed
    have R: "partition_Read off n ps d =
        (Inr (section_reader (sg_file ?s) (i64 off) m d', m), ps\<lparr>ps_active := ?s\<lparr>sg_bw := w\<rparr>\<rparr>, d')"
      using False F by (simp add: P segment_Read_def)
    show thesis
      using ps_inv_bw [OF I F] False neg
      by (intro that [OF R]) (auto simp: section_reader_def)
  qed
qed

section \<open>The interface\<close>

definition store_append :: "bytes \<Rightarrow> partition_store \<times> disk \<Rightarrow> (goerr + int) \<times> partition_store \<times> disk" where
  "store_append p st = partition_Append p (fst st) (snd st)"

definition store_read ::
    "int \<Rightarrow> int \<Rightarrow> partition_store \<times> disk \<Rightarrow> (goerr + (go_reader \<times> int)) \<times> partition_store \<times> disk" where
  "store_read off n st = partition_Read off n (fst st) (snd st)"

definition store_holds :: "partition_store \<times> disk \<Rightarrow> bytes list \<Rightarrow> bool" where
  "store_holds st cur \<longleftrightarrow> (\<exists>G cs. ps_inv G (fst st) (snd st) cs cur) \<and> dk_free (snd st) = None"

definition store_room :: "bytes \<Rightarrow> partition_store \<times> disk \<Rightarrow> bool" where
  "store_room p st \<longleftrightarrow>
     length p < 2 ^ 32 \<and>
     partition_Size (fst st) + (4 + int (length p)) \<le> max_size_of (ps_cfg (fst st)) \<and>
     ps_nextBase (fst st) + partition_Size (fst st) + (4 + int (length p)) < 2 ^ 62"

interpretation partition: fetch_store store_append "partition_Size \<circ> fst" store_holds store_room store_read
proof unfold_locales
  fix st :: "partition_store \<times> disk" and cur and p :: bytes
  obtain ps d where st: "st = (ps, d)" by (cases st)
  assume H: "store_holds st cur"
  then obtain G cs where I: "ps_inv G ps d cs cur" and free: "dk_free d = None" by (auto simp: store_holds_def st)
  show size: "(partition_Size \<circ> fst) st = int (length (log_bytes cur))"
    using seg_inv_size [OF ps_invD(1) [OF I]] by (simp add: st partition_Size_def)
  show "\<exists>st'. store_append p st = (Inr ((partition_Size \<circ> fst) st), st') \<and> store_holds st' (cur @ [p])"
    if "store_room p st"
  proof -
    have r: "length p < 2 ^ 32" "sg_size (ps_active ps) + (4 + int (length p)) \<le> max_size_of (ps_cfg ps)"
      "ps_nextBase ps + sg_size (ps_active ps) + (4 + int (length p)) < 2 ^ 62"
      using that by (simp_all add: store_room_def st partition_Size_def)
    obtain s' d' where A: "segment_Append p (ps_active ps) d = (Inr (sg_size (ps_active ps)), s', d')"
      "ps_inv G (ps\<lparr>ps_active := s'\<rparr>) d' cs (cur @ [p])" "only_files (dir_files (ps_dir ps)) d d'"
      using partition_Append_fit [OF I free r] .
    then show ?thesis
      using only_files_healthy [OF A(3) free]
      by (auto simp: store_append_def st partition_Append_def partition_Size_def store_holds_def)
  qed
  show "\<exists>st'. store_read off n st =
        (Inr (\<lparr>rd_data = take (nat (min n ((partition_Size \<circ> fst) st - off))) (drop (nat off) (log_bytes cur)),
                rd_err = io_EOF\<rparr>, min n ((partition_Size \<circ> fst) st - off)), st') \<and> store_holds st' cur"
    if b: "0 \<le> off" "off < (partition_Size \<circ> fst) st" "0 < n" "n < 2 ^ 31" for off n
  proof -
    have b': "0 \<le> off" "off < partition_Size ps" using b by (simp_all add: st)
    from partition_Read_ok [OF I free b' b(3,4)] obtain ps' d' where R: "partition_Read off n ps d =
      (Inr (\<lparr>rd_data = take (nat (min n (partition_Size ps - off))) (drop (nat off) (log_bytes cur)), rd_err = io_EOF\<rparr>,
         min n (partition_Size ps - off)), ps', d')" "ps_inv G ps' d' cs cur" "only_files (dir_files (ps_dir ps)) d d'"
      by metis
    with only_files_healthy [OF R(3) free] show ?thesis by (auto simp: store_read_def st store_holds_def)
  qed
  show "store_read off n st = (Inl ErrInvalidOffset, st)"
    if "(partition_Size \<circ> fst) st \<le> off" "off < 2 ^ 63" for off n
    using partition_Read_past_end [OF I, of off n] that by (simp add: store_read_def st)
qed

section \<open>The cleaner\<close>

text \<open>A path whose time is over, an entry the cleaner may delete, and the two paths it deletes for it.\<close>

definition expired_path :: "(path \<Rightarrow> int) \<Rightarrow> int \<Rightarrow> disk \<Rightarrow> path \<Rightarrow> bool" where
  "expired_path dirtime cutoff d p \<longleftrightarrow>
     (case file_at d p of Some f \<Rightarrow> fl_mtime f \<le> cutoff | None \<Rightarrow> False) \<or> dir_at d p \<and> dirtime p \<le> cutoff"

definition expired_entry :: "(path \<Rightarrow> int) \<Rightarrow> string \<Rightarrow> string \<Rightarrow> int \<Rightarrow> disk \<Rightarrow> dir_entry \<Rightarrow> bool" where
  "expired_entry dirtime dir activeLogName cutoff d e \<longleftrightarrow>
     HasSuffix (de_name e) ''.log'' \<and> de_name e \<noteq> activeLogName \<and>
     expired_path dirtime cutoff d (file_path dir (de_name e))"

definition entry_files :: "string \<Rightarrow> dir_entry \<Rightarrow> path set" where
  "entry_files dir e =
     {file_path dir (de_name e), file_path dir (take (length (de_name e) - 4) (de_name e) @ ''.index'')}"

text \<open>
  All that has happened is that some of the paths in \<open>P\<close> are gone; a directory only if it has
  no entries.
\<close>

definition only_removed :: "path set \<Rightarrow> disk \<Rightarrow> disk \<Rightarrow> bool" where
  "only_removed P d d' \<longleftrightarrow>
     (\<forall>q. file_at d' q = file_at d q \<or> q \<in> P \<and> file_at d' q = None) \<and>
     set (dk_dirs d') \<subseteq> set (dk_dirs d) \<and>
     (\<forall>x \<in> set (dk_dirs d). x \<notin> set (dk_dirs d') \<longrightarrow> (\<exists>p \<in> P. subdir_at p x) \<and> dir_entries x d' = []) \<and>
     dk_denied d' = dk_denied d \<and> dk_free d' = dk_free d \<and> dk_now d' = dk_now d"

lemma only_removedD:
  assumes "only_removed P d d'"
  shows "file_at d' q = file_at d q \<or> q \<in> P \<and> file_at d' q = None" "set (dk_dirs d') \<subseteq> set (dk_dirs d)"
    "x \<in> set (dk_dirs d) \<Longrightarrow> x \<notin> set (dk_dirs d') \<Longrightarrow> (\<exists>p \<in> P. subdir_at p x) \<and> dir_entries x d' = []"
    "dk_denied d' = dk_denied d" "dk_free d' = dk_free d" "dk_now d' = dk_now d"
  using assms unfolding only_removed_def by blast+

lemma only_removed_refl [simp]: "only_removed P d d"
  by (simp add: only_removed_def)

lemma only_removed_mono: "only_removed P d d' \<Longrightarrow> P \<subseteq> Q \<Longrightarrow> only_removed Q d d'"
  unfolding only_removed_def by blast

lemma only_removed_None: "only_removed P d d' \<Longrightarrow> file_at d q = None \<Longrightarrow> file_at d' q = None"
  unfolding only_removed_def by metis

lemma only_removed_keep: "only_removed P d d' \<Longrightarrow> q \<notin> P \<Longrightarrow> file_at d' q = file_at d q"
  unfolding only_removed_def by metis

lemma only_removed_empty: "only_removed P d d' \<Longrightarrow> dir_entries x d = [] \<Longrightarrow> dir_entries x d' = []"
  unfolding dir_entries_Nil using only_removed_None only_removedD(2) by (meson subsetD)

lemma only_removed_trans:
  assumes P: "only_removed P d d'" and Q: "only_removed Q d' d''"
  shows "only_removed (P \<union> Q) d d''"
proof -
  have "file_at d'' q = file_at d q \<or> q \<in> P \<union> Q \<and> file_at d'' q = None" for q
    using only_removedD(1) [OF P, of q] only_removedD(1) [OF Q, of q] by auto
  moreover have "(\<exists>p \<in> P \<union> Q. subdir_at p x) \<and> dir_entries x d'' = []"
    if "x \<in> set (dk_dirs d)" "x \<notin> set (dk_dirs d'')" for x
    using only_removedD(3) [OF P that(1)] only_removedD(3) [OF Q _ that(2)] only_removed_empty [OF Q, of x] by blast
  ultimately show ?thesis
    using only_removedD(2,4-6) [OF P] only_removedD(2,4-6) [OF Q] unfolding only_removed_def by auto
qed

lemma os_Remove_only:
  assumes "os_Remove p d = (e, d')"
  shows "only_removed {p} d d'"
proof -
  let ?d = "d\<lparr>dk_dirs := filter (\<lambda>x. \<not> subdir_at p x) (dk_dirs d)\<rparr>"
  have files: "file_at ?d q = file_at d q" for q by (simp add: file_at_def)
  have "dir_entries x d = [] \<Longrightarrow> dir_entries x ?d = []" for x by (simp add: dir_entries_Nil files)
  then have "only_removed {p} d ?d"
    if "\<not> (\<exists>x \<in> set (dk_dirs d). subdir_at p x \<and> dir_entries x d \<noteq> [])"
    using that by (auto simp: only_removed_def files)
  moreover have "only_removed {p} d (d\<lparr>dk_files := AList.delete p (dk_files d)\<rparr>)" by (simp add: only_removed_def)
  ultimately show ?thesis using assms by (auto simp: os_Remove_def split: if_splits)
qed

lemma os_Remove_gone:
  "os_Remove p d = (e, d') \<Longrightarrow> p \<notin> set (dk_denied d) \<Longrightarrow> file_at d' p = None"
  by (auto simp: os_Remove_def file_at_def delete_conv' split: if_splits)

lemma expired_path_before:
  assumes "only_removed P d d'" and "expired_path dirtime cutoff d' p"
  shows "expired_path dirtime cutoff d p"
proof -
  have "dir_at d' p \<Longrightarrow> dir_at d p" using only_removedD(2) [OF assms(1)] by (auto simp: dir_at_def)
  then show ?thesis
    using assms(2) only_removedD(1) [OF assms(1), of p] by (auto simp: expired_path_def split: option.splits)
qed

lemma expired_entry_before:
  "only_removed P d d' \<Longrightarrow> expired_entry dirtime dir act cutoff d' e \<Longrightarrow> expired_entry dirtime dir act cutoff d e"
  unfolding expired_entry_def using expired_path_before by blast

text \<open>One entry: it is passed over, or its two paths go.\<close>

lemma clean_entry_cases:
  assumes "clean_entry dirtime dir act cutoff e (n, d) = (n', d')"
  obtains "d' = d" "\<And>f. HasSuffix (de_name e) ''.log'' \<Longrightarrow> de_name e \<noteq> act \<Longrightarrow>
      file_at d (file_path dir (de_name e)) = Some f \<Longrightarrow> cutoff < fl_mtime f"
  | r1 d1 r2 d2 where "expired_entry dirtime dir act cutoff d e" "os_Remove (file_path dir (de_name e)) d = (r1, d1)"
      "os_Remove (file_path dir (take (length (de_name e) - 4) (de_name e) @ ''.index'')) d1 = (r2, d2)"
      "d' = d1 \<or> d' = d2"
proof (cases "HasSuffix (de_name e) ''.log'' \<and> de_name e \<noteq> act")
  case name: True
  let ?p = "file_path dir (de_name e)"
  obtain r1 d1 where R1: "os_Remove ?p d = (r1, d1)" by fastforce
  obtain r2 d2 where R2: "os_Remove (file_path dir (take (length (de_name e) - 4) (de_name e) @ ''.index'')) d1 = (r2, d2)"
    by fastforce
  show thesis
  proof (cases "entry_ModTime dirtime ?p d")
    case (Inl err)
    then show thesis
      using assms name by (intro that(1)) (auto simp: clean_entry_def Let_def entry_ModTime_def split: option.splits)
  next
    case (Inr t)
    show thesis
    proof (cases "cutoff < t")
      case True
      then show thesis
        using assms name Inr by (intro that(1)) (auto simp: clean_entry_def Let_def entry_ModTime_def split: option.splits)
    next
      case False
      have "expired_path dirtime cutoff d ?p"
        using False Inr by (auto simp: expired_path_def entry_ModTime_def split: option.splits if_splits)
      moreover have "d' = d1 \<or> d' = d2"
        using assms name Inr False R1 R2 by (simp add: clean_entry_def Let_def split: if_splits)
      ultimately show thesis using name R1 R2 by (intro that(2)) (simp_all add: expired_entry_def)
    qed
  qed
next
  case False
  then show thesis using assms by (intro that(1)) (auto simp: clean_entry_def Let_def)
qed

lemma clean_entry_effect:
  assumes "clean_entry dirtime dir act cutoff e (n, d) = (n', d')"
  shows "only_removed (if expired_entry dirtime dir act cutoff d e then entry_files dir e else {}) d d'"
  using assms
proof (cases rule: clean_entry_cases)
  case (2 r1 d1 r2 d2)
  have O1: "only_removed (entry_files dir e) d d1"
    by (rule only_removed_mono [OF os_Remove_only [OF 2(2)]]) (simp add: entry_files_def)
  have O2: "only_removed (entry_files dir e) d1 d2"
    by (rule only_removed_mono [OF os_Remove_only [OF 2(3)]]) (simp add: entry_files_def)
  show ?thesis using 2(1,4) O1 only_removed_trans [OF O1 O2] by auto
qed simp

lemma clean_entry_removes:
  assumes "clean_entry dirtime dir act cutoff e (n, d) = (n', d')" and "HasSuffix (de_name e) ''.log''" "de_name e \<noteq> act"
    and "file_at d (file_path dir (de_name e)) = Some f" "fl_mtime f \<le> cutoff"
    and "file_path dir (de_name e) \<notin> set (dk_denied d)"
  shows "file_at d' (file_path dir (de_name e)) = None"
  using assms(1)
proof (cases rule: clean_entry_cases)
  case 1
  then show ?thesis using assms(2-5) by fastforce
next
  case (2 r1 d1 r2 d2)
  have g1: "file_at d1 (file_path dir (de_name e)) = None" by (rule os_Remove_gone [OF 2(2) assms(6)])
  then have "file_at d2 (file_path dir (de_name e)) = None" by (rule only_removed_None [OF os_Remove_only [OF 2(3)]])
  then show ?thesis using 2(4) g1 by auto
qed

lemma clean_fold:
  assumes "fold (clean_entry dirtime dir act cutoff) es (n, d) = (n', d')"
  shows "only_removed (\<Union>e \<in> {e \<in> set es. expired_entry dirtime dir act cutoff d e}. entry_files dir e) d d'"
  using assms
proof (induction es arbitrary: n d)
  case (Cons e es)
  obtain n1 d1 where E: "clean_entry dirtime dir act cutoff e (n, d) = (n1, d1)" by fastforce
  note O = clean_entry_effect [OF E]
  have "only_removed ((if expired_entry dirtime dir act cutoff d e then entry_files dir e else {}) \<union>
      (\<Union>e \<in> {e \<in> set es. expired_entry dirtime dir act cutoff d1 e}. entry_files dir e)) d d'"
    using only_removed_trans [OF O Cons.IH] Cons.prems E by simp
  then show ?case by (rule only_removed_mono) (use expired_entry_before [OF O] in auto)
qed simp

lemma clean_fold_removes:
  assumes "fold (clean_entry dirtime dir act cutoff) es (n, d) = (n', d')" and "e \<in> set es"
    and "HasSuffix (de_name e) ''.log''" "de_name e \<noteq> act"
    and "file_at d (file_path dir (de_name e)) = Some f" "fl_mtime f \<le> cutoff"
    and "\<forall>p \<in> set (dk_denied d). fst p \<noteq> filepath_Clean dir"
  shows "file_at d' (file_path dir (de_name e)) = None"
  using assms
proof (induction es arbitrary: n d)
  case (Cons x es)
  let ?p = "file_path dir (de_name e)"
  obtain n1 d1 where E: "clean_entry dirtime dir act cutoff x (n, d) = (n1, d1)" by fastforce
  note O = clean_entry_effect [OF E]
  have rest: "fold (clean_entry dirtime dir act cutoff) es (n1, d1) = (n', d')" using Cons.prems(1) E by simp
  show ?case
  proof (cases "file_at d1 ?p = None")
    case True
    then show ?thesis by (rule only_removed_None [OF clean_fold [OF rest]])
  next
    case False
    then have f: "file_at d1 ?p = Some f" using only_removedD(1) [OF O, of ?p] Cons.prems(5) by auto
    have "?p \<notin> set (dk_denied d)" using Cons.prems(7) by (auto simp: file_path_def)
    then have "x \<noteq> e" using clean_entry_removes [OF E] False Cons.prems(3-6) by auto
    then have "e \<in> set es" using Cons.prems(2) by simp
    then show ?thesis
      using Cons.IH [OF rest _ Cons.prems(3,4) f Cons.prems(6)] Cons.prems(7) only_removedD(4) [OF O] by simp
  qed
qed simp

text \<open>The files of the active segment are not among the deleted ones.\<close>

lemma suffix_differ: "xs @ ''.index'' \<noteq> ys @ ''.log''" "ys @ ''.log'' \<noteq> xs @ ''.index''"
proof -
  have "last (xs @ ''.index'') \<noteq> last (ys @ ''.log'')" by simp
  then show "xs @ ''.index'' \<noteq> ys @ ''.log''" "ys @ ''.log'' \<noteq> xs @ ''.index''" by fastforce+
qed

lemma log_entry_stem:
  assumes "HasSuffix (de_name e) ''.log''"
  obtains stem where "de_name e = stem @ ''.log''"
    "entry_files dir e = {file_path dir (stem @ ''.log''), file_path dir (stem @ ''.index'')}"
proof -
  obtain stem where "de_name e = stem @ ''.log''"
    using assms unfolding HasSuffix_def by (metis append_take_drop_id)
  then show thesis by (intro that) (simp_all add: entry_files_def)
qed

lemma entry_not_active:
  assumes "HasSuffix (de_name e) ''.log''" and "de_name e \<noteq> pad20 base @ ''.log''"
  shows "log_path dir base \<notin> entry_files dir e" "index_path dir base \<notin> entry_files dir e"
proof -
  obtain stem where e: "de_name e = stem @ ''.log''"
    "entry_files dir e = {file_path dir (stem @ ''.log''), file_path dir (stem @ ''.index'')}"
    using log_entry_stem [OF assms(1)] .
  then have "stem \<noteq> pad20 base" using assms(2) by auto
  then show "log_path dir base \<notin> entry_files dir e" "index_path dir base \<notin> entry_files dir e"
    using suffix_differ [of stem "pad20 base"] suffix_differ [of "pad20 base" stem]
    by (simp_all add: e log_path_def index_path_def file_path_def)
qed

lemma entry_log_file:
  assumes "HasSuffix (de_name e) ''.log''" and "log_path dir b \<in> entry_files dir e"
  shows "log_path dir b = file_path dir (de_name e)"
proof -
  obtain stem where "de_name e = stem @ ''.log''"
    "entry_files dir e = {file_path dir (stem @ ''.log''), file_path dir (stem @ ''.index'')}"
    using log_entry_stem [OF assms(1)] .
  then show ?thesis using assms(2) suffix_differ [of stem "pad20 b"] by (auto simp: log_path_def file_path_def)
qed

text \<open>
  Removing paths other than those of the active segment keeps the invariant; the closed
  segments among them count as gone.
\<close>

lemma ps_inv_mono: "ps_inv G ps d cs cur \<Longrightarrow> G \<subseteq> H \<Longrightarrow> ps_inv H ps d cs cur"
  unfolding ps_inv_def by blast

lemma ps_inv_removed:
  assumes I: "ps_inv G ps d cs cur" and O: "only_removed P d d'"
    and A: "log_path (ps_dir ps) (ps_nextBase ps) \<notin> P" "index_path (ps_dir ps) (ps_nextBase ps) \<notin> P"
    and R: "\<And>b. 0 \<le> b \<Longrightarrow> b < ps_nextBase ps \<Longrightarrow> log_path (ps_dir ps) b \<in> P \<Longrightarrow> log_path (ps_dir ps) b \<in> R"
  shows "ps_inv (G \<union> R) ps d' cs cur"
proof -
  let ?dir = "ps_dir ps" and ?n = "ps_nextBase ps"
  note D = ps_invD [OF I]
  have S: "seg_inv (ps_active ps) d' cur"
    by (rule seg_inv_same [OF D(1)]) (simp_all add: D(4,5) A only_removed_keep [OF O])
  then have "file_at d' (log_path ?dir ?n) \<noteq> None" using D(4) by (simp add: seg_inv_def backed_def)
  then have "dir_entries (filepath_Clean ?dir) d' \<noteq> []"
    unfolding dir_entries_Nil by (auto simp: log_path_def file_path_def)
  then have "writable_dir ?dir d'"
    using D(8) only_removedD(3) [OF O, of "filepath_Clean ?dir"] only_removedD(4) [OF O] unfolding writable_dir_def by auto
  moreover have "content d' (log_path ?dir (base_of cs i)) = log_bytes (cs ! i)"
    if "i < length cs" "log_path ?dir (base_of cs i) \<notin> G \<union> R" for i
  proof -
    have "base_of cs i < ?n" using base_of_less [OF that(1) D(9) [OF that(1)]] D(2) by simp
    then have "log_path ?dir (base_of cs i) \<notin> P" using R [of "base_of cs i"] that(2) base_of_range(1) [OF I] by auto
    then show ?thesis using D(10) [OF that(1)] that(2) by (simp add: content_def only_removed_keep [OF O])
  qed
  moreover have "content d q = [] \<Longrightarrow> content d' q = []" for q
    using only_removedD(1) [OF O, of q] by (auto simp: content_def)
  ultimately show ?thesis using S D unfolding ps_inv_def by auto
qed

lemma clean_entry_inv:
  assumes I: "ps_inv G ps d cs cur" and E: "clean_entry dirtime (ps_dir ps) act cutoff e (n, d) = (n', d')"
    and A: "de_name e \<noteq> pad20 (ps_nextBase ps) @ ''.log'' \<or> act = pad20 (ps_nextBase ps) @ ''.log''"
  shows "ps_inv (G \<union> {file_path (ps_dir ps) (de_name e)}) ps d' cs cur"
proof (cases "expired_entry dirtime (ps_dir ps) act cutoff d e")
  case True
  then have e: "HasSuffix (de_name e) ''.log''" "de_name e \<noteq> pad20 (ps_nextBase ps) @ ''.log''"
    using A by (auto simp: expired_entry_def)
  have O: "only_removed (entry_files (ps_dir ps) e) d d'" using clean_entry_effect [OF E] True by simp
  show ?thesis
    by (rule ps_inv_removed [OF I O entry_not_active [OF e]]) (use entry_log_file [OF e(1)] in simp)
next
  case False
  then have "only_removed {} d d'" using clean_entry_effect [OF E] by simp
  from ps_inv_removed [OF I this, of "{file_path (ps_dir ps) (de_name e)}"] show ?thesis by simp
qed

text \<open>The closed segments whose time is over.\<close>

definition closed_expired :: "(path \<Rightarrow> int) \<Rightarrow> int \<Rightarrow> partition_store \<Rightarrow> disk \<Rightarrow> path set" where
  "closed_expired dirtime cutoff ps d =
     {log_path (ps_dir ps) b | b. 0 \<le> b \<and> b < ps_nextBase ps \<and> expired_path dirtime cutoff d (log_path (ps_dir ps) b)}"

lemma clean_round:
  assumes I: "ps_inv G ps d cs cur" and C: "CleanOldSegments dirtime retention ps d = (res, d')"
  shows "only_removed (\<Union>e \<in> {e \<in> set (dir_entries (ps_dir ps) d). expired_entry dirtime (ps_dir ps)
      (pad20 (sg_baseOffset (ps_active ps)) @ ''.log'') (dk_now d - retention) d e}. entry_files (ps_dir ps) e) d d'"
    (is "only_removed ?P d d'")
    and "ps_inv (G \<union> closed_expired dirtime (dk_now d - retention) ps d) ps d' cs cur"
proof -
  let ?act = "pad20 (sg_baseOffset (ps_active ps)) @ ''.log''" and ?cut = "dk_now d - retention" and ?dir = "ps_dir ps"
  note D = ps_invD [OF I]
  obtain es where R: "os_ReadDir ?dir d = Inr es" using D(8) by (simp add: os_ReadDir_def writable_dir_def)
  obtain n d2 where F: "fold (clean_entry dirtime ?dir ?act ?cut) es (0, d) = (n, d2)" by fastforce
  then have "d' = d2" using C R by (simp add: CleanOldSegments_def Let_def)
  then show O: "only_removed ?P d d'" using clean_fold [OF F] os_ReadDir_names [OF R] by simp
  show "ps_inv (G \<union> closed_expired dirtime ?cut ps d) ps d' cs cur"
  proof (rule ps_inv_removed [OF I O])
    show "log_path ?dir (ps_nextBase ps) \<notin> ?P" "index_path ?dir (ps_nextBase ps) \<notin> ?P"
      using entry_not_active D(6) by (auto simp: expired_entry_def)
    fix b assume "0 \<le> b" "b < ps_nextBase ps" "log_path ?dir b \<in> ?P"
    then show "log_path ?dir b \<in> closed_expired dirtime ?cut ps d"
      using entry_log_file [of _ ?dir b] by (fastforce simp: expired_entry_def closed_expired_def)
  qed
qed

end
