(* ===== verification/Partition_Laws.thy ===== *)
theory Partition_Laws
  imports Partition_Store
begin

text \<open>
  The properties of the partition store: it refines a list of closed segments and a current
  one over any sequence of appends, reads back what it stored, the cleaner is safe and
  complete, and what a restart does to a store that has rolled over.
\<close>

section \<open>Sequences of appends\<close>

primrec partition_appends :: "bytes list \<Rightarrow> partition_store \<Rightarrow> disk \<Rightarrow> (goerr + int list) \<times> partition_store \<times> disk" where
  "partition_appends [] ps d = (Inr [], ps, d)"
| "partition_appends (p # qs) ps d =
     (case partition_Append p ps d of
        (Inl e, ps1, d1) \<Rightarrow> (Inl e, ps1, d1)
      | (Inr off, ps1, d1) \<Rightarrow>
          (case partition_appends qs ps1 d1 of
             (Inl e, ps2, d2) \<Rightarrow> (Inl e, ps2, d2)
           | (Inr offs, ps2, d2) \<Rightarrow> (Inr (off # offs), ps2, d2)))"

primrec log_appends :: "int \<Rightarrow> bytes list \<Rightarrow> bytes list list \<Rightarrow> bytes list \<Rightarrow> int list \<times> bytes list list \<times> bytes list" where
  "log_appends maxSize [] cs cur = ([], cs, cur)"
| "log_appends maxSize (p # qs) cs cur =
     (case log_append maxSize p cs cur of
        (off, cs1, cur1) \<Rightarrow>
          (case log_appends maxSize qs cs1 cur1 of (offs, cs2, cur2) \<Rightarrow> (off # offs, cs2, cur2)))"

text \<open>Appending keeps every record, in order, and keeps every segment within its limit.\<close>

lemma log_append_records:
  assumes "log_append maxSize p cs cur = (off, cs', cur')"
  shows "concat cs' @ cur' = concat cs @ cur @ [p]"
    "4 + int (length p) \<le> maxSize \<Longrightarrow> int (length (log_bytes cur)) \<le> maxSize \<Longrightarrow>
       \<forall>c \<in> set cs. int (length (log_bytes c)) \<le> maxSize \<Longrightarrow>
       int (length (log_bytes cur')) \<le> maxSize \<and> (\<forall>c \<in> set cs'. int (length (log_bytes c)) \<le> maxSize)"
  using assms by (auto simp: log_append_def split: if_splits)

lemma log_appends_records:
  "log_appends maxSize qs cs cur = (offs, cs', cur') \<Longrightarrow> concat cs' @ cur' = concat cs @ cur @ qs"
proof (induction qs arbitrary: cs cur offs)
  case (Cons p qs)
  obtain off cs1 cur1 where A: "log_append maxSize p cs cur = (off, cs1, cur1)" by (rule prod_cases3)
  obtain offs2 where "log_appends maxSize qs cs1 cur1 = (offs2, cs', cur')"
    using Cons.prems A by (auto split: prod.splits)
  from Cons.IH [OF this] log_append_records(1) [OF A] show ?case by (metis append.assoc append_Cons append_Nil)
qed simp

lemma log_appends_bounded:
  "log_appends maxSize qs cs cur = (offs, cs', cur') \<Longrightarrow> list_all (\<lambda>p. 4 + int (length p) \<le> maxSize) qs \<Longrightarrow>
   int (length (log_bytes cur)) \<le> maxSize \<Longrightarrow> \<forall>c \<in> set cs. int (length (log_bytes c)) \<le> maxSize \<Longrightarrow>
   int (length (log_bytes cur')) \<le> maxSize \<and> (\<forall>c \<in> set cs'. int (length (log_bytes c)) \<le> maxSize)"
proof (induction qs arbitrary: cs cur offs)
  case (Cons p qs)
  obtain off cs1 cur1 where A: "log_append maxSize p cs cur = (off, cs1, cur1)" by (rule prod_cases3)
  obtain offs2 where L: "log_appends maxSize qs cs1 cur1 = (offs2, cs', cur')"
    using Cons.prems(1) A by (auto split: prod.splits)
  have "int (length (log_bytes cur1)) \<le> maxSize \<and> (\<forall>c \<in> set cs1. int (length (log_bytes c)) \<le> maxSize)"
    using log_append_records(2) [OF A] Cons.prems(2-4) by simp
  with Cons.IH [OF L] Cons.prems(2) show ?case by simp
qed simp

lemma ps_inv_total: "ps_inv G ps d cs cur \<Longrightarrow>
    ps_nextBase ps + sg_size (ps_active ps) = int (length (log_bytes (concat cs @ cur)))"
  using ps_invD(1,2) [of G ps d cs cur] seg_inv_size [of "ps_active ps" d cur] by (simp add: base_of_def)

lemma partition_appends_ok:
  assumes "ps_inv G ps d cs cur" and "dk_free d = None"
    and "list_all (\<lambda>p. length p < 2 ^ 32 \<and> 4 + int (length p) \<le> max_size_of (ps_cfg ps)) qs"
    and "int (length (log_bytes (concat cs @ cur @ qs))) < 2 ^ 62"
    and "log_appends (max_size_of (ps_cfg ps)) qs cs cur = (offs, cs', cur')"
  shows "\<exists>ps' d'. partition_appends qs ps d = (Inr offs, ps', d') \<and> ps_inv G ps' d' cs' cur' \<and> dk_free d' = None \<and>
    ps_dir ps' = ps_dir ps \<and> ps_cfg ps' = ps_cfg ps"
  using assms
proof (induction qs arbitrary: ps d cs cur offs)
  case (Cons p qs)
  let ?max = "max_size_of (ps_cfg ps)"
  obtain off cs1 cur1 where A: "log_append ?max p cs cur = (off, cs1, cur1)" by (rule prod_cases3)
  obtain offs2 where L: "log_appends ?max qs cs1 cur1 = (offs2, cs', cur')" and offs: "offs = off # offs2"
    using Cons.prems(5) A by (auto split: prod.splits)
  have small: "ps_nextBase ps + sg_size (ps_active ps) + (4 + int (length p)) < 2 ^ 62"
    using Cons.prems(4) ps_inv_total [OF Cons.prems(1)] by simp
  have lp: "length p < 2 ^ 32" "4 + int (length p) \<le> ?max" using Cons.prems(3) by simp_all
  obtain ps1 d1 where P: "partition_Append p ps d = (Inr off, ps1, d1)" "ps_inv G ps1 d1 cs1 cur1"
    "ps_cfg ps1 = ps_cfg ps" "only_files (dir_files (ps_dir ps)) d d1" "ps_dir ps1 = ps_dir ps"
    using partition_Append_ok [OF Cons.prems(1,2) lp small A] by metis
  have "int (length (log_bytes (concat cs1 @ cur1 @ qs))) < 2 ^ 62"
    using Cons.prems(4) log_append_records(1) [OF A] by (metis append.assoc append_Cons append_Nil)
  then obtain ps2 d2 where "partition_appends qs ps1 d1 = (Inr offs2, ps2, d2)" "ps_inv G ps2 d2 cs' cur'" "dk_free d2 = None"
    "ps_dir ps2 = ps_dir ps" "ps_cfg ps2 = ps_cfg ps"
    using Cons.IH [OF P(2) only_files_healthy [OF P(4) Cons.prems(2)], of offs2] Cons.prems(3) L P(3,5) by auto
  then show ?case using P(1) offs by simp
qed simp

section \<open>Restarting\<close>

lemma partition_Close_ok:
  assumes I: "ps_inv G ps d cs cur" and free: "dk_free d = None"
  obtains ps1 d1 where "partition_Close ps d = (None, ps1, d1)"
    "content d1 (log_path (ps_dir ps) (ps_nextBase ps)) = log_bytes cur"
    "content d1 (index_path (ps_dir ps) (ps_nextBase ps)) = concat (map entry_bytes (ix_entries (sg_idx (ps_active ps))))"
    "only_files (seg_paths (ps_active ps)) d d1"
proof -
  note D = ps_invD [OF I]
  obtain s1 d1 where C: "segment_Close (ps_active ps) d = (None, s1, d1)"
    using segment_Close_healthy [OF D(1) free] by blast
  with segment_Close_ok [OF C D(1)] show thesis
    by (intro that [of "ps\<lparr>ps_active := s1\<rparr>" d1]) (simp_all add: partition_Close_def D(4,5))
qed

text \<open>A store that has not rolled over comes back as it was.\<close>

lemma OpenPartitionStore_ok:
  assumes W: "writable_dir dir d" and M: "max_size_of cfg < 2 ^ 62"
    and L: "content d (log_path dir 0) = log_bytes cur" "list_all (\<lambda>p. length p < 2 ^ 32) cur" "length (log_bytes cur) < 2 ^ 62"
    and X: "content d (index_path dir 0) = concat (map entry_bytes es)" "entries_ok cur es"
    and free: "\<And>b. 0 < b \<Longrightarrow> b < 2 ^ 64 \<Longrightarrow> content d (log_path dir b) = [] \<and> content d (index_path dir b) = []"
  obtains ps d' where "OpenPartitionStore dir cfg d = (Inr ps, d')" "ps_inv G ps d' [] cur"
    "ps_dir ps = dir" "ps_cfg ps = cfg" "ix_entries (sg_idx (ps_active ps)) = es" "only_files (dir_files dir) d d'"
proof -
  from OpenSegment_ok [OF writable_openable [OF W] L X M] obtain s d' where
    S: "OpenSegment dir 0 cfg d = (Inr s, d')" "seg_inv s d' cur" "ix_entries (sg_idx s) = es" "sg_baseOffset s = 0"
    "sg_maxSize s = max_size_of cfg" "of_path (sg_file s) = log_path dir 0"
    "of_path (ix_file (sg_idx s)) = index_path dir 0" and O: "only_files {log_path dir 0, index_path dir 0} d d'"
    by metis
  let ?ps = "\<lparr>ps_dir = dir, ps_cfg = cfg, ps_active = s, ps_nextBase = 0\<rparr>"
  have "content d' (log_path dir b) = [] \<and> content d' (index_path dir b) = []" if "0 < b" "b < 2 ^ 64" for b
    using free [OF that] that log_path_inj [of b 0 dir] only_files_content [OF O, of "log_path dir b"]
      only_files_content [OF O, of "index_path dir b"] by simp
  then have "ps_inv G ?ps d' [] cur"
    using S seg_inv_size [OF S(2)] L(3) writable_only_files [OF O W] by (simp add: ps_inv_def base_of_def)
  moreover have "only_files (dir_files dir) d d'" by (rule only_files_mono [OF O]) (simp add: dir_files_def)
  ultimately show thesis
    using S by (intro that [of ?ps d']) (simp_all add: OpenPartitionStore_def)
qed

lemma OpenPartitionStore_fresh:
  assumes "writable_dir dir d" and "max_size_of cfg < 2 ^ 62"
    and E: "\<And>b. content d (log_path dir b) = []" "\<And>b. content d (index_path dir b) = []"
  obtains ps d' where "OpenPartitionStore dir cfg d = (Inr ps, d')" "ps_inv G ps d' [] []"
    "ps_dir ps = dir" "ps_cfg ps = cfg" "only_files (dir_files dir) d d'"
proof -
  have "content d (log_path dir 0) = log_bytes []" "list_all (\<lambda>p. length p < 2 ^ 32) ([] :: bytes list)"
    "length (log_bytes []) < 2 ^ 62" "content d (index_path dir 0) = concat (map entry_bytes [])" "entries_ok [] []"
    using E by (simp_all add: entries_ok_def sorted_entries_def)
  from OpenPartitionStore_ok [OF assms(1,2) this] E that show thesis by metis
qed

lemma partition_reopen_ok:
  assumes I: "ps_inv G ps d [] cur" and free: "dk_free d = None"
  obtains ps1 d1 ps2 d2 where "partition_Close ps d = (None, ps1, d1)"
    "OpenPartitionStore (ps_dir ps) (ps_cfg ps) d1 = (Inr ps2, d2)" "ps_inv G ps2 d2 [] cur" "ps_dir ps2 = ps_dir ps"
    "ix_entries (sg_idx (ps_active ps2)) = ix_entries (sg_idx (ps_active ps))"
proof -
  note D = ps_invD [OF I]
  have n0: "ps_nextBase ps = 0" using D(2) by (simp add: base_of_def)
  obtain ps1 d1 where C: "partition_Close ps d = (None, ps1, d1)"
    "content d1 (log_path (ps_dir ps) 0) = log_bytes cur"
    "content d1 (index_path (ps_dir ps) 0) = concat (map entry_bytes (ix_entries (sg_idx (ps_active ps))))"
    and O: "only_files (seg_paths (ps_active ps)) d d1"
    using partition_Close_ok [OF I free] unfolding n0 by metis
  have W: "writable_dir (ps_dir ps) d1" by (rule writable_only_files [OF O D(8)])
  have M: "max_size_of (ps_cfg ps) < 2 ^ 62" using D(1,7) by (simp add: seg_inv_def)
  have E: "list_all (\<lambda>p. length p < 2 ^ 32) cur" "length (log_bytes cur) < 2 ^ 62"
    "entries_ok cur (ix_entries (sg_idx (ps_active ps)))" using D(1) by (simp_all add: seg_inv_def)
  have "content d1 (log_path (ps_dir ps) b) = [] \<and> content d1 (index_path (ps_dir ps) b) = []"
    if "0 < b" "b < 2 ^ 64" for b
    using D(11,12) [of b] that n0 log_path_inj [of b 0 "ps_dir ps"] only_files_content [OF O]
    by (simp add: seg_paths_def D(4,5))
  from OpenPartitionStore_ok [OF W M C(2) E(1,2) C(3) E(3) this] C(1) that show thesis by metis
qed

lemma reopen_rolled_over:
  assumes "ps_inv {} ps d (c # cs) cur" and "dk_free d = None"
  obtains ps1 d1 s d2 where "partition_Close ps d = (None, ps1, d1)"
    "OpenPartitionStore (ps_dir ps) (ps_cfg ps) d1 =
       (Inr \<lparr>ps_dir = ps_dir ps, ps_cfg = ps_cfg ps, ps_active = s, ps_nextBase = 0\<rparr>, d2)"
    "sg_size s = int (length (log_bytes c))" "sg_maxSize s = max_size_of (ps_cfg ps)"
    "of_path (sg_file s) = log_path (ps_dir ps) 0" "writable_dir (ps_dir ps) d2"
    "\<And>i. i < length (c # cs) \<Longrightarrow> content d2 (log_path (ps_dir ps) (base_of (c # cs) i)) = log_bytes ((c # cs) ! i)"
    "\<And>x. \<exists>s'. segment_Close s x = (None, s', x)"
proof -
  note D = ps_invD [OF assms(1)] and R = base_of_range [OF assms(1)]
  have b0: "base_of (c # cs) 0 = 0" by (simp add: base_of_def)
  obtain ps1 d1 where C: "partition_Close ps d = (None, ps1, d1)" and O: "only_files (seg_paths (ps_active ps)) d d1"
    using partition_Close_ok [OF assms] by metis
  have C1: "content d1 (log_path (ps_dir ps) (base_of (c # cs) i)) = log_bytes ((c # cs) ! i)"
    if i: "i < length (c # cs)" for i
  proof -
    have "base_of (c # cs) i < ps_nextBase ps" using base_of_less [OF i D(9) [OF i]] D(2) by simp
    then have "log_path (ps_dir ps) (base_of (c # cs) i) \<notin> seg_paths (ps_active ps)"
      using R(1) [of i] R(4) log_path_inj [of "base_of (c # cs) i" "ps_nextBase ps" "ps_dir ps"]
      by (simp add: seg_paths_def D(4,5))
    then show ?thesis using only_files_content [OF O] D(10) [OF i] by simp
  qed
  have W: "writable_dir (ps_dir ps) d1" by (rule writable_only_files [OF O D(8)])
  obtain s d2 where S: "OpenSegment (ps_dir ps) 0 (ps_cfg ps) d1 = (Inr s, d2)"
    "sg_size s = int (length (content d1 (log_path (ps_dir ps) 0)))" "sg_maxSize s = max_size_of (ps_cfg ps)"
    "content d2 (log_path (ps_dir ps) 0) = content d1 (log_path (ps_dir ps) 0)"
    "of_path (sg_file s) = log_path (ps_dir ps) 0"
    "only_files {log_path (ps_dir ps) 0, index_path (ps_dir ps) 0} d1 d2" "\<And>x. \<exists>s'. segment_Close s x = (None, s', x)"
    using OpenSegment_opens [OF writable_openable [OF W]] by metis
  have C2: "content d2 (log_path (ps_dir ps) (base_of (c # cs) i)) = log_bytes ((c # cs) ! i)"
    if i: "i < length (c # cs)" for i
    using only_files_content [OF S(6), of "log_path (ps_dir ps) (base_of (c # cs) i)"] C1 [OF i] S(4)
      R(1,2) [of i] R(4) i log_path_inj [of "base_of (c # cs) i" 0 "ps_dir ps"]
    by (cases "base_of (c # cs) i = 0") simp_all
  from S C1 [of 0] b0 have "sg_size s = int (length (log_bytes c))" by simp
  from C this S(1,3,5,7) C2 writable_only_files [OF S(6) W] show thesis
    by (intro that [of ps1 d1 s d2]) (simp_all add: OpenPartitionStore_def)
qed

section \<open>Properties\<close>

definition sample_store :: partition_store where
  "sample_store = \<lparr>ps_dir = ''d'', ps_cfg = \<lparr>sc_MaxSize = 100, sc_Retention = 60\<rparr>, ps_active = sample_segment,
     ps_nextBase = 0\<rparr>"

lemma sample_store_inv: "ps_inv G sample_store sample_segment_disk [] [[1, 2], [7, 8, 9]]"
proof -
  have "content sample_segment_disk (log_path ''d'' b) = [] \<and> content sample_segment_disk (index_path ''d'' b) = []" for b
    by (simp add: content_def file_at_def sample_segment_disk_def)
  moreover have "writable_dir ''d'' sample_segment_disk" by (simp add: writable_dir_def sample_segment_disk_def)
  ultimately show ?thesis
    using sample_segment_inv by (simp add: ps_inv_def sample_store_def sample_segment_def base_of_def max_size_of_def)
qed

lemma sample_store_fields:
  "ps_cfg sample_store = \<lparr>sc_MaxSize = 100, sc_Retention = 60\<rparr>" "max_size_of \<lparr>sc_MaxSize = 100, sc_Retention = 60\<rparr> = 100"
  "ps_dir sample_store = ''d''" "partition_Size sample_store = 13" "ps_nextBase sample_store = 0"
  "dk_free sample_segment_disk = None" "ps_active sample_store = sample_segment"
  by (simp_all add: sample_store_def max_size_of_def partition_Size_def sample_segment_def sample_segment_disk_def)

text \<open>
  C10: on a disk with room, any sequence of appends to a partition, each record small enough
  for an empty segment, succeeds and refines the abstract store: the offsets returned are
  those of the abstract appends, every record is kept in order over all roll-overs, and no
  segment grows beyond its limit.
\<close>

theorem partition_appends_refine:
  assumes "ps_inv G ps d cs cur" and "dk_free d = None"
    and "list_all (\<lambda>p. length p < 2 ^ 32 \<and> 4 + int (length p) \<le> max_size_of (ps_cfg ps)) qs"
    and "int (length (log_bytes (concat cs @ cur @ qs))) < 2 ^ 62"
    and "int (length (log_bytes cur)) \<le> max_size_of (ps_cfg ps)"
    and "\<forall>c \<in> set cs. int (length (log_bytes c)) \<le> max_size_of (ps_cfg ps)"
  shows "\<exists>ps' d' offs cs' cur'. log_appends (max_size_of (ps_cfg ps)) qs cs cur = (offs, cs', cur') \<and>
    partition_appends qs ps d = (Inr offs, ps', d') \<and> ps_inv G ps' d' cs' cur' \<and>
    concat cs' @ cur' = concat cs @ cur @ qs \<and>
    (\<forall>c \<in> set (cs' @ [cur']). int (length (log_bytes c)) \<le> max_size_of (ps_cfg ps))"
proof -
  obtain offs cs' cur' where L: "log_appends (max_size_of (ps_cfg ps)) qs cs cur = (offs, cs', cur')"
    by (rule prod_cases3)
  have "list_all (\<lambda>p. 4 + int (length p) \<le> max_size_of (ps_cfg ps)) qs"
    using assms(3) by (simp add: list_all_iff)
  from log_appends_bounded [OF L this assms(5,6)] log_appends_records [OF L] partition_appends_ok [OF assms(1-4) L] L
  show ?thesis by auto
qed

theorem partition_appends_refine_witness:
  "\<exists>ps' d'. partition_appends [replicate 60 1, replicate 40 2] sample_store sample_segment_disk = (Inr [13, 0], ps', d') \<and>
     ps_inv {} ps' d' [[[1, 2], [7, 8, 9], replicate 60 1]] [replicate 40 2]"
proof -
  let ?qs = "[replicate 60 1, replicate 40 2] :: bytes list" and ?cur = "[[1, 2], [7, 8, 9]] :: bytes list"
  have L: "log_appends (max_size_of (ps_cfg sample_store)) ?qs [] ?cur = ([13, 0], [?cur @ [replicate 60 1]], [replicate 40 2])"
    by (simp add: log_append_def sample_store_fields)
  from partition_appends_refine [OF sample_store_inv sample_store_fields(6), of ?qs] show ?thesis
    unfolding L by (simp add: sample_store_fields del: partition_appends.simps)
qed

text \<open>
  a record that fits into the active segment can be read back at the offset its append
  returned, with the framing header in front of it, and the store then holds it behind all
  the records it held before.
\<close>

theorem partition_append_then_read:
  assumes "ps_inv G ps d cs cur" and "dk_free d = None"
    and "store_room p (ps, d)" and "4 + length p < 2 ^ 31"
  shows "\<exists>off ps1 d1 ps2 d2 H cs'. partition_Append p ps d = (Inr off, ps1, d1) \<and>
    partition_Read off (4 + int (length p)) ps1 d1 =
      (Inr (\<lparr>rd_data = rec_bytes p, rd_err = io_EOF\<rparr>, 4 + int (length p)), ps2, d2) \<and>
    ps_inv H ps2 d2 cs' (cur @ [p])"
proof -
  have "store_holds (ps, d) cur" using assms(1,2) by (auto simp: store_holds_def)
  from partition.append_then_read [OF this assms(3,4)] obtain off st' st'' where
    "store_append p (ps, d) = (Inr off, st')"
    "store_read off (4 + int (length p)) st' = (Inr (\<lparr>rd_data = rec_bytes p, rd_err = io_EOF\<rparr>, 4 + int (length p)), st'')"
    "store_holds st'' (cur @ [p])" by metis
  then show ?thesis
    by (cases st'; cases st'') (auto simp: store_append_def store_read_def store_holds_def)
qed

theorem partition_append_then_read_witness:
  "\<exists>off ps1 d1 ps2 d2. partition_Append [5] sample_store sample_segment_disk = (Inr off, ps1, d1) \<and>
     partition_Read off 5 ps1 d1 = (Inr (\<lparr>rd_data = [0, 0, 0, 1, 5], rd_err = io_EOF\<rparr>, 5), ps2, d2)"
proof -
  have "store_room [5] (sample_store, sample_segment_disk)" by (simp add: store_room_def sample_store_fields)
  from partition_append_then_read [OF sample_store_inv sample_store_fields(6) this] show ?thesis
    by (simp add: rec_bytes_def be_put_4) blast
qed

text \<open>
  C15: the cleaner is safe.  After a round the store holds the same records as before; the only
  closed segments that may be missing from the disk are those whose time was over.  Whatever
  the round deletes is an entry of the partition directory that ends in \<open>.log\<close>, is not the
  active segment and has a modification time at or before the cutoff, or is the \<open>.index\<close>
  beside such an entry; a directory is deleted only when it is empty.
\<close>

theorem clean_safe:
  assumes "ps_inv G ps d cs cur" and "CleanOldSegments dirtime retention ps d = (res, d')"
  shows "ps_inv (G \<union> closed_expired dirtime (dk_now d - retention) ps d) ps d' cs cur \<and>
    (\<forall>q. file_at d' q \<noteq> file_at d q \<longrightarrow>
       file_at d' q = None \<and>
       (\<exists>e \<in> set (dir_entries (ps_dir ps) d).
          expired_entry dirtime (ps_dir ps) (pad20 (sg_baseOffset (ps_active ps)) @ ''.log'') (dk_now d - retention) d e \<and>
          q \<in> entry_files (ps_dir ps) e)) \<and>
    (\<forall>x \<in> set (dk_dirs d). x \<notin> set (dk_dirs d') \<longrightarrow>
       dir_entries x d' = [] \<and>
       (\<exists>e \<in> set (dir_entries (ps_dir ps) d).
          expired_entry dirtime (ps_dir ps) (pad20 (sg_baseOffset (ps_active ps)) @ ''.log'') (dk_now d - retention) d e \<and>
          (\<exists>q \<in> entry_files (ps_dir ps) e. subdir_at q x)))"
proof (intro conjI)
  note O = clean_round(1) [OF assms]
  show "ps_inv (G \<union> closed_expired dirtime (dk_now d - retention) ps d) ps d' cs cur" by (rule clean_round(2) [OF assms])
qed (use only_removedD(1,3) [OF clean_round(1) [OF assms]] in blast)+

definition cleaned_disk :: disk where
  "cleaned_disk = sample_segment_disk\<lparr>dk_now := 100, dk_files := dk_files sample_segment_disk @
     [(file_path ''d'' ''old.log'', \<lparr>fl_data = [1], fl_mtime = 40\<rparr>), (file_path ''d'' ''new.log'', \<lparr>fl_data = [2], fl_mtime = 41\<rparr>)]\<rparr>"

lemma cleaned_now: "dk_now cleaned_disk = 100"
  by (simp add: cleaned_disk_def)

lemma pad20_names: "pad20 b @ xs \<noteq> ys" if "length ys < 20" for ys
proof
  assume "pad20 b @ xs = ys"
  then have "20 \<le> length ys" using length_dec_digits [of 20 "nat b"] by (auto simp: pad20_def)
  with that show False by simp
qed

lemma short_names:
  assumes "length n < 20"
  shows "log_path dir b \<noteq> file_path dir n" "index_path dir b \<noteq> file_path dir n"
    "file_path dir n \<noteq> log_path dir b" "file_path dir n \<noteq> index_path dir b"
  using pad20_names [OF assms] pad20_names [OF assms, symmetric]
  by (simp_all add: log_path_def index_path_def file_path_def)

lemma cleaned_disk_inv: "ps_inv G sample_store cleaned_disk [] [[1, 2], [7, 8, 9]]"
proof -
  have F: "file_at cleaned_disk (log_path ''d'' b) = file_at sample_segment_disk (log_path ''d'' b)"
    "file_at cleaned_disk (index_path ''d'' b) = file_at sample_segment_disk (index_path ''d'' b)" for b
    by (simp_all add: file_at_def cleaned_disk_def map_add_def short_names split: option.split)
  have "writable_dir ''d'' cleaned_disk"
    by (simp add: writable_dir_def cleaned_disk_def sample_segment_disk_def)
  with F show ?thesis
    by (intro ps_inv_files [OF sample_store_inv]) (simp_all add: sample_store_fields)
qed

text \<open>The store that is cleaned has a file just too young, which the round leaves alone.\<close>

lemma new_log_kept:
  assumes "expired_entry (\<lambda>_. 0) ''d'' act 40 cleaned_disk e"
  shows "file_path ''d'' ''new.log'' \<notin> entry_files ''d'' e"
proof
  assume q: "file_path ''d'' ''new.log'' \<in> entry_files ''d'' e"
  have e: "HasSuffix (de_name e) ''.log''" "expired_path (\<lambda>_. 0) 40 cleaned_disk (file_path ''d'' (de_name e))"
    using assms by (simp_all add: expired_entry_def)
  obtain stem where "de_name e = stem @ ''.log''"
    "entry_files ''d'' e = {file_path ''d'' (stem @ ''.log''), file_path ''d'' (stem @ ''.index'')}"
    using log_entry_stem [OF e(1)] .
  then have "de_name e = ''new.log''" using q suffix_differ(1) [of stem "''new''"] by (auto simp: file_path_def)
  moreover have "file_at cleaned_disk (file_path ''d'' ''new.log'') = Some \<lparr>fl_data = [2], fl_mtime = 41\<rparr>"
    by (simp add: file_at_def cleaned_disk_def sample_segment_disk_def short_names) (simp add: file_path_def)
  moreover have "\<not> dir_at cleaned_disk (file_path ''d'' ''new.log'')" by code_simp
  ultimately show False using e(2) by (simp add: expired_path_def)
qed

theorem clean_safe_witness:
  "\<exists>G res d'. CleanOldSegments (\<lambda>_. 0) 60 sample_store cleaned_disk = (res, d') \<and>
     ps_inv G sample_store d' [] [[1, 2], [7, 8, 9]] \<and>
     file_at d' (file_path ''d'' ''new.log'') = file_at cleaned_disk (file_path ''d'' ''new.log'')"
proof -
  obtain res d' where C: "CleanOldSegments (\<lambda>_. 0) 60 sample_store cleaned_disk = (res, d')" by fastforce
  note S = clean_safe [OF cleaned_disk_inv C, unfolded cleaned_now sample_store_fields(3)]
  have "file_at d' (file_path ''d'' ''new.log'') = file_at cleaned_disk (file_path ''d'' ''new.log'')"
    using S new_log_kept by fastforce
  with S C show ?thesis by blast
qed

text \<open>
  C29: the cleaner is complete.  It succeeds, and after it no closed \<open>.log\<close> file whose
  modification time is at or before the cutoff is left.
\<close>

theorem clean_complete:
  assumes "ps_inv G ps d cs cur" and "CleanOldSegments dirtime retention ps d = (res, d')"
    and "file_at d (file_path (ps_dir ps) name) = Some f" and "HasSuffix name ''.log''"
    and "name \<noteq> pad20 (sg_baseOffset (ps_active ps)) @ ''.log''" and "fl_mtime f \<le> dk_now d - retention"
  shows "file_at d' (file_path (ps_dir ps) name) = None \<and> (\<exists>n. res = Inr n)"
proof -
  let ?act = "pad20 (sg_baseOffset (ps_active ps)) @ ''.log''" and ?cut = "dk_now d - retention" and ?dir = "ps_dir ps"
  let ?e = "\<lparr>de_name = name, de_IsDir = False\<rparr>"
  have W: "writable_dir ?dir d" by (rule ps_invD(8) [OF assms(1)])
  then obtain es where E: "os_ReadDir ?dir d = Inr es" by (simp add: os_ReadDir_def writable_dir_def)
  obtain n d2 where F: "fold (clean_entry dirtime ?dir ?act ?cut) es (0, d) = (n, d2)" by fastforce
  have eq: "d' = d2" "res = Inr n" using assms(2) E F by (simp_all add: CleanOldSegments_def Let_def)
  have "?e \<in> set es"
    unfolding os_ReadDir_names [OF E] by (rule dir_entries_file [OF assms(3)])
  then have "file_at d2 (file_path ?dir name) = None"
    using clean_fold_removes [OF F, of ?e f] W assms(3-6) by (simp add: writable_dir_def)
  with eq show ?thesis by simp
qed

theorem clean_complete_witness:
  "\<exists>n d'. CleanOldSegments (\<lambda>_. 0) 60 sample_store cleaned_disk = (Inr n, d') \<and>
     file_at d' (file_path ''d'' ''old.log'') = None"
proof -
  obtain res d' where C: "CleanOldSegments (\<lambda>_. 0) 60 sample_store cleaned_disk = (res, d')" by fastforce
  have ne: "''old.log'' \<noteq> pad20 0 @ ''.log''" using pad20_names [of "''old.log''" 0 "''.log''"] by simp
  have f: "file_at cleaned_disk (file_path (ps_dir sample_store) ''old.log'') = Some \<lparr>fl_data = [1], fl_mtime = 40\<rparr>"
    by (simp add: file_at_def cleaned_disk_def sample_segment_disk_def sample_store_fields short_names)
  show ?thesis
    using clean_complete [OF cleaned_disk_inv C f] C ne
    by (auto simp: HasSuffix_def sample_store_fields sample_segment_def cleaned_now)
qed

section \<open>The cleaner beside appends\<close>

text \<open>
  The cleaner reads the name of the active segment under the lock and works without it, so
  appends come between the entries it looks at.  A run is a sequence of such steps, with the name
  and the cutoff of the time when the cleaner started.
\<close>

datatype cleaner_event = Clean_entry dir_entry | Append_record bytes

primrec run_beside ::
    "(path \<Rightarrow> int) \<Rightarrow> string \<Rightarrow> int \<Rightarrow> cleaner_event list \<Rightarrow> partition_store \<Rightarrow> disk \<Rightarrow>
     (goerr + int) list \<times> partition_store \<times> disk" where
  "run_beside dirtime act cutoff [] ps d = ([], ps, d)"
| "run_beside dirtime act cutoff (ev # evs) ps d =
     (case ev of
        Clean_entry e \<Rightarrow> run_beside dirtime act cutoff evs ps (snd (clean_entry dirtime (ps_dir ps) act cutoff e (0, d)))
      | Append_record p \<Rightarrow>
          (case partition_Append p ps d of
             (r, ps1, d1) \<Rightarrow> (case run_beside dirtime act cutoff evs ps1 d1 of (rs, st) \<Rightarrow> (r # rs, st))))"

definition appended :: "cleaner_event list \<Rightarrow> bytes list" where
  "appended evs = [p. Append_record p \<leftarrow> evs]"

definition listed :: "cleaner_event list \<Rightarrow> string set" where
  "listed evs = {de_name e | e. Clean_entry e \<in> set evs}"

lemma event_simps [simp]:
  "appended [] = []" "appended (Clean_entry e # evs) = appended evs" "appended (Append_record p # evs) = p # appended evs"
  "listed [] = {}" "listed (Clean_entry e # evs) = insert (de_name e) (listed evs)"
  "listed (Append_record p # evs) = listed evs"
  by (auto simp: appended_def listed_def)

text \<open>
  Whatever the interleaving, appends and records are those of a store without a cleaner, as long
  as no segment behind the one that was active at the start is among the entries.
\<close>

theorem clean_beside_appends:
  assumes "ps_inv G ps d cs cur" and "dk_free d = None" and "base \<le> ps_nextBase ps"
    and "\<forall>b. base < b \<and> b < 2 ^ 62 \<longrightarrow> pad20 b @ ''.log'' \<notin> listed evs"
    and "list_all (\<lambda>p. length p < 2 ^ 32 \<and> 4 + int (length p) \<le> max_size_of (ps_cfg ps)) (appended evs)"
    and "int (length (log_bytes (concat cs @ cur @ appended evs))) < 2 ^ 62"
    and "log_appends (max_size_of (ps_cfg ps)) (appended evs) cs cur = (offs, cs', cur')"
  shows "\<exists>ps' d'. run_beside dirtime (pad20 base @ ''.log'') cutoff evs ps d = (map Inr offs, ps', d') \<and>
    ps_inv (G \<union> file_path (ps_dir ps) ` listed evs) ps' d' cs' cur'"
  using assms
proof (induction evs arbitrary: G ps d cs cur offs)
  case (Cons ev evs)
  note I = Cons.prems(1)
  show ?case
  proof (cases ev)
    case (Clean_entry e)
    obtain n d1 where E: "clean_entry dirtime (ps_dir ps) (pad20 base @ ''.log'') cutoff e (0, d) = (n, d1)" by fastforce
    have "de_name e \<noteq> pad20 (ps_nextBase ps) @ ''.log'' \<or> base = ps_nextBase ps"
      using Cons.prems(3) Cons.prems(4) [rule_format, of "ps_nextBase ps"] base_of_range(4) [OF I] Clean_entry
      by (cases "base < ps_nextBase ps") auto
    then have I1: "ps_inv (G \<union> {file_path (ps_dir ps) (de_name e)}) ps d1 cs cur" by (intro clean_entry_inv [OF I E]) auto
    have "dk_free d1 = None" using only_removedD(5) [OF clean_entry_effect [OF E]] Cons.prems(2) by simp
    from Cons.IH [OF I1 this Cons.prems(3), of offs] Cons.prems(4-7) Clean_entry E show ?thesis by (simp add: Un_insert_right)
  next
    case (Append_record p)
    let ?max = "max_size_of (ps_cfg ps)"
    obtain off cs1 cur1 where A: "log_append ?max p cs cur = (off, cs1, cur1)" by (rule prod_cases3)
    obtain offs2 where L: "log_appends ?max (appended evs) cs1 cur1 = (offs2, cs', cur')" "offs = off # offs2"
      using Cons.prems(7) A Append_record by (auto split: prod.splits)
    have small: "ps_nextBase ps + sg_size (ps_active ps) + (4 + int (length p)) < 2 ^ 62"
      using Cons.prems(6) ps_inv_total [OF I] Append_record by simp
    have lp: "length p < 2 ^ 32" "4 + int (length p) \<le> ?max" using Cons.prems(5) Append_record by simp_all
    obtain ps1 d1 where P: "partition_Append p ps d = (Inr off, ps1, d1)" "ps_inv G ps1 d1 cs1 cur1"
      "ps_cfg ps1 = ps_cfg ps" "only_files (dir_files (ps_dir ps)) d d1" "ps_dir ps1 = ps_dir ps"
      using partition_Append_ok [OF I Cons.prems(2) lp small A] by metis
    have "base \<le> ps_nextBase ps1"
      using Cons.prems(3) ps_invD(2) [OF I] ps_invD(2) [OF P(2)] A by (auto simp: log_append_def base_of_def split: if_splits)
    moreover have "int (length (log_bytes (concat cs1 @ cur1 @ appended evs))) < 2 ^ 62"
      using Cons.prems(6) log_append_records(1) [OF A] Append_record
      by (metis append.assoc append_Cons append_Nil event_simps(3))
    ultimately show ?thesis
      using Cons.IH [OF P(2) only_files_healthy [OF P(4) Cons.prems(2)], of offs2] Cons.prems(4,5) L P(1,3,5) Append_record
      by auto
  qed
qed (simp add: ps_inv_mono)

text \<open>
  The condition fails after the restart of a store that has rolled over, where a roll-over makes an
  old file the active one: a cleaner that started before it deletes that file.
\<close>

theorem stale_active_deleted:
  assumes "ps_inv G ps d cs cur" and "base \<noteq> ps_nextBase ps" "0 \<le> base" "base < 2 ^ 64"
    and "file_at d (log_path (ps_dir ps) (ps_nextBase ps)) = Some f" "fl_mtime f \<le> cutoff"
    and "clean_entry dirtime (ps_dir ps) (pad20 base @ ''.log'') cutoff
      \<lparr>de_name = pad20 (ps_nextBase ps) @ ''.log'', de_IsDir = False\<rparr> (n, d) = (n', d')"
  shows "file_at d' (of_path (sg_file (ps_active ps))) = None"
proof -
  note D = ps_invD [OF assms(1)] and R = base_of_range [OF assms(1)]
  have "pad20 (ps_nextBase ps) \<noteq> pad20 base" using assms(2-4) R(3,4) by (simp add: pad20_inj)
  moreover have "file_path (ps_dir ps) (pad20 (ps_nextBase ps) @ ''.log'') \<notin> set (dk_denied d)"
    using D(8) by (auto simp: writable_dir_def file_path_def)
  ultimately show ?thesis
    using clean_entry_removes [OF assms(7), of f] assms(5,6) D(4) by (simp add: HasSuffix_def log_path_def)
qed

text \<open>
  a store that has not rolled over survives a restart: closing and opening it again
  gives a store with the same records and the same index entries.
\<close>

theorem partition_reopen:
  assumes "ps_inv G ps d [] cur" and "dk_free d = None"
  shows "\<exists>ps1 d1 ps2 d2. partition_Close ps d = (None, ps1, d1) \<and>
    OpenPartitionStore (ps_dir ps) (ps_cfg ps) d1 = (Inr ps2, d2) \<and> ps_inv G ps2 d2 [] cur \<and>
    ix_entries (sg_idx (ps_active ps2)) = ix_entries (sg_idx (ps_active ps))"
  using partition_reopen_ok [OF assms] by metis

theorem partition_reopen_witness:
  "\<exists>ps1 d1 ps2 d2. partition_Close sample_store sample_segment_disk = (None, ps1, d1) \<and>
     OpenPartitionStore ''d'' \<lparr>sc_MaxSize = 100, sc_Retention = 60\<rparr> d1 = (Inr ps2, d2) \<and>
     ps_inv {} ps2 d2 [] [[1, 2], [7, 8, 9]]"
  using partition_reopen [OF sample_store_inv sample_store_fields(6), of "{}"] by (auto simp: sample_store_fields)

text \<open>
  opening a store always makes its first segment the active one.  For a store that has
  rolled over, the size and the log that are served after a restart are those of the oldest
  segment, not those of the segment that was active.
\<close>

theorem partition_reopen_first_segment:
  assumes "ps_inv {} ps d (c # cs) cur" and "dk_free d = None"
  shows "\<exists>ps1 d1 ps2 d2. partition_Close ps d = (None, ps1, d1) \<and>
    OpenPartitionStore (ps_dir ps) (ps_cfg ps) d1 = (Inr ps2, d2) \<and>
    partition_Size ps2 = int (length (log_bytes c)) \<and> ps_nextBase ps2 = 0 \<and>
    of_path (sg_file (ps_active ps2)) = log_path (ps_dir ps) 0 \<and> content d2 (log_path (ps_dir ps) 0) = log_bytes c"
proof -
  have b0: "base_of (c # cs) 0 = 0" by (simp add: base_of_def)
  obtain ps1 d1 s d2 where "partition_Close ps d = (None, ps1, d1)"
    "OpenPartitionStore (ps_dir ps) (ps_cfg ps) d1 =
       (Inr \<lparr>ps_dir = ps_dir ps, ps_cfg = ps_cfg ps, ps_active = s, ps_nextBase = 0\<rparr>, d2)"
    "sg_size s = int (length (log_bytes c))" "of_path (sg_file s) = log_path (ps_dir ps) 0"
    and C: "\<And>i. i < length (c # cs) \<Longrightarrow> content d2 (log_path (ps_dir ps) (base_of (c # cs) i)) = log_bytes ((c # cs) ! i)"
    using reopen_rolled_over [OF assms] by metis
  with C [of 0] b0 show ?thesis by (simp add: partition_Size_def)
qed

definition rolled_records :: "bytes list" where
  "rolled_records = [replicate 80 1, replicate 81 2, replicate 82 3]"

lemma rolled_store:
  obtains ps d where "ps_inv {} ps d [[[1, 2], [7, 8, 9], replicate 80 1], [replicate 81 2]] [replicate 82 3]"
    "dk_free d = None" "ps_dir ps = ''d''" "ps_cfg ps = \<lparr>sc_MaxSize = 100, sc_Retention = 60\<rparr>"
proof -
  have L: "log_appends (max_size_of (ps_cfg sample_store)) rolled_records [] [[1, 2], [7, 8, 9]] =
      ([13, 0, 0], [[[1, 2], [7, 8, 9], replicate 80 1], [replicate 81 2]], [replicate 82 3])"
    by (simp add: log_append_def sample_store_fields rolled_records_def)
  have A: "list_all (\<lambda>p. length p < 2 ^ 32 \<and> 4 + int (length p) \<le> max_size_of (ps_cfg sample_store)) rolled_records"
    "int (length (log_bytes (concat [] @ [[1, 2], [7, 8, 9]] @ rolled_records))) < 2 ^ 62"
    by (simp_all add: rolled_records_def sample_store_fields)
  show thesis
    using partition_appends_ok [OF sample_store_inv sample_store_fields(6) A L] that by (auto simp: sample_store_fields)
qed

theorem partition_reopen_first_segment_witness:
  "\<exists>ps d ps1 d1 ps2 d2. partition_Size ps = 86 \<and> partition_Close ps d = (None, ps1, d1) \<and>
     OpenPartitionStore (ps_dir ps) (ps_cfg ps) d1 = (Inr ps2, d2) \<and> partition_Size ps2 = 97"
proof -
  obtain ps d where I: "ps_inv {} ps d [[[1, 2], [7, 8, 9], replicate 80 1], [replicate 81 2]] [replicate 82 3]"
    and "dk_free d = None" by (rule rolled_store)
  moreover from this have "partition_Size ps = 86"
    using seg_inv_size [OF ps_invD(1) [OF I]] by (simp add: partition_Size_def)
  ultimately show ?thesis using partition_reopen_first_segment [OF I] by fastforce
qed

text \<open>
  after a restart an append can fail although the disk has room and the record would fit
  into an empty segment.  The first segment is full, the roll-over opens the next segment of
  the previous run, that one is full as well, and the store does not roll over again.
\<close>

theorem restart_append_fails:
  assumes "ps_inv {} ps d (c0 # c1 # cs) cur" and "dk_free d = None" and "length p < 2 ^ 32"
    and "max_size_of (ps_cfg ps) < int (length (log_bytes c0)) + (4 + int (length p))"
    and "max_size_of (ps_cfg ps) < int (length (log_bytes c1)) + (4 + int (length p))"
  shows "\<exists>ps1 d1 ps2 d2 ps3 d3. partition_Close ps d = (None, ps1, d1) \<and>
    OpenPartitionStore (ps_dir ps) (ps_cfg ps) d1 = (Inr ps2, d2) \<and>
    partition_Append p ps2 d2 = (Inl (Wrapf ''storage: partition store append: %w'' [] ErrSegmentFull), ps3, d3)"
proof -
  let ?cs = "c0 # c1 # cs"
  note D = ps_invD [OF assms(1)]
  have b1: "base_of ?cs 1 = int (length (log_bytes c0))" by (simp add: base_of_def)
  obtain ps1 d1 s d2 where C: "partition_Close ps d = (None, ps1, d1)"
    and O: "OpenPartitionStore (ps_dir ps) (ps_cfg ps) d1 =
       (Inr \<lparr>ps_dir = ps_dir ps, ps_cfg = ps_cfg ps, ps_active = s, ps_nextBase = 0\<rparr>, d2)"
    and S: "sg_size s = int (length (log_bytes c0))" "sg_maxSize s = max_size_of (ps_cfg ps)"
      "writable_dir (ps_dir ps) d2" "\<And>x. \<exists>s'. segment_Close s x = (None, s', x)"
    and F: "\<And>i. i < length ?cs \<Longrightarrow> content d2 (log_path (ps_dir ps) (base_of ?cs i)) = log_bytes (?cs ! i)"
    using reopen_rolled_over [OF assms(1,2)] by metis
  obtain s1 where s1: "segment_Close s d2 = (None, s1, d2)" using S(4) by blast
  have small: "int (length (log_bytes c0)) < 2 ^ 62" "int (length (log_bytes c1)) < 2 ^ 62"
    using ps_inv_total [OF assms(1)] D(3) by simp_all
  have full0: "segment_Append p s d2 = (Inl ErrSegmentFull, s, d2)"
    using assms(3,4) S(1,2) small by (intro segment_Append_refuse) simp_all
  obtain t d3 where T: "OpenSegment (ps_dir ps) (int (length (log_bytes c0))) (ps_cfg ps) d2 = (Inr t, d3)"
    "sg_size t = int (length (log_bytes c1))" "sg_maxSize t = max_size_of (ps_cfg ps)"
    using OpenSegment_opens [OF writable_openable [OF S(3)], of "int (length (log_bytes c0))"] F [of 1] b1
    by (metis One_nat_def length_Cons nth_Cons_0 nth_Cons_Suc zero_less_Suc Suc_less_eq)
  have full1: "segment_Append p t d3 = (Inl ErrSegmentFull, t, d3)"
    using assms(3,5) T(2,3) small by (intro segment_Append_refuse) simp_all
  have "u64 (int (length (log_bytes c0))) = int (length (log_bytes c0))" using small by (intro u64_id) simp_all
  then have "partition_Append p \<lparr>ps_dir = ps_dir ps, ps_cfg = ps_cfg ps, ps_active = s, ps_nextBase = 0\<rparr> d2 =
      (Inl (Wrapf ''storage: partition store append: %w'' [] ErrSegmentFull),
       \<lparr>ps_dir = ps_dir ps, ps_cfg = ps_cfg ps, ps_active = t, ps_nextBase = int (length (log_bytes c0))\<rparr>, d3)"
    by (simp add: partition_Append_def full0 full1 rollover_def s1 S(1) T(1) Let_def)
  with C O show ?thesis by blast
qed

theorem restart_append_fails_witness:
  "\<exists>ps d ps1 d1 ps2 d2 ps3 d3. partition_Close ps d = (None, ps1, d1) \<and>
    OpenPartitionStore (ps_dir ps) (ps_cfg ps) d1 = (Inr ps2, d2) \<and>
    partition_Append (replicate 20 0) ps2 d2 =
      (Inl (Wrapf ''storage: partition store append: %w'' [] ErrSegmentFull), ps3, d3)"
proof -
  obtain ps d where I: "ps_inv {} ps d [[[1, 2], [7, 8, 9], replicate 80 1], [replicate 81 2]] [replicate 82 3]"
    and f: "dk_free d = None" "ps_cfg ps = \<lparr>sc_MaxSize = 100, sc_Retention = 60\<rparr>" by (rule rolled_store)
  show ?thesis
    using restart_append_fails [OF I f(1), of "replicate 20 0"] f(2) sample_store_fields(2) by fastforce
qed

end
