(* ===== verification/Broker_Store.thy ===== *)
theory Broker_Store
  imports Partition_Laws
begin

text \<open>
  \<open>internal/storage/broker_store.go\<close>: one partition store per topic-partition, each in a
  directory named after it.  The map of the source is an association list from keys to
  stores.  A handler gets a pointer to a store and works on it; since no store is ever
  removed from the map or replaced, the key stands for the pointer, and an operation on the
  store is an operation on the entry of that key.  The source iterates over the map in an
  unspecified order; the model uses the order of insertion, and no statement about
  \<open>Topics\<close> depends on it.
\<close>

section \<open>Keys and directory names\<close>

definition partitionKey :: "string \<Rightarrow> int \<Rightarrow> string" where
  "partitionKey topic pid = topic @ CHR ''-'' # fmt_d pid"

text \<open>
  The regular expression of \<open>partitionDirRe\<close> splits at the last hyphen: the second group
  are the digits behind it, and the first group is not empty and has no line break.
\<close>

definition newline :: char where
  "newline = char_of (10 :: nat)"

definition partitionDirRe :: "string \<Rightarrow> (string \<times> string) option" where
  "partitionDirRe s =
     (let digits = rev (takeWhile is_digit (rev s));
          rest = take (length s - length digits) s
      in if digits \<noteq> [] \<and> 2 \<le> length rest \<and> last rest = CHR ''-'' \<and> newline \<notin> set (butlast rest)
         then Some (butlast rest, digits) else None)"

record broker_store =
  bs_rootDir :: string
  bs_cfg :: segment_config
  bs_stores :: "(string \<times> partition_store) list"

definition partitionDir :: "broker_store \<Rightarrow> string \<Rightarrow> int \<Rightarrow> string" where
  "partitionDir bs topic pid = filepath_Join [bs_rootDir bs, partitionKey topic pid]"

section \<open>Operations\<close>

primrec load_partitions :: "dir_entry list \<Rightarrow> broker_store \<Rightarrow> disk \<Rightarrow> (goerr + broker_store) \<times> disk" where
  "load_partitions [] bs d = (Inr bs, d)"
| "load_partitions (e # es) bs d =
     (if \<not> de_IsDir e then load_partitions es bs d
      else case partitionDirRe (de_name e) of
        None \<Rightarrow> load_partitions es bs d
      | Some (topic, num) \<Rightarrow>
          (case ParseInt 32 num of
             Inl _ \<Rightarrow> load_partitions es bs d
           | Inr pid \<Rightarrow>
               let dir = filepath_Join [bs_rootDir bs, de_name e]
               in case OpenPartitionStore dir (bs_cfg bs) d of
                    (Inl err, d1) \<Rightarrow> (Inl (Wrapf ''storage: broker store load %q: %w'' [ArgStr dir] err), d1)
                  | (Inr ps, d1) \<Rightarrow>
                      load_partitions es
                        (bs\<lparr>bs_stores := AList.update (partitionKey topic pid) ps (bs_stores bs)\<rparr>) d1))"

definition OpenBrokerStore :: "string \<Rightarrow> segment_config \<Rightarrow> disk \<Rightarrow> (goerr + broker_store) \<times> disk" where
  "OpenBrokerStore rootDir cfg d =
     (case os_ReadDir rootDir d of
        Inl e \<Rightarrow> (Inl (Wrapf ''storage: broker store scan %q: %w'' [ArgStr rootDir] e), d)
      | Inr entries \<Rightarrow> load_partitions entries \<lparr>bs_rootDir = rootDir, bs_cfg = cfg, bs_stores = []\<rparr> d)"

definition GetOrCreatePartition ::
    "string \<Rightarrow> int \<Rightarrow> broker_store \<Rightarrow> disk \<Rightarrow> (goerr + string) \<times> broker_store \<times> disk" where
  "GetOrCreatePartition topic pid bs d =
     (let key = partitionKey topic pid
      in case map_of (bs_stores bs) key of
           Some ps \<Rightarrow> (Inr key, bs, d)
         | None \<Rightarrow>
             let dir = partitionDir bs topic pid
             in case os_MkdirAll dir d of
                  (Some e, d1) \<Rightarrow> (Inl (Wrapf ''storage: create partition dir %q: %w'' [ArgStr dir] e), bs, d1)
                | (None, d1) \<Rightarrow>
                    (case OpenPartitionStore dir (bs_cfg bs) d1 of
                       (Inl e, d2) \<Rightarrow>
                         (Inl (Wrapf ''storage: open partition %q/%d: %w'' [ArgStr topic, ArgInt pid] e), bs, d2)
                     | (Inr ps, d2) \<Rightarrow>
                         (Inr key, bs\<lparr>bs_stores := AList.update key ps (bs_stores bs)\<rparr>, d2)))"

definition topic_of :: "partition_store \<Rightarrow> (string \<times> int) option" where
  "topic_of ps =
     (case partitionDirRe (filepath_Base (ps_dir ps)) of
        None \<Rightarrow> None
      | Some (topic, num) \<Rightarrow> (case ParseInt 32 num of Inl _ \<Rightarrow> None | Inr pid \<Rightarrow> Some (topic, pid)))"

definition Topics :: "broker_store \<Rightarrow> (string \<times> int) list" where
  "Topics bs = List.map_filter (topic_of \<circ> snd) (bs_stores bs)"

text \<open>One tick of the background cleaner.\<close>

definition clean_partition :: "(path \<Rightarrow> int) \<Rightarrow> broker_store \<Rightarrow> string \<times> int \<Rightarrow> disk \<Rightarrow> disk" where
  "clean_partition dirtime bs tp d =
     (case map_of (bs_stores bs) (partitionKey (fst tp) (snd tp)) of
        None \<Rightarrow> d
      | Some ps \<Rightarrow> snd (CleanOldSegments dirtime (sc_Retention (bs_cfg bs)) ps d))"

definition runLogCleaner_tick :: "(path \<Rightarrow> int) \<Rightarrow> broker_store \<Rightarrow> disk \<Rightarrow> disk" where
  "runLogCleaner_tick dirtime bs d = fold (clean_partition dirtime bs) (Topics bs) d"

primrec close_stores ::
    "(string \<times> partition_store) list \<Rightarrow> goerr option \<Rightarrow> disk \<Rightarrow> goerr option \<times> (string \<times> partition_store) list \<times> disk" where
  "close_stores [] firstErr d = (firstErr, [], d)"
| "close_stores (kp # rest) firstErr d =
     (case partition_Close (snd kp) d of
        (r, ps', d1) \<Rightarrow>
          let firstErr' =
            (if r \<noteq> None \<and> firstErr = None
             then Some (Wrapf ''storage: close partition %q: %w'' [ArgStr (fst kp)] (the r)) else firstErr)
          in case close_stores rest firstErr' d1 of
               (e, rest', d2) \<Rightarrow> (e, (fst kp, ps') # rest', d2))"

definition broker_Close :: "broker_store \<Rightarrow> disk \<Rightarrow> goerr option \<times> broker_store \<times> disk" where
  "broker_Close bs d =
     (case close_stores (bs_stores bs) None d of (e, stores', d') \<Rightarrow> (e, bs\<lparr>bs_stores := stores'\<rparr>, d'))"

text \<open>The operations of the store behind a key, on the entry of the map.\<close>

definition broker_Append :: "string \<Rightarrow> bytes \<Rightarrow> broker_store \<Rightarrow> disk \<Rightarrow> (goerr + int) \<times> broker_store \<times> disk" where
  "broker_Append key data bs d =
     (case map_of (bs_stores bs) key of
        None \<Rightarrow> (Inl (os_error ''nil store''), bs, d)
      | Some ps \<Rightarrow>
          (case partition_Append data ps d of
             (r, ps', d') \<Rightarrow> (r, bs\<lparr>bs_stores := AList.update key ps' (bs_stores bs)\<rparr>, d')))"

definition broker_Read ::
    "string \<Rightarrow> int \<Rightarrow> int \<Rightarrow> broker_store \<Rightarrow> disk \<Rightarrow> (goerr + (go_reader \<times> int)) \<times> broker_store \<times> disk" where
  "broker_Read key off n bs d =
     (case map_of (bs_stores bs) key of
        None \<Rightarrow> (Inl (os_error ''nil store''), bs, d)
      | Some ps \<Rightarrow>
          (case partition_Read off n ps d of
             (r, ps', d') \<Rightarrow> (r, bs\<lparr>bs_stores := AList.update key ps' (bs_stores bs)\<rparr>, d')))"

definition broker_Size :: "string \<Rightarrow> broker_store \<Rightarrow> int" where
  "broker_Size key bs = (case map_of (bs_stores bs) key of None \<Rightarrow> 0 | Some ps \<Rightarrow> partition_Size ps)"

section \<open>Keys are unambiguous\<close>

definition valid_tp :: "string \<Rightarrow> int \<Rightarrow> bool" where
  "valid_tp topic pid \<longleftrightarrow>
     topic \<noteq> [] \<and> CHR ''/'' \<notin> set topic \<and> newline \<notin> set topic \<and> 0 \<le> pid \<and> pid < 2 ^ 31"

lemma takeWhile_digits:
  assumes "list_all is_digit ds"
  shows "takeWhile is_digit (rev (t @ CHR ''-'' # ds)) = rev ds"
proof -
  have "\<not> is_digit (CHR ''-'')" by (simp add: is_digit_def)
  moreover have "\<forall>c \<in> set (rev ds). is_digit c" using assms by (simp add: list_all_iff)
  ultimately show ?thesis by (simp add: takeWhile_append)
qed

lemma partitionDirRe_split:
  assumes "list_all is_digit ds" "ds \<noteq> []" "t \<noteq> []" "newline \<notin> set t"
  shows "partitionDirRe (t @ CHR ''-'' # ds) = Some (t, ds)"
proof -
  have "take (length (t @ CHR ''-'' # ds) - length ds) (t @ CHR ''-'' # ds) = t @ ''-''" by simp
  moreover have "2 \<le> length (t @ ''-'')" using assms(3) by (cases t) simp_all
  ultimately show ?thesis
    using assms(2,4) unfolding partitionDirRe_def Let_def takeWhile_digits [OF assms(1)] by simp
qed

lemma partitionKey_parse:
  assumes "topic \<noteq> []" "newline \<notin> set topic" "0 \<le> pid" "pid < 2 ^ 31"
  shows "\<exists>num. partitionDirRe (partitionKey topic pid) = Some (topic, num) \<and> ParseInt 32 num = Inr pid"
proof (intro exI conjI)
  show "partitionDirRe (partitionKey topic pid) = Some (topic, dec_nat (nat pid))"
    using assms dec_nat_digits by (simp add: partitionKey_def fmt_d_def partitionDirRe_split)
  show "ParseInt 32 (dec_nat (nat pid)) = Inr pid"
    using assms ParseInt_dec_nat [of "nat pid" 32] by simp
qed

lemma digits_plain: "list_all is_digit ds \<Longrightarrow> CHR ''/'' \<notin> set ds"
  by (auto simp: list_all_iff is_digit_def)

lemma plain_partitionKey:
  assumes "valid_tp topic pid"
  shows "plain_name (partitionKey topic pid)"
proof -
  have "CHR ''/'' \<notin> set (partitionKey topic pid)"
    using assms digits_plain [OF dec_nat_digits(2)] by (simp add: partitionKey_def fmt_d_def valid_tp_def)
  moreover have "CHR ''-'' \<in> set (partitionKey topic pid)" by (simp add: partitionKey_def)
  ultimately show ?thesis unfolding plain_name_def by auto
qed

end
