(* ===== verification/Broker_Laws.thy ===== *)
theory Broker_Laws
  imports Broker_Store
begin

text \<open>
  The broker store refines a finite map from keys to partitions.  \<open>bs_inv G bs d A\<close> relates a
  store on a healthy disk to such a map \<open>A\<close>: every entry is a partition store in its own
  directory below the root, and the directory of a key without an entry does not exist yet.
\<close>

section \<open>The invariant\<close>

definition root_exists :: "string \<Rightarrow> disk \<Rightarrow> bool" where
  "root_exists root d \<longleftrightarrow>
     root \<noteq> [] \<and> filepath_Clean root \<in> set (dk_dirs d) \<and>
     (\<forall>i. 0 < i \<and> i \<le> length (clean_elems root) \<longrightarrow>
        path_string (rooted root) (take i (clean_elems root)) \<in> set (dk_dirs d))"

definition valid_key :: "string \<Rightarrow> bool" where
  "valid_key k \<longleftrightarrow> (\<exists>topic pid. valid_tp topic pid \<and> k = partitionKey topic pid)"

type_synonym partition_map = "string \<rightharpoonup> bytes list list \<times> bytes list"

definition bs_inv :: "path set \<Rightarrow> broker_store \<Rightarrow> disk \<Rightarrow> partition_map \<Rightarrow> bool" where
  "bs_inv G bs d A \<longleftrightarrow>
     root_exists (bs_rootDir bs) d \<and> dk_denied d = [] \<and> dk_free d = None \<and> max_size_of (bs_cfg bs) < 2 ^ 62 \<and>
     distinct (map fst (bs_stores bs)) \<and> dom A = fst ` set (bs_stores bs) \<and>
     (\<forall>k ps. map_of (bs_stores bs) k = Some ps \<longrightarrow>
        valid_key k \<and> ps_dir ps = filepath_Join [bs_rootDir bs, k] \<and> ps_cfg ps = bs_cfg bs \<and>
        ps_inv G ps d (fst (the (A k))) (snd (the (A k)))) \<and>
     (\<forall>k. valid_key k \<and> k \<notin> dom A \<longrightarrow>
        filepath_Join [bs_rootDir bs, k] \<notin> set (dk_dirs d) \<and>
        (\<forall>n. file_at d (filepath_Join [bs_rootDir bs, k], n) = None)) \<and>
     (\<forall>k. valid_key k \<longrightarrow> file_at d (filepath_Clean (bs_rootDir bs), k) = None) \<and>
     (\<forall>x \<in> set (dk_dirs d). is_child (filepath_Clean (bs_rootDir bs)) x \<longrightarrow>
        last (clean_elems x) \<in> dom A \<or> partitionDirRe (last (clean_elems x)) = None)"

lemma bs_invD:
  assumes "bs_inv G bs d A"
  shows "root_exists (bs_rootDir bs) d" "dk_denied d = []" "dk_free d = None" "max_size_of (bs_cfg bs) < 2 ^ 62"
    "distinct (map fst (bs_stores bs))" "dom A = fst ` set (bs_stores bs)"
    "\<And>k ps. map_of (bs_stores bs) k = Some ps \<Longrightarrow> valid_key k"
    "\<And>k ps. map_of (bs_stores bs) k = Some ps \<Longrightarrow> ps_dir ps = filepath_Join [bs_rootDir bs, k]"
    "\<And>k ps. map_of (bs_stores bs) k = Some ps \<Longrightarrow> ps_cfg ps = bs_cfg bs"
    "\<And>k ps. map_of (bs_stores bs) k = Some ps \<Longrightarrow> ps_inv G ps d (fst (the (A k))) (snd (the (A k)))"
    "\<And>k. valid_key k \<Longrightarrow> k \<notin> dom A \<Longrightarrow> filepath_Join [bs_rootDir bs, k] \<notin> set (dk_dirs d)"
    "\<And>k n. valid_key k \<Longrightarrow> k \<notin> dom A \<Longrightarrow> file_at d (filepath_Join [bs_rootDir bs, k], n) = None"
    "\<And>k. valid_key k \<Longrightarrow> file_at d (filepath_Clean (bs_rootDir bs), k) = None"
    "\<And>x. x \<in> set (dk_dirs d) \<Longrightarrow> is_child (filepath_Clean (bs_rootDir bs)) x \<Longrightarrow>
       last (clean_elems x) \<in> dom A \<or> partitionDirRe (last (clean_elems x)) = None"
  using assms unfolding bs_inv_def by (elim conjE; simp)+

lemma bs_invI:
  assumes "root_exists (bs_rootDir bs) d" "dk_denied d = []" "dk_free d = None" "max_size_of (bs_cfg bs) < 2 ^ 62"
    and "distinct (map fst (bs_stores bs))" "dom A = fst ` set (bs_stores bs)"
    and "\<And>k ps. map_of (bs_stores bs) k = Some ps \<Longrightarrow>
        valid_key k \<and> ps_dir ps = filepath_Join [bs_rootDir bs, k] \<and> ps_cfg ps = bs_cfg bs \<and>
        ps_inv G ps d (fst (the (A k))) (snd (the (A k)))"
    and "\<And>k. valid_key k \<Longrightarrow> k \<notin> dom A \<Longrightarrow> filepath_Join [bs_rootDir bs, k] \<notin> set (dk_dirs d)"
    and "\<And>k n. valid_key k \<Longrightarrow> k \<notin> dom A \<Longrightarrow> file_at d (filepath_Join [bs_rootDir bs, k], n) = None"
    and "\<And>k. valid_key k \<Longrightarrow> file_at d (filepath_Clean (bs_rootDir bs), k) = None"
    and "\<And>x. x \<in> set (dk_dirs d) \<Longrightarrow> is_child (filepath_Clean (bs_rootDir bs)) x \<Longrightarrow>
       last (clean_elems x) \<in> dom A \<or> partitionDirRe (last (clean_elems x)) = None"
  shows "bs_inv G bs d A"
  unfolding bs_inv_def
  by (intro conjI allI ballI impI) (simp_all only: assms(1-5,7-11) assms(6) [symmetric] HOL.simp_thms)

lemma valid_key_plain: "valid_key k \<Longrightarrow> plain_name k"
  unfolding valid_key_def using plain_partitionKey by blast

lemma bs_inv_root: "bs_inv G bs d A \<Longrightarrow> bs_rootDir bs \<noteq> []"
  using bs_invD(1) by (auto simp: root_exists_def)

lemma bs_inv_lookup:
  assumes "bs_inv G bs d A"
  shows "map_of (bs_stores bs) k = None \<longleftrightarrow> A k = None"
  using bs_invD(6) [OF assms] by (metis domIff map_of_eq_None_iff list.set_map)

lemma Clean_not_entry:
  assumes "dir \<noteq> []" and "plain_name x"
  shows "filepath_Clean dir \<noteq> filepath_Join [dir, x]"
proof
  assume "filepath_Clean dir = filepath_Join [dir, x]"
  then have "path_string (rooted dir) (clean_elems dir) = path_string (rooted dir) (clean_elems dir @ [x])"
    using Join_entry [OF assms] by (simp add: filepath_Clean_def)
  from path_string_inj [OF canonical_clean_elems canonical_snoc [OF canonical_clean_elems assms(2)] this]
  show False by simp
qed

section \<open>Work on one partition\<close>

lemma same_dir_other:
  assumes "only_files (dir_files dir) d d'" and "filepath_Clean dir \<noteq> filepath_Clean dir'"
  shows "same_dir dir' d d'"
  using assms by (auto simp: only_files_def same_dir_def dir_files_def)

lemma bs_inv_update:
  assumes I: "bs_inv G bs d A" and K: "map_of (bs_stores bs) k = Some ps"
    and P: "ps_inv G ps' d' cs cur" "ps_dir ps' = ps_dir ps" "ps_cfg ps' = ps_cfg ps"
    and O: "only_files (dir_files (ps_dir ps)) d d'"
  shows "bs_inv G (bs\<lparr>bs_stores := AList.update k ps' (bs_stores bs)\<rparr>) d' (A(k \<mapsto> (cs, cur)))"
proof -
  let ?root = "bs_rootDir bs"
  note D = bs_invD [OF I] and ne = bs_inv_root [OF I]
  have pk: "plain_name k" using D(7) [OF K] by (rule valid_key_plain)
  have dir: "filepath_Clean (ps_dir ps) = filepath_Join [?root, k]" using D(8) [OF K] ne pk by simp
  have kdom: "k \<in> dom A" using bs_inv_lookup [OF I, of k] K by auto
  have files: "file_at d' (filepath_Join [?root, k'], n) = file_at d (filepath_Join [?root, k'], n)"
    if "plain_name k'" "k' \<noteq> k" for k' n
    using O that dir Join_entry_inj [OF ne that(1) pk] by (auto simp: only_files_def dir_files_def)
  have other: "ps_inv G q d' (fst (the (A k'))) (snd (the (A k')))"
    if q: "map_of (bs_stores bs) k' = Some q" "k' \<noteq> k" for k' q
  proof (rule ps_inv_same [OF D(10) [OF q(1)] same_dir_other [OF O]])
    have pk': "plain_name k'" using D(7) [OF q(1)] by (rule valid_key_plain)
    then show "filepath_Clean (ps_dir ps) \<noteq> filepath_Clean (ps_dir q)"
      using dir D(8) [OF q(1)] ne q(2) Join_entry_inj [OF ne pk pk'] by simp
  qed
  have dirs: "dk_dirs d' = dk_dirs d" using O by (simp add: only_files_def)
  have domA: "dom (A(k \<mapsto> (cs, cur))) = dom A" using kdom by (simp add: insert_absorb)
  show ?thesis
  proof (rule bs_invI)
    show "file_at d' (filepath_Join [bs_rootDir (bs\<lparr>bs_stores := AList.update k ps' (bs_stores bs)\<rparr>), k'], n) = None"
      if "valid_key k'" "k' \<notin> dom (A(k \<mapsto> (cs, cur)))" for k' n
    proof -
      have "k' \<notin> dom A" "k' \<noteq> k" using that(2) kdom unfolding domA by auto
      then show ?thesis using files [OF valid_key_plain [OF that(1)]] D(12) [OF that(1)] by simp
    qed
    show "file_at d' (filepath_Clean (bs_rootDir (bs\<lparr>bs_stores := AList.update k ps' (bs_stores bs)\<rparr>)), k') = None"
      if "valid_key k'" for k'
      using O D(13) [OF that] Clean_not_entry [OF ne pk] dir by (auto simp: only_files_def dir_files_def)
    show "valid_key k' \<and> ps_dir q = filepath_Join [bs_rootDir (bs\<lparr>bs_stores := AList.update k ps' (bs_stores bs)\<rparr>), k'] \<and>
        ps_cfg q = bs_cfg (bs\<lparr>bs_stores := AList.update k ps' (bs_stores bs)\<rparr>) \<and>
        ps_inv G q d' (fst (the ((A(k \<mapsto> (cs, cur))) k'))) (snd (the ((A(k \<mapsto> (cs, cur))) k')))"
      if "map_of (bs_stores (bs\<lparr>bs_stores := AList.update k ps' (bs_stores bs)\<rparr>)) k' = Some q" for k' q
      using that other D(7-9) K P by (cases "k' = k") (simp_all add: update_conv')
  qed (use O D(1-6,11,14) dirs domA in \<open>simp_all add: only_files_def root_exists_def distinct_update dom_update\<close>)
qed

section \<open>Creating a partition\<close>

lemma MkdirAll_entry:
  assumes R: "root_exists root d" and k: "plain_name k" and new: "filepath_Join [root, k] \<notin> set (dk_dirs d)"
    and "dk_denied d = []" and "file_at d (filepath_Clean root, k) = None"
  shows "os_MkdirAll (filepath_Join [root, k]) d = (None, d\<lparr>dk_dirs := filepath_Join [root, k] # dk_dirs d\<rparr>)"
proof -
  let ?r = "rooted root" and ?xs = "clean_elems root"
  have ne: "root \<noteq> []" using R by (simp add: root_exists_def)
  note J = Join_entry [OF ne k]
  have can: "canonical ?r (?xs @ [k])" by (rule canonical_snoc [OF canonical_clean_elems k])
  have "mkdir_elems ?r (?xs @ [k]) [] d = mkdir_elems ?r [k] ?xs d"
    using R mkdir_elems_skip [of ?xs ?r "[]" d "[k]"] by (simp add: root_exists_def)
  also have "\<dots> = (None, d\<lparr>dk_dirs := filepath_Join [root, k] # dk_dirs d\<rparr>)"
    using k new assms(4,5) J by (simp add: Let_def plain_name_def filepath_Clean_def)
  finally show ?thesis
    by (simp add: os_MkdirAll_def J path_string_parts [OF can])
qed

lemma GetOrCreate_existing:
  assumes "map_of (bs_stores bs) (partitionKey topic pid) = Some ps"
  shows "GetOrCreatePartition topic pid bs d = (Inr (partitionKey topic pid), bs, d)"
  using assms by (simp add: GetOrCreatePartition_def)

text \<open>The partition map after a key was asked for.\<close>

definition created :: "string \<Rightarrow> partition_map \<Rightarrow> partition_map" where
  "created k A = (if A k = None then A(k \<mapsto> ([], [])) else A)"

lemma created_Some [simp]: "created k A k \<noteq> None"
  by (simp add: created_def)

lemma bs_inv_insert:
  assumes I: "bs_inv G bs d A" and K: "map_of (bs_stores bs) k = None" and V: "valid_key k"
    and d1: "d1 = d\<lparr>dk_dirs := filepath_Join [bs_rootDir bs, k] # dk_dirs d\<rparr>"
    and P: "ps_inv G ps d' [] cur" "ps_dir ps = filepath_Join [bs_rootDir bs, k]" "ps_cfg ps = bs_cfg bs"
    and O: "only_files (dir_files (filepath_Join [bs_rootDir bs, k])) d1 d'"
  shows "bs_inv G (bs\<lparr>bs_stores := AList.update k ps (bs_stores bs)\<rparr>) d' (A(k \<mapsto> ([], cur)))"
proof -
  let ?root = "bs_rootDir bs"
  note D = bs_invD [OF I] and ne = bs_inv_root [OF I]
  have pk: "plain_name k" using V by (rule valid_key_plain)
  have kdom: "k \<notin> dom A" using bs_inv_lookup [OF I, of k] K by auto
  have F1: "file_at d1 = file_at d" by (simp add: d1 file_at_def fun_eq_iff)
  have files: "file_at d' (filepath_Join [?root, k'], n) = file_at d (filepath_Join [?root, k'], n)"
    if "plain_name k'" "k' \<noteq> k" for k' n
    using O that ne pk Join_entry_inj [OF ne that(1) pk] by (auto simp: only_files_def dir_files_def F1)
  have dirs: "dk_dirs d' = filepath_Join [?root, k] # dk_dirs d" using O by (simp add: only_files_def d1)
  have other: "ps_inv G q d' (fst (the (A k'))) (snd (the (A k')))"
    if q: "map_of (bs_stores bs) k' = Some q" "k' \<noteq> k" for k' q
  proof (rule ps_inv_same [OF D(10) [OF q(1)]])
    have pk': "plain_name k'" using D(7) [OF q(1)] by (rule valid_key_plain)
    then show "same_dir (ps_dir q) d d'"
      using D(8) [OF q(1)] ne files [OF pk' q(2)] dirs O by (auto simp: same_dir_def only_files_def d1)
  qed
  have last: "last (clean_elems (filepath_Join [?root, k])) = k"
    using path_string_parts(2) [OF canonical_snoc [OF canonical_clean_elems pk]] by (simp add: Join_entry [OF ne pk])
  show ?thesis
  proof (rule bs_invI)
    show "filepath_Join [bs_rootDir (bs\<lparr>bs_stores := AList.update k ps (bs_stores bs)\<rparr>), k'] \<notin> set (dk_dirs d')"
      if "valid_key k'" "k' \<notin> dom (A(k \<mapsto> ([], cur)))" for k'
      using dirs D(11) [OF that(1)] Join_entry_inj [OF ne valid_key_plain [OF that(1)] pk] that(2) by simp
    show "file_at d' (filepath_Join [bs_rootDir (bs\<lparr>bs_stores := AList.update k ps (bs_stores bs)\<rparr>), k'], n) = None"
      if "valid_key k'" "k' \<notin> dom (A(k \<mapsto> ([], cur)))" for k' n
      using files [OF valid_key_plain [OF that(1)]] D(12) [OF that(1)] that(2) by simp
    show "file_at d' (filepath_Clean (bs_rootDir (bs\<lparr>bs_stores := AList.update k ps (bs_stores bs)\<rparr>)), k') = None"
      if "valid_key k'" for k'
      using O D(13) [OF that] Clean_not_entry [OF ne pk] ne pk by (auto simp: only_files_def dir_files_def F1)
    show "valid_key k' \<and> ps_dir q = filepath_Join [bs_rootDir (bs\<lparr>bs_stores := AList.update k ps (bs_stores bs)\<rparr>), k'] \<and>
        ps_cfg q = bs_cfg (bs\<lparr>bs_stores := AList.update k ps (bs_stores bs)\<rparr>) \<and>
        ps_inv G q d' (fst (the ((A(k \<mapsto> ([], cur))) k'))) (snd (the ((A(k \<mapsto> ([], cur))) k')))"
      if "map_of (bs_stores (bs\<lparr>bs_stores := AList.update k ps (bs_stores bs)\<rparr>)) k' = Some q" for k' q
      using that other D(7-9) V P by (cases "k' = k") (simp_all add: update_conv')
    show "last (clean_elems x) \<in> dom (A(k \<mapsto> ([], cur))) \<or> partitionDirRe (last (clean_elems x)) = None"
      if "x \<in> set (dk_dirs d')"
        "is_child (filepath_Clean (bs_rootDir (bs\<lparr>bs_stores := AList.update k ps (bs_stores bs)\<rparr>))) x" for x
      using that D(14) [of x] dirs last by auto
  qed (use O D(1-6) dirs in \<open>simp_all add: only_files_def root_exists_def distinct_update dom_update d1\<close>)
qed

lemma GetOrCreate_ok:
  assumes I: "bs_inv G bs d A" and V: "valid_tp topic pid"
  obtains bs' d' where "GetOrCreatePartition topic pid bs d = (Inr (partitionKey topic pid), bs', d')"
    "bs_inv G bs' d' (created (partitionKey topic pid) A)" "bs_rootDir bs' = bs_rootDir bs" "bs_cfg bs' = bs_cfg bs"
proof (cases "map_of (bs_stores bs) (partitionKey topic pid)")
  case (Some ps)
  then have "A (partitionKey topic pid) \<noteq> None" using bs_inv_lookup [OF I] by (metis option.distinct(1))
  then have "created (partitionKey topic pid) A = A" unfolding created_def by (simp only: if_False)
  then show thesis
    using I GetOrCreate_existing [OF Some] by (intro that [of bs d]) simp_all
next
  case None
  let ?k = "partitionKey topic pid" and ?root = "bs_rootDir bs"
  let ?dir = "filepath_Join [?root, ?k]"
  let ?d1 = "d\<lparr>dk_dirs := ?dir # dk_dirs d\<rparr>"
  note D = bs_invD [OF I] and ne = bs_inv_root [OF I]
  have vk: "valid_key ?k" using V by (auto simp: valid_key_def)
  then have pk: "plain_name ?k" by (rule valid_key_plain)
  have Ak: "A ?k = None" using bs_inv_lookup [OF I] None by simp
  then have kdom: "?k \<notin> dom A" by auto
  have M: "os_MkdirAll ?dir d = (None, ?d1)"
    by (rule MkdirAll_entry [OF D(1) pk D(11) [OF vk kdom] D(2) D(13) [OF vk]])
  have cl: "filepath_Clean ?dir = ?dir" using ne pk by simp
  have W: "writable_dir ?dir ?d1" using cl D(2) by (simp add: writable_dir_def)
  have "file_at ?d1 (?dir, n) = None" for n using D(12) [OF vk kdom] by (simp add: file_at_def)
  then have E: "content ?d1 (log_path ?dir b) = []" "content ?d1 (index_path ?dir b) = []" for b
    using cl by (simp_all add: content_def log_path_def index_path_def file_path_def)
  obtain ps d' where P: "OpenPartitionStore ?dir (bs_cfg bs) ?d1 = (Inr ps, d')" "ps_inv G ps d' [] []"
    "ps_dir ps = ?dir" "ps_cfg ps = bs_cfg bs" and O: "only_files (dir_files ?dir) ?d1 d'"
    by (rule OpenPartitionStore_fresh [OF W D(4) E])
  have "GetOrCreatePartition topic pid bs d = (Inr ?k, bs\<lparr>bs_stores := AList.update ?k ps (bs_stores bs)\<rparr>, d')"
    using None M P(1) by (simp add: GetOrCreatePartition_def partitionDir_def Let_def)
  moreover have "bs_inv G (bs\<lparr>bs_stores := AList.update ?k ps (bs_stores bs)\<rparr>) d' (created ?k A)"
    using bs_inv_insert [OF I None vk refl P(2-4) O] Ak by (simp add: created_def)
  ultimately show thesis by (rule that) simp_all
qed

section \<open>Appending and reading\<close>

lemma bs_inv_store:
  assumes "bs_inv G bs d A" and "A k = Some (cs, cur)"
  obtains ps where "map_of (bs_stores bs) k = Some ps" "ps_inv G ps d cs cur" "ps_cfg ps = bs_cfg bs"
    "broker_Size k bs = int (length (log_bytes cur))"
proof -
  obtain ps where K: "map_of (bs_stores bs) k = Some ps"
    using assms(2) bs_inv_lookup [OF assms(1), of k] by (metis option.exhaust option.distinct(1))
  have P: "ps_inv G ps d cs cur" using bs_invD(10) [OF assms(1) K] assms(2) by simp
  moreover have "broker_Size k bs = int (length (log_bytes cur))"
    using seg_inv_size [OF ps_invD(1) [OF P]] by (simp add: broker_Size_def K partition_Size_def)
  ultimately show thesis using K bs_invD(9) [OF assms(1) K] by (intro that)
qed

definition total_bytes :: "bytes list list \<times> bytes list \<Rightarrow> int" where
  "total_bytes p = int (length (log_bytes (concat (fst p) @ snd p)))"

lemma broker_Append_ok:
  assumes I: "bs_inv G bs d A" and K: "A k = Some (cs, cur)" and L: "length p < 2 ^ 32"
    and fits: "4 + int (length p) \<le> max_size_of (bs_cfg bs)"
    and small: "total_bytes (cs, cur) + (4 + int (length p)) < 2 ^ 62"
    and abs: "log_append (max_size_of (bs_cfg bs)) p cs cur = (off, cs', cur')"
  obtains bs' d' where "broker_Append k p bs d = (Inr off, bs', d')" "bs_inv G bs' d' (A(k \<mapsto> (cs', cur')))"
    "bs_rootDir bs' = bs_rootDir bs" "bs_cfg bs' = bs_cfg bs" "dk_now d' = dk_now d"
proof -
  obtain ps where P: "map_of (bs_stores bs) k = Some ps" "ps_inv G ps d cs cur" "ps_cfg ps = bs_cfg bs"
    using bs_inv_store [OF I K] by metis
  have small': "ps_nextBase ps + sg_size (ps_active ps) + (4 + int (length p)) < 2 ^ 62"
    using small ps_inv_total [OF P(2)] by (simp add: total_bytes_def)
  obtain ps' d' where A: "partition_Append p ps d = (Inr off, ps', d')" "ps_inv G ps' d' cs' cur'"
    "ps_dir ps' = ps_dir ps" "ps_cfg ps' = ps_cfg ps" "only_files (dir_files (ps_dir ps)) d d'"
    using partition_Append_ok [OF P(2) bs_invD(3) [OF I] L _ small', of off cs' cur'] fits abs P(3) by metis
  from bs_inv_update [OF I P(1) A(2-5)] A(5) show thesis
    by (intro that [of "bs\<lparr>bs_stores := AList.update k ps' (bs_stores bs)\<rparr>" d'])
      (simp_all add: broker_Append_def P(1) A(1) only_files_def)
qed

lemma broker_Read_ok:
  assumes I: "bs_inv G bs d A" and K: "A k = Some (cs, cur)"
    and off: "0 \<le> off" "off < int (length (log_bytes cur))" and n: "0 < n" "n < 2 ^ 31"
  obtains bs' d' where "broker_Read k off n bs d =
      (Inr (\<lparr>rd_data = take (nat (min n (int (length (log_bytes cur)) - off))) (drop (nat off) (log_bytes cur)),
              rd_err = io_EOF\<rparr>, min n (int (length (log_bytes cur)) - off)), bs', d')"
    "bs_inv G bs' d' A" "bs_rootDir bs' = bs_rootDir bs" "bs_cfg bs' = bs_cfg bs"
proof -
  obtain ps where P: "map_of (bs_stores bs) k = Some ps" "ps_inv G ps d cs cur" "ps_cfg ps = bs_cfg bs"
    using bs_inv_store [OF I K] by metis
  have sz: "partition_Size ps = int (length (log_bytes cur))"
    using seg_inv_size [OF ps_invD(1) [OF P(2)]] by (simp add: partition_Size_def)
  obtain ps' d' where R: "partition_Read off n ps d =
      (Inr (\<lparr>rd_data = take (nat (min n (partition_Size ps - off))) (drop (nat off) (log_bytes cur)), rd_err = io_EOF\<rparr>,
         min n (partition_Size ps - off)), ps', d')" "ps_inv G ps' d' cs cur"
    "ps_dir ps' = ps_dir ps" "ps_cfg ps' = ps_cfg ps" "only_files (dir_files (ps_dir ps)) d d'"
    using partition_Read_ok [OF P(2) bs_invD(3) [OF I] off(1) _ n] off(2) sz by metis
  have "A(k \<mapsto> (cs, cur)) = A" using K by (simp add: fun_upd_idem)
  with bs_inv_update [OF I P(1) R(2-5)] show thesis
    by (intro that [of "bs\<lparr>bs_stores := AList.update k ps' (bs_stores bs)\<rparr>" d'])
      (simp_all add: broker_Read_def P(1) R(1) sz)
qed

lemma broker_Read_refuse:
  assumes I: "bs_inv G bs d A" and K: "A k = Some (cs, cur)" and bad: "i64 off < 0 \<or> n \<le> 0"
  obtains r bs' d' where "broker_Read k off n bs d = (r, bs', d')" "bs_inv G bs' d' A"
    "bs_rootDir bs' = bs_rootDir bs" "bs_cfg bs' = bs_cfg bs"
    "\<And>rd m. r = Inr (rd, m) \<Longrightarrow> rd_data rd = [] \<and> 0 < m"
proof -
  obtain ps where P: "map_of (bs_stores bs) k = Some ps" "ps_inv G ps d cs cur"
    using bs_inv_store [OF I K] by metis
  obtain r ps' d' where R: "partition_Read off n ps d = (r, ps', d')" "ps_inv G ps' d' cs cur"
    "ps_dir ps' = ps_dir ps" "ps_cfg ps' = ps_cfg ps" "only_files (dir_files (ps_dir ps)) d d'"
    "\<And>rd m. r = Inr (rd, m) \<Longrightarrow> rd_data rd = [] \<and> 0 < m"
    using partition_Read_refuse [OF P(2) bs_invD(3) [OF I] bad] by metis
  have "A(k \<mapsto> (cs, cur)) = A" using K by (simp add: fun_upd_idem)
  with bs_inv_update [OF I P(1) R(2-5)] R(6) show thesis
    by (intro that [of r "bs\<lparr>bs_stores := AList.update k ps' (bs_stores bs)\<rparr>" d'])
      (simp_all add: broker_Read_def P(1) R(1))
qed

end
