(* ===== verification/Handler.thy ===== *)
theory Handler
  imports Requests_Group Response_Laws Offset_Records Metrics Broker_Laws
begin

text \<open>
  \<open>internal/server/handler.go\<close>: the request handlers, the dispatcher and the connection
  loop.  A handler works on a connection and on the state of the process, which is the broker
  store, the offset cache, the metrics and the disk below the store.  The locks of the source
  are not modelled: one connection is served at a time.

  A handler returns \<open>nil\<close>, an error, which ends the connection, or a panic, which ends the
  process since nothing recovers from it.
\<close>

section \<open>State and plumbing\<close>

record ('c, 'h) handler =
  hn_store :: broker_store
  hn_offsetCache :: "offsetCacheKey \<rightharpoonup> int64"
  hn_metrics :: "('c, 'h) metrics"
  hn_disk :: disk

definition NewHandler :: "broker_store \<Rightarrow> ('c, 'h) metrics \<Rightarrow> disk \<Rightarrow> ('c, 'h) handler" where
  "NewHandler store m d = \<lparr>hn_store = store, hn_offsetCache = Map.empty, hn_metrics = m, hn_disk = d\<rparr>"

type_synonym 's handling = "conn \<Rightarrow> 's \<Rightarrow> unit result \<times> conn \<times> 's"

definition on_conn :: "'a dec \<Rightarrow> conn \<Rightarrow> 'a result \<times> conn" where
  "on_conn m c = (case m (cn_in c) of (r, rd) \<Rightarrow> (r, c\<lparr>cn_in := rd\<rparr>))"

text \<open>Parse the request body, return early with a wrapped error, or go on with the request.\<close>

definition parse_then :: "string \<Rightarrow> 'a dec \<Rightarrow> ('a \<Rightarrow> 's handling) \<Rightarrow> 's handling" where
  "parse_then msg m f c s =
     (case on_conn m c of
        (Inl (Err e), c1) \<Rightarrow> (Inl (Err (Wrapf msg [] e)), c1, s)
      | (Inl (Panic p), c1) \<Rightarrow> (Inl (Panic p), c1, s)
      | (Inr req, c1) \<Rightarrow> f req c1 s)"

text \<open>The end of a handler: write, and wrap the error of the write.\<close>

definition finish :: "string \<Rightarrow> action \<Rightarrow> 's handling" where
  "finish msg act c s =
     (case act c of
        (None, c1) \<Rightarrow> (Inr (), c1, s)
      | (Some e, c1) \<Rightarrow> (Inl (Err (Wrapf msg [] e)), c1, s))"

definition reply :: "string \<Rightarrow> (encoder \<Rightarrow> encoder) \<Rightarrow> 's handling" where
  "reply msg f = finish msg (conn_Write (FullMessage (f NewEncoder)))"

text \<open>A loop whose body changes the state, collects a value and may panic.\<close>

primrec each_of :: "('a \<Rightarrow> 's \<Rightarrow> 'b result \<times> 's) \<Rightarrow> 'a list \<Rightarrow> 's \<Rightarrow> 'b list result \<times> 's" where
  "each_of f [] s = (Inr [], s)"
| "each_of f (x # xs) s =
     (case f x s of
        (Inl e, s1) \<Rightarrow> (Inl e, s1)
      | (Inr y, s1) \<Rightarrow>
          (case each_of f xs s1 of
             (Inl e, s2) \<Rightarrow> (Inl e, s2)
           | (Inr ys, s2) \<Rightarrow> (Inr (y # ys), s2)))"

text \<open>The operations of the store, on the store and the disk of the state.\<close>

definition get_partition :: "string \<Rightarrow> int32 \<Rightarrow> ('c, 'h) handler \<Rightarrow> (goerr + string) \<times> ('c, 'h) handler" where
  "get_partition topic pid h =
     (case GetOrCreatePartition topic (sint pid) (hn_store h) (hn_disk h) of
        (r, bs, d) \<Rightarrow> (r, h\<lparr>hn_store := bs, hn_disk := d\<rparr>))"

definition append_to :: "string \<Rightarrow> bytes \<Rightarrow> ('c, 'h) handler \<Rightarrow> (goerr + int) \<times> ('c, 'h) handler" where
  "append_to key data h =
     (case broker_Append key data (hn_store h) (hn_disk h) of
        (r, bs, d) \<Rightarrow> (r, h\<lparr>hn_store := bs, hn_disk := d\<rparr>))"

definition read_window ::
    "string \<Rightarrow> int \<Rightarrow> int \<Rightarrow> ('c, 'h) handler \<Rightarrow> (goerr + (go_reader \<times> int)) \<times> ('c, 'h) handler" where
  "read_window key off n h =
     (case broker_Read key off n (hn_store h) (hn_disk h) of
        (r, bs, d) \<Rightarrow> (r, h\<lparr>hn_store := bs, hn_disk := d\<rparr>))"

definition size_of :: "string \<Rightarrow> ('c, 'h) handler \<Rightarrow> int64" where
  "size_of key h = word_of_int (broker_Size key (hn_store h))"

section \<open>ApiVersions\<close>

definition handleApiVersions :: "request_header \<Rightarrow> ('c, 'h) handler handling" where
  "handleApiVersions header =
     reply ''handleApiVersions: write response: %w'' (EncodeApiVersionsResponse (rh_CorrelationID header))"

section \<open>Produce\<close>

definition produce_partition_step ::
    "('c, 'h) prometheus \<Rightarrow> string \<Rightarrow> produce_partition \<Rightarrow> ('c, 'h) handler \<Rightarrow>
     produce_partition_response result \<times> ('c, 'h) handler" where
  "produce_partition_step pr topic part h =
     (let partResp = \<lparr>ppr_BaseOffset = 0, ppr_Partition = pp_Partition part, ppr_ErrorCode = 0\<rparr>;
          failed = (\<lambda>code. partResp\<lparr>ppr_ErrorCode := code, ppr_BaseOffset := - 1\<rparr>)
      in case (if pp_RecordBatch part \<noteq> [] then ValidateRecordBatch (pp_RecordBatch part) else Inr 0) of
           Inl (Panic p) \<Rightarrow> (Inl (Panic p), h)
         | Inl (Err e) \<Rightarrow> (Inr (failed ErrCodeCorruptMessage), h)
         | Inr recordCount \<Rightarrow>
             (case get_partition topic (pp_Partition part) h of
                (Inl e, h1) \<Rightarrow> (Inr (failed 1), h1)
              | (Inr key, h1) \<Rightarrow>
                  (case append_to key (pp_RecordBatch part) h1 of
                     (r, h2) \<Rightarrow>
                       (case ObserveDiskWrite pr topic (dk_now (hn_disk h1)) (dk_now (hn_disk h2)) (hn_metrics h2) of
                          Inl f \<Rightarrow> (Inl f, h2)
                        | Inr m1 \<Rightarrow>
                            (case r of
                               Inl e \<Rightarrow> (Inr (failed 1), h2\<lparr>hn_metrics := m1\<rparr>)
                             | Inr offset \<Rightarrow>
                                 (case add_produced pr topic (sint recordCount) m1 of
                                    Inl f \<Rightarrow> (Inl f, h2\<lparr>hn_metrics := m1\<rparr>)
                                  | Inr m2 \<Rightarrow>
                                      (Inr (partResp\<lparr>ppr_BaseOffset := word_of_int offset\<rparr>),
                                       h2\<lparr>hn_metrics := m2\<rparr>)))))))"

definition produce_topic_step ::
    "('c, 'h) prometheus \<Rightarrow> produce_topic \<Rightarrow> ('c, 'h) handler \<Rightarrow> produce_topic_response result \<times> ('c, 'h) handler" where
  "produce_topic_step pr topic h =
     (case each_of (produce_partition_step pr (pt_TopicName topic)) (pt_Partitions topic) h of
        (Inl f, h1) \<Rightarrow> (Inl f, h1)
      | (Inr ps, h1) \<Rightarrow> (Inr \<lparr>ptr_TopicName = pt_TopicName topic, ptr_Partitions = ps\<rparr>, h1))"

definition handleProduce :: "('c, 'h) prometheus \<Rightarrow> request_header \<Rightarrow> ('c, 'h) handler handling" where
  "handleProduce pr header =
     parse_then ''handleProduce: parse: %w'' (ParseProduceRequest header)
       (\<lambda>req c h.
          case each_of (produce_topic_step pr) (pr_Topics req) h of
            (Inl f, h1) \<Rightarrow> (Inl f, c, h1)
          | (Inr topics, h1) \<Rightarrow>
              if pr_Acks req = AcksNone then (Inr (), c, h1)
              else reply ''handleProduce: write response: %w''
                     (EncodeProduceResponse (rh_CorrelationID header) topics) c h1)"

section \<open>Fetch\<close>

text \<open>
  The loop that rewrites the base offsets.  \<open>pos\<close> moves by at least the twelve bytes of the
  two leading fields, so the loop ends.
\<close>

function patch_batches :: "nat \<Rightarrow> 64 word \<Rightarrow> bytes \<Rightarrow> bytes" where
  "patch_batches pos currentPos payload =
     (if pos + 27 \<le> length payload
      then
        let batchLen = unat (Uint32_at payload (pos + 8));
            totalBatchBytes = 12 + batchLen
        in if length payload < pos + totalBatchBytes then payload
           else
             let lastOffsetDelta = Uint32_at payload (pos + 23) :: int32;
                 nextPhysical = currentPos + 4 + word_of_nat totalBatchBytes;
                 targetBase = nextPhysical - scast lastOffsetDelta - 1
             in patch_batches (pos + totalBatchBytes) (nextPhysical - 4)
                  (take pos payload @ be_put 8 targetBase @ drop (pos + 8) payload)
      else payload)"
  by pat_completeness auto

termination
  by (relation "measure (\<lambda>(pos, cur, payload). length payload - pos)") auto

declare patch_batches.simps [simp del]

text \<open>From the read on: the window is read, unframed, patched and counted.\<close>

definition serve_window ::
    "('c, 'h) prometheus \<Rightarrow> string \<Rightarrow> fetch_partition \<Rightarrow> string \<Rightarrow> int32 \<Rightarrow> fetch_partition_response \<Rightarrow>
     int32 \<Rightarrow> ('c, 'h) handler \<Rightarrow> fetch_partition_response result \<times> int32 \<times> ('c, 'h) handler" where
  "serve_window pr topic part key cap partResp remaining h1 =
     (let out_of_range = (\<lambda>h'. (Inr (partResp\<lparr>fpr_ErrorCode := ErrCodeOffsetOutOfRange\<rparr>), remaining, h'))
      in case read_window key (uint (fp_FetchOffset part)) (sint (cap + 4)) h1 of
           (Inl e, h2) \<Rightarrow> out_of_range h2
         | (Inr (r, n), h2) \<Rightarrow>
             if n < 0 then (Inl (Panic ''makeslice: len out of range''), remaining, h2)
             else case ReadFull (nat n) r of
                    (Inl e, r') \<Rightarrow> out_of_range h2
                  | (Inr raw, r') \<Rightarrow>
                      if length raw < 4 then out_of_range h2
                      else
                        let payload = patch_batches 0 (fp_FetchOffset part) (drop 4 raw);
                            payloadLen = word_of_nat (length payload) :: int32
                        in case inc_fetched pr topic (hn_metrics h2) of
                             Inl f \<Rightarrow> (Inl f, remaining - payloadLen, h2)
                           | Inr m \<Rightarrow>
                               (Inr (partResp\<lparr>fpr_ErrorCode := ErrCodeNone, fpr_RecordBatch := Some payload,
                                              fpr_BatchSize := payloadLen\<rparr>),
                                remaining - payloadLen, h2\<lparr>hn_metrics := m\<rparr>))"

definition fetch_partition_step ::
    "('c, 'h) prometheus \<Rightarrow> string \<Rightarrow> fetch_partition \<Rightarrow> int32 \<times> ('c, 'h) handler \<Rightarrow>
     fetch_partition_response result \<times> int32 \<times> ('c, 'h) handler" where
  "fetch_partition_step pr topic part st =
     (case st of (remaining, h) \<Rightarrow>
        let partResp = \<lparr>fpr_RecordBatch = None, fpr_HighWatermark = 0, fpr_BatchSize = - 1,
                        fpr_Partition = fp_Partition part, fpr_ErrorCode = 0\<rparr>
        in case get_partition topic (fp_Partition part) h of
             (Inl e, h1) \<Rightarrow> (Inr (partResp\<lparr>fpr_ErrorCode := ErrCodeOffsetOutOfRange\<rparr>), remaining, h1)
           | (Inr key, h1) \<Rightarrow>
               let partResp = partResp\<lparr>fpr_HighWatermark := size_of key h1\<rparr>;
                   none = (Inr (partResp\<lparr>fpr_ErrorCode := ErrCodeNone\<rparr>), remaining, h1)
               in if fp_FetchOffset part = fpr_HighWatermark partResp then none
                  else if sint (fpr_HighWatermark partResp) < sint (fp_FetchOffset part)
                  then (Inr (partResp\<lparr>fpr_ErrorCode := ErrCodeOffsetOutOfRange\<rparr>), remaining, h1)
                  else
                    let cap = (if sint remaining < sint (fp_PartitionMaxBytes part) then remaining
                               else fp_PartitionMaxBytes part)
                    in if sint cap \<le> 0 then none
                       else serve_window pr topic part key cap partResp remaining h1)"

definition fetch_topic_step ::
    "('c, 'h) prometheus \<Rightarrow> fetch_topic \<Rightarrow> int32 \<times> ('c, 'h) handler \<Rightarrow>
     fetch_topic_response result \<times> int32 \<times> ('c, 'h) handler" where
  "fetch_topic_step pr topic st =
     (case each_of (fetch_partition_step pr (ft_TopicName topic)) (ft_Partitions topic) st of
        (Inl f, st1) \<Rightarrow> (Inl f, st1)
      | (Inr ps, st1) \<Rightarrow> (Inr \<lparr>ftr_TopicName = ft_TopicName topic, ftr_Partitions = ps\<rparr>, st1))"

definition handleFetch :: "('c, 'h) prometheus \<Rightarrow> request_header \<Rightarrow> ('c, 'h) handler handling" where
  "handleFetch pr header =
     parse_then ''handleFetch: parse: %w'' (ParseFetchRequest header)
       (\<lambda>req c h.
          case each_of (fetch_topic_step pr) (fr_Topics req) (fr_MaxBytes req, h) of
            (Inl f, rem, h1) \<Rightarrow> (Inl f, c, h1)
          | (Inr topics, rem, h1) \<Rightarrow>
              finish ''handleFetch: write response: %w''
                (WriteFetchResponse (rh_CorrelationID header) \<lparr>fs_Topics = topics, fs_ThrottleTimeMs = 0\<rparr>) c h1)"

section \<open>Metadata\<close>

definition ensure_topic :: "string \<Rightarrow> ('c, 'h) handler \<Rightarrow> ('c, 'h) handler" where
  "ensure_topic t h = snd (get_partition t 0 h)"

text \<open>
  Grouping by topic.  The source ranges over a map, in an unspecified order; the model takes
  the order in which the topics first occur.
\<close>

definition add_by_topic :: "string \<times> int \<Rightarrow> (string \<times> int list) list \<Rightarrow> (string \<times> int list) list" where
  "add_by_topic tp byTopic =
     AList.update (fst tp) ((case map_of byTopic (fst tp) of None \<Rightarrow> [] | Some ps \<Rightarrow> ps) @ [snd tp]) byTopic"

definition partition_meta :: "int \<Rightarrow> partition_metadata" where
  "partition_meta pid =
     \<lparr>pm_Replicas = [1], pm_Isr = [1], pm_OfflineReplicas = [], pm_Partition = word_of_int pid, pm_Leader = 1,
      pm_ErrorCode = 0\<rparr>"

definition topic_meta :: "string \<times> int list \<Rightarrow> topic_metadata" where
  "topic_meta tp =
     \<lparr>tm_Partitions = map partition_meta (snd tp), tm_Name = fst tp, tm_ErrorCode = 0, tm_IsInternal = False\<rparr>"

definition advertised_host :: "(string \<Rightarrow> string) \<Rightarrow> string" where
  "advertised_host env =
     (if env ''KAGE_ADVERTISED_HOST'' = [] then ''127.0.0.1'' else env ''KAGE_ADVERTISED_HOST'')"

definition metadata_of :: "(string \<Rightarrow> string) \<Rightarrow> broker_store \<Rightarrow> metadata_response" where
  "metadata_of env store =
     \<lparr>mp_ClusterID = None,
      mp_Brokers = [\<lparr>br_Host = advertised_host env, br_Rack = None, br_NodeID = 1, br_Port = 9092\<rparr>],
      mp_Topics = map topic_meta (fold add_by_topic (Topics store) []),
      mp_ControllerID = 1\<rparr>"

definition handleMetadata :: "(string \<Rightarrow> string) \<Rightarrow> request_header \<Rightarrow> ('c, 'h) handler handling" where
  "handleMetadata env header =
     parse_then ''handleMetadata: %w'' (ParseMetadataRequest header)
       (\<lambda>req c h.
          let h1 = fold ensure_topic (mr_Topics req) h
          in reply ''handleMetadata: failed to write response: %w''
               (EncodeMetadataResponse (rh_CorrelationID header) (rh_ApiVersion header) (metadata_of env (hn_store h1)))
               c h1)"

section \<open>Committed offsets\<close>

definition commit_partition_step ::
    "string \<Rightarrow> string \<Rightarrow> offset_commit_partition \<Rightarrow> ('c, 'h) handler \<Rightarrow> (int32 \<times> int16) result \<times> ('c, 'h) handler" where
  "commit_partition_step groupID topic part h =
     (let key = encodeOffsetKey groupID topic (ocp_Partition part);
          rec = encodeOffsetRecord key (be_put 8 (ocp_CommittedOffset part))
      in case get_partition ConsumerOffsetsTopic 0 h of
           (Inl e, h1) \<Rightarrow> (Inr (ocp_Partition part, 1), h1)
         | (Inr k, h1) \<Rightarrow>
             (case append_to k rec h1 of
                (Inl e, h2) \<Rightarrow> (Inr (ocp_Partition part, 1), h2)
              | (Inr offset, h2) \<Rightarrow>
                  let cacheKey = \<lparr>ock_GroupID = groupID, ock_Topic = topic, ock_Partition = ocp_Partition part\<rparr>
                  in (Inr (ocp_Partition part, 0),
                      h2\<lparr>hn_offsetCache := (hn_offsetCache h2)(cacheKey \<mapsto> ocp_CommittedOffset part)\<rparr>)))"

definition commit_topic_step ::
    "string \<Rightarrow> offset_commit_topic \<Rightarrow> ('c, 'h) handler \<Rightarrow> offset_commit_topic_response result \<times> ('c, 'h) handler" where
  "commit_topic_step groupID topic h =
     (case each_of (commit_partition_step groupID (oct_TopicName topic)) (oct_Partitions topic) h of
        (Inl f, h1) \<Rightarrow> (Inl f, h1)
      | (Inr ps, h1) \<Rightarrow> (Inr \<lparr>octr_TopicName = oct_TopicName topic, octr_Partitions = ps\<rparr>, h1))"

definition handleOffsetCommit :: "request_header \<Rightarrow> ('c, 'h) handler handling" where
  "handleOffsetCommit header =
     parse_then ''handleOffsetCommit: parse: %w'' (ParseOffsetCommitRequest header)
       (\<lambda>req c h.
          case each_of (commit_topic_step (ocr_GroupID req)) (ocr_Topics req) h of
            (Inl f, h1) \<Rightarrow> (Inl f, c, h1)
          | (Inr topics, h1) \<Rightarrow>
              reply ''handleOffsetCommit: write response: %w''
                (EncodeOffsetCommitResponse (rh_CorrelationID header) topics) c h1)"

definition cached_offset ::
    "(offsetCacheKey \<rightharpoonup> int64) \<Rightarrow> string \<Rightarrow> string \<Rightarrow> int32 \<Rightarrow> offset_fetch_partition_response" where
  "cached_offset cache groupID topic pid =
     \<lparr>ofpr_CommittedOffset =
        (case cache \<lparr>ock_GroupID = groupID, ock_Topic = topic, ock_Partition = pid\<rparr> of
           None \<Rightarrow> OffsetUnknown | Some off \<Rightarrow> off),
      ofpr_CommittedMetadata = [], ofpr_Partition = pid, ofpr_ErrorCode = 0\<rparr>"

definition handleOffsetFetch :: "request_header \<Rightarrow> ('c, 'h) handler handling" where
  "handleOffsetFetch header =
     parse_then ''handleOffsetFetch: parse: %w'' (ParseOffsetFetchRequest header)
       (\<lambda>req c h.
          reply ''handleOffsetFetch: write response: %w''
            (EncodeOffsetFetchResponse (rh_CorrelationID header)
              (map (\<lambda>t. \<lparr>oftr_TopicName = oft_TopicName t,
                          oftr_Partitions = map (cached_offset (hn_offsetCache h) (ofr_GroupID req) (oft_TopicName t))
                                              (oft_Partitions t)\<rparr>)
                (ofr_Topics req))) c h)"

text \<open>
  Filling the cache at start-up.  Every round of the loop consumes the four bytes of a record
  length.
\<close>

function load_offsets :: "go_reader \<Rightarrow> (offsetCacheKey \<rightharpoonup> int64) \<Rightarrow> goerr option \<times> (offsetCacheKey \<rightharpoonup> int64)" where
  "load_offsets r cache =
     (case ReadFull 4 r of
        (Inl e, r1) \<Rightarrow>
          if errors_Is e io_EOF \<or> errors_Is e io_ErrUnexpectedEOF then (None, cache)
          else (Some (Wrapf ''LoadOffsetsCache: read record length: %w'' [] e), cache)
      | (Inr lenBuf, r1) \<Rightarrow>
          (case ReadFull (unat (be_get lenBuf :: 32 word)) r1 of
             (Inl e, r2) \<Rightarrow> (Some (Wrapf ''LoadOffsetsCache: read record body: %w'' [] e), cache)
           | (Inr rec, r2) \<Rightarrow>
               (case decodeOffsetRecord rec of
                  Inl e \<Rightarrow> load_offsets r2 cache
                | Inr ko \<Rightarrow> load_offsets r2 (cache(fst ko \<mapsto> snd ko)))))"
  by pat_completeness auto

termination
  by (relation "measure (\<lambda>(r, cache). length (rd_data r))") (auto simp: ReadFull_def split: if_splits)

declare load_offsets.simps [simp del]

definition LoadOffsetsCache :: "('c, 'h) handler \<Rightarrow> goerr option \<times> ('c, 'h) handler" where
  "LoadOffsetsCache h =
     (case get_partition ConsumerOffsetsTopic 0 h of
        (Inl e, h1) \<Rightarrow> (Some (Wrapf ''LoadOffsetsCache: open partition: %w'' [] e), h1)
      | (Inr key, h1) \<Rightarrow>
          let size = sint (size_of key h1)
          in if size = 0 then (None, h1)
             else
               let maxBytes = (if 2 ^ 31 - 1 < size then 2 ^ 31 - 1 else i32 size)
               in case read_window key 0 maxBytes h1 of
                    (Inl e, h2) \<Rightarrow> (Some (Wrapf ''LoadOffsetsCache: read partition: %w'' [] e), h2)
                  | (Inr (r, n), h2) \<Rightarrow>
                      (case load_offsets r (hn_offsetCache h2) of
                         (e, cache) \<Rightarrow> (e, h2\<lparr>hn_offsetCache := cache\<rparr>)))"

section \<open>List offsets\<close>

definition list_offsets_step ::
    "string \<Rightarrow> list_offsets_partition \<Rightarrow> ('c, 'h) handler \<Rightarrow> list_offsets_partition_response result \<times> ('c, 'h) handler" where
  "list_offsets_step topic part h =
     (let partResp = \<lparr>lopr_Partition = lop_Partition part, lopr_ErrorCode = 0, lopr_Timestamp = - 1, lopr_Offset = 0\<rparr>
      in if lop_Timestamp part = TimestampEarliest then (Inr partResp, h)
         else if lop_Timestamp part = TimestampLatest
         then case get_partition topic (lop_Partition part) h of
                (Inl e, h1) \<Rightarrow> (Inr (partResp\<lparr>lopr_ErrorCode := ErrCodeUnknownTopicOrPartition\<rparr>), h1)
              | (Inr key, h1) \<Rightarrow> (Inr (partResp\<lparr>lopr_Offset := size_of key h1\<rparr>), h1)
         else (Inr partResp, h))"

definition list_offsets_topic_step ::
    "list_offsets_topic \<Rightarrow> ('c, 'h) handler \<Rightarrow> list_offsets_topic_response result \<times> ('c, 'h) handler" where
  "list_offsets_topic_step topic h =
     (case each_of (list_offsets_step (lot_TopicName topic)) (lot_Partitions topic) h of
        (Inl f, h1) \<Rightarrow> (Inl f, h1)
      | (Inr ps, h1) \<Rightarrow> (Inr \<lparr>lotr_TopicName = lot_TopicName topic, lotr_Partitions = ps\<rparr>, h1))"

definition handleListOffsets :: "request_header \<Rightarrow> ('c, 'h) handler handling" where
  "handleListOffsets header =
     parse_then ''handleListOffsets: parse: %w'' (ParseListOffsetsRequest header)
       (\<lambda>req c h.
          case each_of list_offsets_topic_step (lor_Topics req) h of
            (Inl f, h1) \<Rightarrow> (Inl f, c, h1)
          | (Inr topics, h1) \<Rightarrow>
              reply ''handleListOffsets: write response: %w''
                (EncodeListOffsetsResponse (rh_CorrelationID header) topics) c h1)"

section \<open>Group coordination\<close>

definition dummyMemberID :: string where
  "dummyMemberID = ''kage-member-1''"

definition handleFindCoordinator :: "(string \<Rightarrow> string) \<Rightarrow> request_header \<Rightarrow> ('c, 'h) handler handling" where
  "handleFindCoordinator env header =
     parse_then ''handleFindCoordinator: parse: %w'' (ParseFindCoordinatorRequest header)
       (\<lambda>_. reply ''handleFindCoordinator: write response: %w''
              (EncodeFindCoordinatorResponse (rh_CorrelationID header) 1 (advertised_host env) 9092))"

definition handleJoinGroup :: "request_header \<Rightarrow> ('c, 'h) handler handling" where
  "handleJoinGroup header =
     parse_then ''handleJoinGroup: parse: %w'' (ParseJoinGroupRequest header)
       (\<lambda>req.
          let chosen = (case jgr_Protocols req of [] \<Rightarrow> ([], []) | p # _ \<Rightarrow> (jgp_Name p, jgp_Metadata p))
          in reply ''handleJoinGroup: write response: %w''
               (EncodeJoinGroupResponse (rh_CorrelationID header) 1 (fst chosen) dummyMemberID dummyMemberID
                  [\<lparr>jgm_MemberID = dummyMemberID, jgm_Metadata = snd chosen\<rparr>]))"

definition handleHeartbeat :: "request_header \<Rightarrow> ('c, 'h) handler handling" where
  "handleHeartbeat header =
     parse_then ''handleHeartbeat: parse: %w'' (ParseHeartbeatRequest header)
       (\<lambda>_. reply ''handleHeartbeat: write response: %w'' (EncodeHeartbeatResponse (rh_CorrelationID header)))"

definition handleLeaveGroup :: "request_header \<Rightarrow> ('c, 'h) handler handling" where
  "handleLeaveGroup header =
     parse_then ''handleLeaveGroup: parse: %w'' (ParseLeaveGroupRequest header)
       (\<lambda>_. reply ''handleLeaveGroup: write response: %w'' (EncodeLeaveGroupResponse (rh_CorrelationID header)))"

definition handleSyncGroup :: "request_header \<Rightarrow> ('c, 'h) handler handling" where
  "handleSyncGroup header =
     parse_then ''handleSyncGroup: parse: %w'' (ParseSyncGroupRequest header)
       (\<lambda>req.
          let assignment =
            (case find (\<lambda>a. sga_MemberID a = dummyMemberID) (sgr_Assignments req) of
               None \<Rightarrow> [] | Some a \<Rightarrow> sga_Assignment a)
          in reply ''handleSyncGroup: write response: %w''
               (EncodeSyncGroupResponse (rh_CorrelationID header) assignment))"

section \<open>Dispatch and the connection loop\<close>

definition dispatch ::
    "('c, 'h) prometheus \<Rightarrow> (string \<Rightarrow> string) \<Rightarrow> request_header \<Rightarrow> ('c, 'h) handler handling" where
  "dispatch pr env header =
     (let k = rh_ApiKey header
      in if k = ApiKeyProduce then handleProduce pr header
         else if k = ApiKeyFetch then handleFetch pr header
         else if k = ApiKeyListOffsets then handleListOffsets header
         else if k = ApiKeyMetadata then handleMetadata env header
         else if k = ApiKeyOffsetCommit then handleOffsetCommit header
         else if k = ApiKeyOffsetFetch then handleOffsetFetch header
         else if k = ApiKeyFindCoordinator then handleFindCoordinator env header
         else if k = ApiKeyJoinGroup then handleJoinGroup header
         else if k = ApiKeyHeartbeat then handleHeartbeat header
         else if k = ApiKeyLeaveGroup then handleLeaveGroup header
         else if k = ApiKeySyncGroup then handleSyncGroup header
         else if k = ApiKeyApiVersions then handleApiVersions header
         else (\<lambda>c h. (Inl (Err (Errorf ''unsupported api_key: %d'' [ArgInt (sint k)])), c, h)))"

text \<open>
  The loop has no bound of its own, so not returning is a value of its own, \<open>None\<close>.  The
  result is the message of a panic, if there was one, and what is left behind.
\<close>

partial_function (option) Handle ::
    "('c, 'h) prometheus \<Rightarrow> (string \<Rightarrow> string) \<Rightarrow> conn \<Rightarrow> ('c, 'h) handler \<Rightarrow>
     (string option \<times> conn \<times> ('c, 'h) handler) option" where
  "Handle pr env c h =
     (case on_conn ParseRequestHeader c of
        (Inl (Err e), c1) \<Rightarrow> Some (None, c1, h)
      | (Inl (Panic p), c1) \<Rightarrow> Some (Some p, c1, h)
      | (Inr header, c1) \<Rightarrow>
          (case dispatch pr env header c1 h of
             (Inl (Err e), c2, h2) \<Rightarrow> Some (None, c2, h2)
           | (Inl (Panic p), c2, h2) \<Rightarrow> Some (Some p, c2, h2)
           | (Inr _, c2, h2) \<Rightarrow> Handle pr env c2 h2))"

end
