(* ===== verification/Broker_Restart.thy ===== *)
theory Broker_Restart
  imports Broker_Laws
begin

text \<open>
  Closing the broker store and opening it again.  \<open>closed_at dir d cur\<close> describes the
  directory of a closed partition that has not rolled over; closing establishes it for every
  partition, opening turns it back into a store with the same records.
\<close>

definition closed_at :: "string \<Rightarrow> disk \<Rightarrow> bytes list \<Rightarrow> bool" where
  "closed_at dir d cur \<longleftrightarrow>
     writable_dir dir d \<and> content d (log_path dir 0) = log_bytes cur \<and>
     list_all (\<lambda>p. length p < 2 ^ 32) cur \<and> length (log_bytes cur) < 2 ^ 62 \<and>
     (\<exists>es. content d (index_path dir 0) = concat (map entry_bytes es) \<and> entries_ok cur es) \<and>
     (\<forall>b. 0 < b \<and> b < 2 ^ 64 \<longrightarrow> content d (log_path dir b) = [] \<and> content d (index_path dir b) = [])"

lemma closed_at_files:
  assumes C: "closed_at dir d cur" and W: "writable_dir dir d'"
    and F: "\<And>b. content d' (log_path dir b) = content d (log_path dir b)"
      "\<And>b. content d' (index_path dir b) = content d (index_path dir b)"
  shows "closed_at dir d' cur"
  using C W unfolding closed_at_def F by (elim conjE) (intro conjI; assumption)

lemma closed_at_same:
  assumes "closed_at dir d cur" and "same_dir dir d d'"
  shows "closed_at dir d' cur"
proof (rule closed_at_files [OF assms(1)])
  show "writable_dir dir d'"
    using assms by (auto simp: closed_at_def same_dir_def writable_dir_def)
qed (use assms(2) in \<open>simp_all add: same_dir_def content_def log_path_def index_path_def file_path_def\<close>)

lemma partition_Close_closed:
  assumes I: "ps_inv G ps d [] cur" and free: "dk_free d = None"
  obtains ps1 d1 where "partition_Close ps d = (None, ps1, d1)" "closed_at (ps_dir ps) d1 cur"
    "only_files (dir_files (ps_dir ps)) d d1"
proof -
  note D = ps_invD [OF I]
  have n0: "ps_nextBase ps = 0" using D(2) by (simp add: base_of_def)
  obtain ps1 d1 where C: "partition_Close ps d = (None, ps1, d1)"
    "content d1 (log_path (ps_dir ps) 0) = log_bytes cur"
    "content d1 (index_path (ps_dir ps) 0) = concat (map entry_bytes (ix_entries (sg_idx (ps_active ps))))"
    and O: "only_files (seg_paths (ps_active ps)) d d1"
    using partition_Close_ok [OF I free] unfolding n0 by metis
  have "content d1 (log_path (ps_dir ps) b) = [] \<and> content d1 (index_path (ps_dir ps) b) = []"
    if "0 < b" "b < 2 ^ 64" for b
    using D(11,12) [of b] that n0 log_path_inj [of b 0 "ps_dir ps"] only_files_content [OF O]
    by (simp add: seg_paths_def D(4,5))
  then have "closed_at (ps_dir ps) d1 cur"
    using C(2,3) writable_only_files [OF O D(8)] D(1) by (auto simp: closed_at_def seg_inv_def)
  then show thesis by (rule that [OF C(1) _ only_files_mono [OF O seg_paths_dir [OF I]]])
qed

text \<open>Opening changes no content, so the directory is still that of a closed partition.\<close>

lemma OpenPartitionStore_closed:
  assumes C: "closed_at dir d cur" and M: "max_size_of cfg < 2 ^ 62"
  obtains ps d' where "OpenPartitionStore dir cfg d = (Inr ps, d')" "ps_inv G ps d' [] cur"
    "ps_dir ps = dir" "ps_cfg ps = cfg" "only_files (dir_files dir) d d'" "closed_at dir d' cur"
proof -
  from C obtain es where W: "writable_dir dir d" and L: "content d (log_path dir 0) = log_bytes cur"
      "list_all (\<lambda>p. length p < 2 ^ 32) cur" "length (log_bytes cur) < 2 ^ 62"
    and X: "content d (index_path dir 0) = concat (map entry_bytes es)" "entries_ok cur es"
    and E: "\<And>b. 0 < b \<Longrightarrow> b < 2 ^ 64 \<Longrightarrow> content d (log_path dir b) = [] \<and> content d (index_path dir b) = []"
    unfolding closed_at_def by blast
  obtain ps d' where P: "OpenPartitionStore dir cfg d = (Inr ps, d')" "ps_inv G ps d' [] cur" "ps_dir ps = dir" "ps_cfg ps = cfg"
    "ix_entries (sg_idx (ps_active ps)) = es" and O: "only_files (dir_files dir) d d'"
    using OpenPartitionStore_ok [OF W M L X E] by metis
  obtain s where S: "OpenSegment dir 0 cfg d = (Inr s, d')" "ps_active ps = s"
    using P(1) by (auto simp: OpenPartitionStore_def split: prod.splits sum.splits)
  have n0: "ps_nextBase ps = 0" using ps_invD(2) [OF P(2)] by (simp add: base_of_def)
  have B: "sg_bw s = bufio_NewWriterSize writeBufferSize" "ix_bw (sg_idx s) = bufio_NewWriterSize indexWriteBufferSize"
    using S(1) by (auto simp: OpenSegment_def openIndex_def Let_def split: prod.splits sum.splits)
  have "seg_inv s d' cur" using ps_invD(1) [OF P(2)] S(2) by simp
  then have "content d' (log_path dir 0) = log_bytes cur"
    "content d' (index_path dir 0) = concat (map entry_bytes es)"
    using ps_invD(4,5) [OF P(2)] P(3,5) n0 B S(2)
    by (simp_all add: seg_inv_def index_inv_def logical_def bufio_NewWriterSize_def)
  moreover have "content d' (log_path dir b) = [] \<and> content d' (index_path dir b) = []" if "0 < b" "b < 2 ^ 64" for b
    using ps_invD(11,12) [OF P(2), of b] that n0 P(3) by simp
  ultimately have "closed_at dir d' cur"
    using L(2,3) X(2) ps_invD(8) [OF P(2)] P(3) by (auto simp: closed_at_def)
  with P(1-4) O show thesis by (rule that)
qed

section \<open>Closing\<close>

definition stores_dirs :: "(string \<times> partition_store) list \<Rightarrow> path set" where
  "stores_dirs st = (\<Union>kp \<in> set st. dir_files (ps_dir (snd kp)))"

lemma close_stores_ok:
  assumes "distinct (map (\<lambda>kp. filepath_Clean (ps_dir (snd kp))) st)" and "dk_free d = None"
    and "\<And>k ps. (k, ps) \<in> set st \<Longrightarrow> ps_inv G ps d [] (cur k)"
  shows "\<exists>st' d'. close_stores st None d = (None, st', d') \<and> only_files (stores_dirs st) d d' \<and>
    (\<forall>(k, ps) \<in> set st. closed_at (ps_dir ps) d' (cur k))"
  using assms
proof (induction st arbitrary: d)
  case Nil
  then show ?case by simp
next
  case (Cons kp st)
  obtain k ps where kp: "kp = (k, ps)" by (cases kp)
  have I: "ps_inv G ps d [] (cur k)" using Cons.prems(3) kp by simp
  obtain ps1 d1 where C: "partition_Close ps d = (None, ps1, d1)" "closed_at (ps_dir ps) d1 (cur k)"
    and O1: "only_files (dir_files (ps_dir ps)) d d1"
    using partition_Close_closed [OF I Cons.prems(2)] by metis
  have ne: "filepath_Clean (ps_dir ps) \<noteq> filepath_Clean (ps_dir q)" if "(j, q) \<in> set st" for j q
    using Cons.prems(1) that kp by force
  have "ps_inv G q d1 [] (cur j)" if "(j, q) \<in> set st" for j q
    using Cons.prems(3) [of j q] that ps_inv_same same_dir_other [OF O1 ne [OF that]] by auto
  then obtain st' d' where R: "close_stores st None d1 = (None, st', d')" "only_files (stores_dirs st) d1 d'"
    "\<forall>(j, q) \<in> set st. closed_at (ps_dir q) d' (cur j)"
    using Cons.IH [OF _ only_files_healthy [OF O1 Cons.prems(2)]] Cons.prems(1) by auto
  have "same_dir (ps_dir ps) d1 d'"
    using R(2) ne by (fastforce simp: only_files_def same_dir_def stores_dirs_def dir_files_def)
  then have "closed_at (ps_dir ps) d' (cur k)" using C(2) by (rule closed_at_same [rotated])
  moreover have "only_files (stores_dirs (kp # st)) d d'"
    by (rule only_files_trans [OF only_files_mono [OF O1] only_files_mono [OF R(2)]]) (auto simp: stores_dirs_def kp)
  ultimately show ?case using C(1) R by (simp add: kp)
qed

section \<open>Opening\<close>

definition loaded :: "path set \<Rightarrow> broker_store \<Rightarrow> disk \<Rightarrow> partition_map \<Rightarrow> bool" where
  "loaded G bs d A \<longleftrightarrow>
     distinct (map fst (bs_stores bs)) \<and>
     (\<forall>k ps. map_of (bs_stores bs) k = Some ps \<longrightarrow>
        k \<in> dom A \<and> ps_dir ps = filepath_Join [bs_rootDir bs, k] \<and> ps_cfg ps = bs_cfg bs \<and>
        ps_inv G ps d [] (snd (the (A k))))"

definition all_closed :: "string \<Rightarrow> disk \<Rightarrow> partition_map \<Rightarrow> bool" where
  "all_closed root d A \<longleftrightarrow> (\<forall>k \<in> dom A. valid_key k \<and> closed_at (filepath_Join [root, k]) d (snd (the (A k))))"

definition partitions_files :: "string \<Rightarrow> partition_map \<Rightarrow> path set" where
  "partitions_files root A = (\<Union>k \<in> dom A. dir_files (filepath_Join [root, k]))"

lemma valid_key_parse:
  assumes "valid_key k"
  obtains topic num pid where "partitionDirRe k = Some (topic, num)" "ParseInt 32 num = Inr pid" "k = partitionKey topic pid"
  using assms partitionKey_parse unfolding valid_key_def valid_tp_def by blast

lemma load_one:
  assumes ne: "bs_rootDir bs \<noteq> []" and M: "max_size_of (bs_cfg bs) < 2 ^ 62"
    and H: "all_closed (bs_rootDir bs) d A" "loaded G bs d A" and k: "k \<in> dom A"
  obtains ps d1 where "OpenPartitionStore (filepath_Join [bs_rootDir bs, k]) (bs_cfg bs) d = (Inr ps, d1)"
    "loaded G (bs\<lparr>bs_stores := AList.update k ps (bs_stores bs)\<rparr>) d1 A" "all_closed (bs_rootDir bs) d1 A"
    "only_files (dir_files (filepath_Join [bs_rootDir bs, k])) d d1"
proof -
  let ?root = "bs_rootDir bs"
  let ?dir = "\<lambda>k. filepath_Join [?root, k]"
  have C: "closed_at (?dir j) d (snd (the (A j)))" "plain_name j" if "j \<in> dom A" for j
    using H(1) that by (auto simp: all_closed_def intro: valid_key_plain)
  obtain ps d1 where P: "OpenPartitionStore (?dir k) (bs_cfg bs) d = (Inr ps, d1)" "ps_inv G ps d1 [] (snd (the (A k)))"
    "ps_dir ps = ?dir k" "ps_cfg ps = bs_cfg bs" and O: "only_files (dir_files (?dir k)) d d1"
    and C1: "closed_at (?dir k) d1 (snd (the (A k)))"
    using OpenPartitionStore_closed [OF C(1) [OF k] M] by metis
  have S: "same_dir (?dir j) d d1" if "j \<in> dom A" "j \<noteq> k" for j
    using same_dir_other [OF O, of "?dir j"] ne C(2) [OF that(1)] C(2) [OF k] that(2)
      Join_entry_inj [OF ne C(2) [OF k] C(2) [OF that(1)]] by simp
  have "all_closed ?root d1 A"
    unfolding all_closed_def
  proof
    fix j assume j: "j \<in> dom A"
    show "valid_key j \<and> closed_at (?dir j) d1 (snd (the (A j)))"
      using H(1) j C1 closed_at_same [OF C(1) [OF j] S [OF j]] by (cases "j = k") (auto simp: all_closed_def)
  qed
  moreover have "loaded G (bs\<lparr>bs_stores := AList.update k ps (bs_stores bs)\<rparr>) d1 A"
    unfolding loaded_def
  proof (intro conjI allI impI)
    show "distinct (map fst (bs_stores (bs\<lparr>bs_stores := AList.update k ps (bs_stores bs)\<rparr>)))"
      using H(2) by (simp add: loaded_def distinct_update)
    fix j q assume "map_of (bs_stores (bs\<lparr>bs_stores := AList.update k ps (bs_stores bs)\<rparr>)) j = Some q"
    then consider "j = k" "q = ps" | "j \<noteq> k" "map_of (bs_stores bs) j = Some q"
      by (auto simp: update_conv' split: if_splits)
    then have "j \<in> dom A \<and> ps_dir q = ?dir j \<and> ps_cfg q = bs_cfg bs \<and> ps_inv G q d1 [] (snd (the (A j)))"
    proof cases
      case 2
      then have q: "j \<in> dom A" "ps_dir q = ?dir j" "ps_cfg q = bs_cfg bs" "ps_inv G q d [] (snd (the (A j)))"
        using H(2) unfolding loaded_def by blast+
      then show ?thesis using ps_inv_same [OF q(4)] S [OF q(1) 2(1)] by simp
    qed (use k P in simp)
    then show "j \<in> dom A" "ps_dir q = filepath_Join [bs_rootDir (bs\<lparr>bs_stores := AList.update k ps (bs_stores bs)\<rparr>), j]"
      "ps_cfg q = bs_cfg (bs\<lparr>bs_stores := AList.update k ps (bs_stores bs)\<rparr>)" "ps_inv G q d1 [] (snd (the (A j)))"
      by simp_all
  qed
  ultimately show thesis using P(1) O that by blast
qed

lemma load_partitions_ok:
  assumes "bs_rootDir bs \<noteq> []" and "max_size_of (bs_cfg bs) < 2 ^ 62"
    and "all_closed (bs_rootDir bs) d A" and "loaded G bs d A"
    and "\<forall>e \<in> set es. de_IsDir e \<longrightarrow> de_name e \<in> dom A \<or> partitionDirRe (de_name e) = None"
  shows "\<exists>bs' d'. load_partitions es bs d = (Inr bs', d') \<and> loaded G bs' d' A \<and>
    bs_rootDir bs' = bs_rootDir bs \<and> bs_cfg bs' = bs_cfg bs \<and> only_files (partitions_files (bs_rootDir bs) A) d d' \<and>
    fst ` set (bs_stores bs) \<subseteq> fst ` set (bs_stores bs') \<and>
    (\<forall>e \<in> set es. de_IsDir e \<and> de_name e \<in> dom A \<longrightarrow> de_name e \<in> fst ` set (bs_stores bs'))"
  using assms
proof (induction es arbitrary: bs d)
  case (Cons e es)
  show ?case
  proof (cases "de_IsDir e \<and> de_name e \<in> dom A")
    case True
    let ?k = "de_name e"
    have "valid_key ?k" using Cons.prems(3) True by (simp add: all_closed_def)
    then obtain topic num pid where K: "partitionDirRe ?k = Some (topic, num)" "ParseInt 32 num = Inr pid"
      "?k = partitionKey topic pid" by (rule valid_key_parse)
    obtain ps d1 where P: "OpenPartitionStore (filepath_Join [bs_rootDir bs, ?k]) (bs_cfg bs) d = (Inr ps, d1)"
      "loaded G (bs\<lparr>bs_stores := AList.update ?k ps (bs_stores bs)\<rparr>) d1 A" "all_closed (bs_rootDir bs) d1 A"
      and O1: "only_files (dir_files (filepath_Join [bs_rootDir bs, ?k])) d d1"
      using load_one [OF Cons.prems(1-4)] True by metis
    let ?bs1 = "bs\<lparr>bs_stores := AList.update ?k ps (bs_stores bs)\<rparr>"
    obtain bs' d' where R: "load_partitions es ?bs1 d1 = (Inr bs', d')" "loaded G bs' d' A"
      "bs_rootDir bs' = bs_rootDir bs" "bs_cfg bs' = bs_cfg bs" "only_files (partitions_files (bs_rootDir bs) A) d1 d'"
      "fst ` set (AList.update ?k ps (bs_stores bs)) \<subseteq> fst ` set (bs_stores bs')"
      "\<forall>e \<in> set es. de_IsDir e \<and> de_name e \<in> dom A \<longrightarrow> de_name e \<in> fst ` set (bs_stores bs')"
      using Cons.IH [of ?bs1 d1] Cons.prems(1,2,5) P(2,3) by auto
    have "only_files (partitions_files (bs_rootDir bs) A) d d'"
      by (rule only_files_trans [OF only_files_mono [OF O1] R(5)]) (use True in \<open>auto simp: partitions_files_def\<close>)
    moreover have "load_partitions (e # es) bs d = (Inr bs', d')"
      using True K P(1) R(1) by (simp add: Let_def)
    moreover have "insert ?k (fst ` set (bs_stores bs)) \<subseteq> fst ` set (bs_stores bs')"
      using R(6) by (simp add: dom_update)
    ultimately show ?thesis using R(2-4,7) by (intro exI [of _ bs'] exI [of _ d']) auto
  next
    case False
    then have "load_partitions (e # es) bs d = load_partitions es bs d" using Cons.prems(5) by auto
    then show ?thesis using Cons.IH [OF Cons.prems(1-4)] Cons.prems(5) False by auto
  qed
qed simp

text \<open>The scan of the root directory finds the directory of every partition.\<close>

lemma Join_child:
  assumes "root \<noteq> []" and "plain_name k"
  shows "is_child (filepath_Clean root) (filepath_Join [root, k])" "last (clean_elems (filepath_Join [root, k])) = k"
proof -
  have can: "canonical (rooted root) (clean_elems root @ [k])" by (rule canonical_snoc [OF canonical_clean_elems assms(2)])
  note J = Join_entry [OF assms] path_string_parts [OF can]
  have "rooted (filepath_Clean root) = rooted root" "clean_elems (filepath_Clean root) = clean_elems root"
    unfolding filepath_Clean_def using path_string_parts [OF canonical_clean_elems [of root]] by simp_all
  then show "is_child (filepath_Clean root) (filepath_Join [root, k])" "last (clean_elems (filepath_Join [root, k])) = k"
    using assms(2) by (simp_all add: is_child_def J)
qed

lemma dir_entries_child:
  assumes "x \<in> set (dk_dirs d)" "is_child (filepath_Clean dir) x"
  shows "\<lparr>de_name = last (clean_elems x), de_IsDir = True\<rparr> \<in> set (dir_entries dir d)"
  using assms unfolding dir_entries_def by auto

lemma dir_entries_dirs:
  assumes "e \<in> set (dir_entries dir d)" "de_IsDir e"
  obtains x where "x \<in> set (dk_dirs d)" "is_child (filepath_Clean dir) x" "de_name e = last (clean_elems x)"
  using assms unfolding dir_entries_def by (auto split: if_splits)

lemma broker_Close_ok:
  assumes I: "bs_inv G bs d A" and R: "\<And>k. k \<in> dom A \<Longrightarrow> fst (the (A k)) = []"
  obtains bs1 d1 where "broker_Close bs d = (None, bs1, d1)" "all_closed (bs_rootDir bs) d1 A"
    "only_files (partitions_files (bs_rootDir bs) A) d d1"
proof -
  note D = bs_invD [OF I] and ne = bs_inv_root [OF I]
  let ?root = "bs_rootDir bs" and ?st = "bs_stores bs"
  have mem: "map_of ?st k = Some ps" if "(k, ps) \<in> set ?st" for k ps
    using that D(5) by simp
  have kdom: "k \<in> dom A" if "(k, ps) \<in> set ?st" for k ps
    using that D(6) by force
  have dir: "filepath_Clean (ps_dir ps) = filepath_Join [?root, k]" if "(k, ps) \<in> set ?st" for k ps
    using D(8) [OF mem [OF that]] valid_key_plain [OF D(7) [OF mem [OF that]]] ne by simp
  have "inj_on (\<lambda>kp. filepath_Clean (ps_dir (snd kp))) (set ?st)"
  proof (rule inj_onI)
    fix x y assume xy: "x \<in> set ?st" "y \<in> set ?st" "filepath_Clean (ps_dir (snd x)) = filepath_Clean (ps_dir (snd y))"
    obtain k ps j q where [simp]: "x = (k, ps)" "y = (j, q)" by (cases x, cases y)
    have "filepath_Join [?root, k] = filepath_Join [?root, j]" using xy dir [of k ps] dir [of j q] by simp
    then have "k = j"
      using Join_entry_inj [OF ne] valid_key_plain D(7) mem xy(1,2) by (metis \<open>x = (k, ps)\<close> \<open>y = (j, q)\<close>)
    then show "x = y" using mem [of k ps] mem [of j q] xy(1,2) by simp
  qed
  moreover have "distinct ?st" using D(5) by (simp add: distinct_map)
  ultimately have dist: "distinct (map (\<lambda>kp. filepath_Clean (ps_dir (snd kp))) ?st)" by (simp add: distinct_map)
  have "ps_inv G ps d [] (snd (the (A k)))" if "(k, ps) \<in> set ?st" for k ps
    using D(10) [OF mem [OF that]] R [OF kdom [OF that]] by simp
  from close_stores_ok [where cur = "\<lambda>k. snd (the (A k))", OF dist D(3) this] obtain st' d1 where
    C: "close_stores ?st None d = (None, st', d1)" "only_files (stores_dirs ?st) d d1"
      "\<forall>(k, ps) \<in> set ?st. closed_at (ps_dir ps) d1 (snd (the (A k)))" by blast
  have "stores_dirs ?st \<subseteq> partitions_files ?root A"
  proof
    fix p assume "p \<in> stores_dirs ?st"
    then obtain k ps where k: "(k, ps) \<in> set ?st" "p \<in> dir_files (ps_dir ps)" by (auto simp: stores_dirs_def)
    then show "p \<in> partitions_files ?root A"
      using D(8) [OF mem [OF k(1)]] kdom [OF k(1)] unfolding partitions_files_def by auto
  qed
  moreover have "all_closed ?root d1 A"
    unfolding all_closed_def
  proof
    fix k assume "k \<in> dom A"
    then obtain ps where k: "(k, ps) \<in> set ?st" using D(6) by force
    then show "valid_key k \<and> closed_at (filepath_Join [?root, k]) d1 (snd (the (A k)))"
      using C(3) D(7,8) [OF mem [OF k]] by auto
  qed
  ultimately show thesis
    using C(1) by (intro that [of "bs\<lparr>bs_stores := st'\<rparr>" d1] only_files_mono [OF C(2)]) (simp_all add: broker_Close_def)
qed

lemma bs_inv_reloaded:
  assumes I: "bs_inv G bs d A" and R: "\<And>k. k \<in> dom A \<Longrightarrow> fst (the (A k)) = []"
    and L: "loaded G bs' d' A" "bs_rootDir bs' = bs_rootDir bs" "bs_cfg bs' = bs_cfg bs"
    and O: "only_files (partitions_files (bs_rootDir bs) A) d d'" and all: "dom A \<subseteq> fst ` set (bs_stores bs')"
  shows "bs_inv G bs' d' A"
proof -
  note D = bs_invD [OF I] and ne = bs_inv_root [OF I]
  let ?root = "bs_rootDir bs"
  have plain: "plain_name k" if "k \<in> dom A" for k
  proof -
    obtain ps where "map_of (bs_stores bs) k = Some ps" using \<open>k \<in> dom A\<close> bs_inv_lookup [OF I, of k] by auto
    then show ?thesis using D(7) valid_key_plain by blast
  qed
  have LD: "k \<in> dom A" "ps_dir ps = filepath_Join [?root, k]" "ps_cfg ps = bs_cfg bs" "ps_inv G ps d' [] (snd (the (A k)))"
    if "map_of (bs_stores bs') k = Some ps" for k ps
    using L that unfolding loaded_def by (elim conjE; simp)+
  have dirs: "dk_dirs d' = dk_dirs d" "dk_denied d' = dk_denied d" "dk_free d' = dk_free d"
    using O D(3) by (auto simp: only_files_def)
  have other: "file_at d' (x, n) = file_at d (x, n)" if "\<And>k. k \<in> dom A \<Longrightarrow> x \<noteq> filepath_Join [?root, k]" for x n
    using O that ne plain by (auto simp: only_files_def partitions_files_def dir_files_def)
  show ?thesis
  proof (rule bs_invI)
    show "dom A = fst ` set (bs_stores bs')"
    proof
      show "fst ` set (bs_stores bs') \<subseteq> dom A"
      proof
        fix k assume "k \<in> fst ` set (bs_stores bs')"
        then obtain ps where "map_of (bs_stores bs') k = Some ps" by (metis map_of_eq_None_iff not_None_eq)
        then show "k \<in> dom A" by (rule LD(1))
      qed
    qed (rule all)
    show "valid_key k \<and> ps_dir ps = filepath_Join [bs_rootDir bs', k] \<and> ps_cfg ps = bs_cfg bs' \<and>
        ps_inv G ps d' (fst (the (A k))) (snd (the (A k)))" if k: "map_of (bs_stores bs') k = Some ps" for k ps
    proof -
      obtain q where "map_of (bs_stores bs) k = Some q" using LD(1) [OF k] bs_inv_lookup [OF I, of k] by auto
      then show ?thesis using D(7) LD [OF k] R [OF LD(1) [OF k]] L(2,3) by simp
    qed
    show "file_at d' (filepath_Join [bs_rootDir bs', k], n) = None" if k: "valid_key k" "k \<notin> dom A" for k n
    proof -
      have "file_at d' (filepath_Join [?root, k], n) = file_at d (filepath_Join [?root, k], n)"
        using other Join_entry_inj [OF ne valid_key_plain [OF k(1)] plain] k(2) by metis
      then show ?thesis using D(12) [OF k] L(2) by simp
    qed
    show "file_at d' (filepath_Clean (bs_rootDir bs'), k) = None" if k: "valid_key k" for k
      using other [of "filepath_Clean ?root" k] Clean_not_entry [OF ne plain] D(13) [OF k] L(2) by metis
  qed (use D(1-4,11,14) L dirs in \<open>simp_all add: loaded_def root_exists_def\<close>)
qed

lemma OpenBrokerStore_ok:
  assumes I: "bs_inv G bs d A" and R: "\<And>k. k \<in> dom A \<Longrightarrow> fst (the (A k)) = []"
    and O: "only_files (partitions_files (bs_rootDir bs) A) d d1" and C: "all_closed (bs_rootDir bs) d1 A"
  obtains bs2 d2 where "OpenBrokerStore (bs_rootDir bs) (bs_cfg bs) d1 = (Inr bs2, d2)" "bs_inv G bs2 d2 A"
    "bs_rootDir bs2 = bs_rootDir bs" "bs_cfg bs2 = bs_cfg bs"
proof -
  note D = bs_invD [OF I] and ne = bs_inv_root [OF I]
  let ?root = "bs_rootDir bs" and ?new = "\<lparr>bs_rootDir = bs_rootDir bs, bs_cfg = bs_cfg bs, bs_stores = []\<rparr>"
  have dirs: "dk_dirs d1 = dk_dirs d" using O by (simp add: only_files_def)
  then have "filepath_Clean ?root \<in> set (dk_dirs d1)" using D(1) by (simp add: root_exists_def)
  then obtain es where E: "os_ReadDir ?root d1 = Inr es" by (simp add: os_ReadDir_def)
  note S = os_ReadDir_names [OF E]
  have names: "\<forall>e \<in> set es. de_IsDir e \<longrightarrow> de_name e \<in> dom A \<or> partitionDirRe (de_name e) = None"
    unfolding S using dir_entries_dirs D(14) dirs by metis
  have seen: "\<exists>e \<in> set es. de_IsDir e \<and> de_name e = k" if "k \<in> dom A" for k
  proof -
    have k: "valid_key k" "writable_dir (filepath_Join [?root, k]) d1"
      using C that by (simp_all add: all_closed_def closed_at_def)
    note J = Join_child [OF ne valid_key_plain [OF k(1)]]
    have "filepath_Join [?root, k] \<in> set (dk_dirs d1)"
      using k(2) ne valid_key_plain [OF k(1)] by (simp add: writable_dir_def)
    from dir_entries_child [OF this J(1)] show ?thesis unfolding S by (rule bexI [rotated]) (simp add: J(2))
  qed
  have l0: "loaded G ?new d1 A" by (simp add: loaded_def)
  from load_partitions_ok [OF _ _ _ l0 names] obtain bs2 d2 where
    L: "load_partitions es ?new d1 = (Inr bs2, d2)" "loaded G bs2 d2 A" "bs_rootDir bs2 = ?root" "bs_cfg bs2 = bs_cfg bs"
      "only_files (partitions_files ?root A) d1 d2"
      "\<forall>e \<in> set es. de_IsDir e \<and> de_name e \<in> dom A \<longrightarrow> de_name e \<in> fst ` set (bs_stores bs2)"
    using ne D(4) C by auto
  have "dom A \<subseteq> fst ` set (bs_stores bs2)"
  proof
    fix k assume k: "k \<in> dom A"
    then obtain e where "e \<in> set es" "de_IsDir e" "de_name e = k" using seen by blast
    then show "k \<in> fst ` set (bs_stores bs2)" using L(6) k by blast
  qed
  from bs_inv_reloaded [OF I R L(2-4) only_files_trans [OF O L(5)] this] have "bs_inv G bs2 d2 A" by simp
  then show thesis using E L(1,3,4) by (intro that [of bs2 d2]) (simp_all add: OpenBrokerStore_def)
qed

end
