(* ===== verification/Broker_Properties.thy ===== *)
theory Broker_Properties
  imports Broker_Restart
begin

text \<open>
  What the broker store promises: names of topic-partitions and keys correspond, each
  partition is a log of its own, the partitions come back after a restart, and what happens
  to topic names outside the range for which this holds.
\<close>

section \<open>A fresh root directory\<close>

lemma bs_inv_fresh:
  assumes "root_exists root d" "dk_denied d = []" "dk_free d = None" "dk_files d = []" "max_size_of cfg < 2 ^ 62"
    and "\<forall>x \<in> set (dk_dirs d). \<not> is_child (filepath_Clean root) x"
  shows "bs_inv G \<lparr>bs_rootDir = root, bs_cfg = cfg, bs_stores = []\<rparr> d Map.empty"
proof (rule bs_invI)
  have ne: "root \<noteq> []" using assms(1) by (simp add: root_exists_def)
  show "filepath_Join [bs_rootDir \<lparr>bs_rootDir = root, bs_cfg = cfg, bs_stores = []\<rparr>, k] \<notin> set (dk_dirs d)"
    if "valid_key k" for k
    using Join_child(1) [OF ne valid_key_plain [OF that]] assms(6) by auto
qed (use assms in \<open>auto simp: file_at_def\<close>)

definition sample_cfg :: segment_config where
  "sample_cfg = \<lparr>sc_MaxSize = 1024, sc_Retention = 0\<rparr>"

definition sample_disk :: disk where
  "sample_disk = \<lparr>dk_files = [], dk_dirs = [''data''], dk_denied = [], dk_free = None, dk_now = 0\<rparr>"

definition sample_broker :: broker_store where
  "sample_broker = \<lparr>bs_rootDir = ''data'', bs_cfg = sample_cfg, bs_stores = []\<rparr>"

lemma sample_broker_inv: "bs_inv G sample_broker sample_disk Map.empty"
  unfolding sample_broker_def
proof (rule bs_inv_fresh)
  have e: "clean_elems ''data'' = [''data'']" "rooted ''data'' = False" "filepath_Clean ''data'' = ''data''" by code_simp+
  show "root_exists ''data'' sample_disk"
    unfolding root_exists_def e by (auto simp: sample_disk_def path_string_def le_Suc_eq)
  show "\<forall>x \<in> set (dk_dirs sample_disk). \<not> is_child (filepath_Clean ''data'') x"
    by (simp add: sample_disk_def is_child_def e)
qed (simp_all add: sample_disk_def sample_cfg_def max_size_of_def)

section \<open>Keys\<close>

lemma partitionKey_inj:
  assumes "valid_tp topic pid" and "valid_tp topic' pid'"
  shows "partitionKey topic pid = partitionKey topic' pid' \<longleftrightarrow> topic = topic' \<and> pid = pid'"
proof -
  have "\<exists>num. partitionDirRe (partitionKey t p) = Some (t, num) \<and> ParseInt 32 num = Inr p" if "valid_tp t p" for t p
    using that partitionKey_parse by (simp add: valid_tp_def)
  from this [OF assms(1)] this [OF assms(2)] show ?thesis by (metis option.inject prod.inject sum.inject(2))
qed

lemma topic_of_key:
  assumes "root \<noteq> []" and "valid_tp topic pid" and "ps_dir ps = filepath_Join [root, partitionKey topic pid]"
  shows "topic_of ps = Some (topic, pid)"
proof -
  have "filepath_Base (ps_dir ps) = partitionKey topic pid"
    unfolding assms(3) by (rule Base_Join_entry [OF assms(1) plain_partitionKey [OF assms(2)]])
  moreover obtain num where "partitionDirRe (partitionKey topic pid) = Some (topic, num)" "ParseInt 32 num = Inr pid"
    using assms(2) partitionKey_parse [of topic pid] by (auto simp: valid_tp_def)
  ultimately show ?thesis by (simp add: topic_of_def)
qed

lemma Topics_keys:
  assumes "bs_inv G bs d A"
  shows "map (\<lambda>tp. partitionKey (fst tp) (snd tp)) (Topics bs) = map fst (bs_stores bs)"
    "tp \<in> set (Topics bs) \<Longrightarrow> valid_tp (fst tp) (snd tp)"
proof -
  have tp: "\<exists>t p. k = partitionKey t p \<and> valid_tp t p \<and> topic_of ps = Some (t, p)"
    if "(k, ps) \<in> set (bs_stores bs)" for k ps
  proof -
    have K: "map_of (bs_stores bs) k = Some ps" using that bs_invD(5) [OF assms] by simp
    obtain t p where "valid_tp t p" "k = partitionKey t p"
      using bs_invD(7) [OF assms K] by (auto simp: valid_key_def)
    then show ?thesis using topic_of_key [OF bs_inv_root [OF assms]] bs_invD(8) [OF assms K] by blast
  qed
  have *: "map (\<lambda>tp. partitionKey (fst tp) (snd tp)) (List.map_filter (topic_of \<circ> snd) st) = map fst st \<and>
      (\<forall>tp \<in> set (List.map_filter (topic_of \<circ> snd) st). valid_tp (fst tp) (snd tp))"
    if "set st \<subseteq> set (bs_stores bs)" for st
    using that
  proof (induction st)
    case (Cons kp st)
    obtain k ps where kp: "kp = (k, ps)" by (cases kp)
    have IH: "map (\<lambda>tp. partitionKey (fst tp) (snd tp)) (List.map_filter (topic_of \<circ> snd) st) = map fst st"
      "\<forall>tp \<in> set (List.map_filter (topic_of \<circ> snd) st). valid_tp (fst tp) (snd tp)"
      using Cons by (simp_all add: comp_def)
    obtain t p where "k = partitionKey t p" "valid_tp t p" "topic_of ps = Some (t, p)"
      using tp [of k ps] Cons.prems kp by auto
    then show ?case using IH by (simp add: kp map_filter_simps comp_def)
  qed (simp add: map_filter_simps)
  show "map (\<lambda>tp. partitionKey (fst tp) (snd tp)) (Topics bs) = map fst (bs_stores bs)"
    "tp \<in> set (Topics bs) \<Longrightarrow> valid_tp (fst tp) (snd tp)"
    using * [of "bs_stores bs"] by (simp_all add: Topics_def)
qed

lemma Topics_set:
  assumes "bs_inv G bs d A"
  shows "distinct (Topics bs) \<and> set (Topics bs) = {(t, p). valid_tp t p \<and> A (partitionKey t p) \<noteq> None}"
proof
  note K = Topics_keys [OF assms] and D = bs_invD(5,6) [OF assms]
  show "distinct (Topics bs)" using K(1) D(1) by (metis distinct_map)
  have keys: "(\<lambda>tp. partitionKey (fst tp) (snd tp)) ` set (Topics bs) = dom A"
    using K(1) D(2) by (metis list.set_map)
  show "set (Topics bs) = {(t, p). valid_tp t p \<and> A (partitionKey t p) \<noteq> None}"
  proof (intro set_eqI iffI)
    fix tp assume tp: "tp \<in> set (Topics bs)"
    then have "partitionKey (fst tp) (snd tp) \<in> dom A" using keys by blast
    then show "tp \<in> {(t, p). valid_tp t p \<and> A (partitionKey t p) \<noteq> None}"
      using K(2) [OF tp] by (auto simp: case_prod_beta)
  next
    fix tp assume tp: "tp \<in> {(t, p). valid_tp t p \<and> A (partitionKey t p) \<noteq> None}"
    then have "partitionKey (fst tp) (snd tp) \<in> dom A" by auto
    then obtain q where q: "q \<in> set (Topics bs)" "partitionKey (fst tp) (snd tp) = partitionKey (fst q) (snd q)"
      unfolding keys [symmetric] by blast
    then have "tp = q" using tp K(2) partitionKey_inj by (auto simp: prod_eq_iff case_prod_beta)
    then show "tp \<in> set (Topics bs)" using q by simp
  qed
qed

text \<open>
  C30: (Topics) \<open>Topics\<close> reports every topic-partition that has a store exactly once, and
  nothing else, although it recovers the names by parsing directory names.
\<close>

theorem Topics_exact:
  assumes "bs_inv G bs d A"
  shows "distinct (Topics bs) \<and> set (Topics bs) = {(t, p). valid_tp t p \<and> A (partitionKey t p) \<noteq> None}"
  by (rule Topics_set [OF assms])

lemma sample_tp: "valid_tp ''t'' 0" "valid_tp ''u'' 3"
  by code_simp+

lemma distinct_singleton: "distinct xs \<Longrightarrow> set xs = {x} \<Longrightarrow> xs = [x]"
proof (cases xs)
  case (Cons y ys)
  moreover assume "distinct xs" "set xs = {x}"
  ultimately have "y = x" "x \<notin> set ys" "set ys \<subseteq> {x}" by auto
  then show ?thesis using Cons by (cases ys) auto
qed simp

theorem Topics_exact_witness:
  "\<exists>bs d. GetOrCreatePartition ''t'' 0 sample_broker sample_disk = (Inr ''t-0'', bs, d) \<and> Topics bs = [(''t'', 0)]"
proof -
  have k: "partitionKey ''t'' 0 = ''t-0''" by code_simp
  obtain bs d where G: "GetOrCreatePartition ''t'' 0 sample_broker sample_disk = (Inr ''t-0'', bs, d)"
    "bs_inv {} bs d (created ''t-0'' Map.empty)"
    using GetOrCreate_ok [OF sample_broker_inv sample_tp(1)] unfolding k by metis
  have "created ''t-0'' Map.empty (partitionKey t p) \<noteq> None \<longleftrightarrow> t = ''t'' \<and> p = 0" if "valid_tp t p" for t p
    using partitionKey_inj [OF that sample_tp(1), unfolded k] by (simp add: created_def)
  then have "{(t, p). valid_tp t p \<and> created ''t-0'' Map.empty (partitionKey t p) \<noteq> None} = {(''t'', 0)}"
    using sample_tp(1) by blast
  then have "distinct (Topics bs)" "set (Topics bs) = {(''t'', 0)}" using Topics_exact [OF G(2)] by simp_all
  then have "Topics bs = [(''t'', 0)]" by (rule distinct_singleton)
  with G(1) show ?thesis by blast
qed

section \<open>Cleaning\<close>

lemma canonical_take:
  assumes "canonical r xs"
  shows "canonical r (take i xs)"
proof -
  obtain k ys where "xs = replicate k ''..'' @ ys" "r \<longrightarrow> k = 0" "list_all plain_name ys"
    using assms by (auto simp: canonical_def)
  then show ?thesis
    unfolding canonical_def
    by (intro exI [of _ "min i k"] exI [of _ "take (i - k) ys"]) (auto simp: list_all_iff dest: in_set_takeD)
qed

text \<open>A directory that is removed lies below a partition, so the root stays.\<close>

lemma root_exists_removed:
  assumes R: "root_exists root d" and k: "plain_name k" and O: "only_removed P d d'"
    and P: "\<And>p. p \<in> P \<Longrightarrow> fst p = filepath_Join [root, k]"
  shows "root_exists root d'"
proof -
  have ne: "root \<noteq> []" using R by (simp add: root_exists_def)
  have J: "clean_elems (filepath_Join [root, k]) = clean_elems root @ [k]"
    using Join_entry [OF ne k] path_string_parts(2) [OF canonical_snoc [OF canonical_clean_elems k]] by simp
  have stay: "path_string (rooted root) (take i (clean_elems root)) \<in> set (dk_dirs d')"
    if x: "path_string (rooted root) (take i (clean_elems root)) \<in> set (dk_dirs d)" for i
  proof (rule ccontr)
    let ?x = "path_string (rooted root) (take i (clean_elems root))"
    assume "?x \<notin> set (dk_dirs d')"
    then obtain p where "p \<in> P" "subdir_at p ?x" using only_removedD(3) [OF O x] by blast
    then have "butlast (clean_elems ?x) = clean_elems root @ [k]" using P J by (simp add: subdir_at_def is_child_def)
    moreover have "clean_elems ?x = take i (clean_elems root)"
      by (rule path_string_parts(2) [OF canonical_take [OF canonical_clean_elems]])
    ultimately have "length (butlast (take i (clean_elems root))) = length (clean_elems root @ [k])" by simp
    then show False by simp
  qed
  have "path_string (rooted root) (take (length (clean_elems root)) (clean_elems root)) \<in> set (dk_dirs d')"
    using R by (intro stay) (simp add: root_exists_def filepath_Clean_def)
  then show ?thesis using R stay by (auto simp: root_exists_def filepath_Clean_def)
qed

lemma bs_inv_disk:
  assumes I: "bs_inv G bs d A" and R: "root_exists (bs_rootDir bs) d'" and O: "only_removed P d d'"
    and S: "\<And>k ps. map_of (bs_stores bs) k = Some ps \<Longrightarrow> ps_inv H ps d' (fst (the (A k))) (snd (the (A k)))"
  shows "bs_inv H bs d' A"
proof (rule bs_invI)
  note D = bs_invD [OF I] and N = only_removed_None [OF O] and L = only_removedD(2,4,5) [OF O]
  show "root_exists (bs_rootDir bs) d'" by (rule R)
  show "dk_denied d' = []" "dk_free d' = None" using L(2,3) D(2,3) by simp_all
  show "max_size_of (bs_cfg bs) < 2 ^ 62" "distinct (map fst (bs_stores bs))" "dom A = fst ` set (bs_stores bs)"
    by (rule D)+
  show "valid_key k \<and> ps_dir ps = filepath_Join [bs_rootDir bs, k] \<and> ps_cfg ps = bs_cfg bs \<and>
      ps_inv H ps d' (fst (the (A k))) (snd (the (A k)))" if "map_of (bs_stores bs) k = Some ps" for k ps
    using D(7-9) [OF that] S [OF that] by blast
  show "filepath_Join [bs_rootDir bs, k] \<notin> set (dk_dirs d')" if "valid_key k" "k \<notin> dom A" for k
    using D(11) [OF that] L(1) by blast
  show "file_at d' (filepath_Join [bs_rootDir bs, k], n) = None" if "valid_key k" "k \<notin> dom A" for k n
    by (rule N [OF D(12) [OF that]])
  show "file_at d' (filepath_Clean (bs_rootDir bs), k) = None" if "valid_key k" for k
    by (rule N [OF D(13) [OF that]])
  show "last (clean_elems x) \<in> dom A \<or> partitionDirRe (last (clean_elems x)) = None"
    if "x \<in> set (dk_dirs d')" "is_child (filepath_Clean (bs_rootDir bs)) x" for x
    using that by (intro D(14) [OF subsetD [OF L(1)]])
qed

lemma bs_inv_mono: "bs_inv G bs d A \<Longrightarrow> G \<subseteq> H \<Longrightarrow> bs_inv H bs d A"
  by (rule bs_inv_disk [of G bs d A d "{}"]) (auto intro: bs_invD(1) ps_inv_mono [OF bs_invD(10)])

lemma bs_inv_cleaned:
  assumes I: "bs_inv G bs d A" and K: "map_of (bs_stores bs) k = Some ps"
    and C: "CleanOldSegments dirtime retention ps d = (res, d')"
  shows "bs_inv (G \<union> closed_expired dirtime (dk_now d - retention) ps d) bs d' A" (is "bs_inv ?G bs d' A")
    and "\<exists>P. only_removed P d d'"
proof -
  let ?root = "bs_rootDir bs"
  note D = bs_invD [OF I] and ne = bs_inv_root [OF I]
  have pk: "plain_name k" using D(7) [OF K] by (rule valid_key_plain)
  have dir: "filepath_Clean (ps_dir ps) = filepath_Join [?root, k]" using D(8) [OF K] ne pk by simp
  define P where "P = (\<Union>e \<in> {e \<in> set (dir_entries (ps_dir ps) d). expired_entry dirtime (ps_dir ps)
      (pad20 (sg_baseOffset (ps_active ps)) @ ''.log'') (dk_now d - retention) d e}. entry_files (ps_dir ps) e)"
  note R = clean_round [OF D(10) [OF K] C, folded P_def]
  have P: "fst p = filepath_Join [?root, k]" if "p \<in> P" for p
    using that dir by (auto simp: P_def entry_files_def)
  have stores: "ps_inv ?G q d' (fst (the (A k'))) (snd (the (A k')))" if q: "map_of (bs_stores bs) k' = Some q" for k' q
  proof (cases "k' = k")
    case True
    then show ?thesis using R(2) q K by simp
  next
    case False
    have pk': "plain_name k'" using D(7) [OF q] by (rule valid_key_plain)
    have other: "p \<notin> P" if "fst p = filepath_Clean (ps_dir q)" for p
      using P [of p] that D(8) [OF q] ne pk' False Join_entry_inj [OF ne pk' pk] by auto
    show ?thesis by (rule ps_inv_removed [OF D(10) [OF q] R(1)]) (use other in auto)
  qed
  show "bs_inv ?G bs d' A"
    by (rule bs_inv_disk [OF I root_exists_removed [OF D(1) pk R(1) P] R(1) stores])
  show "\<exists>P. only_removed P d d'" using R(1) by blast
qed

text \<open>
  A round of the cleaner over all partitions leaves every partition as it is, but for the files of
  closed segments whose time is over.
\<close>

definition all_expired :: "(path \<Rightarrow> int) \<Rightarrow> broker_store \<Rightarrow> disk \<Rightarrow> path set" where
  "all_expired dirtime bs d =
     (\<Union>ps \<in> snd ` set (bs_stores bs). closed_expired dirtime (dk_now d - sc_Retention (bs_cfg bs)) ps d)"

lemma all_expired_before:
  assumes "only_removed P d d'"
  shows "all_expired dirtime bs d' \<subseteq> all_expired dirtime bs d"
proof -
  have "closed_expired dirtime c ps d' \<subseteq> closed_expired dirtime c ps d" for c ps
    unfolding closed_expired_def using expired_path_before [OF assms] by blast
  then show ?thesis unfolding all_expired_def only_removedD(6) [OF assms] by (rule UN_mono [OF order_refl])
qed

lemma tick_inv:
  assumes "bs_inv G bs d A"
  shows "bs_inv (G \<union> all_expired dirtime bs d) bs (fold (clean_partition dirtime bs) tps d) A"
  using assms
proof (induction tps arbitrary: G d)
  case Nil
  then show ?case by (simp add: bs_inv_mono)
next
  case (Cons tp tps)
  show ?case
  proof (cases "map_of (bs_stores bs) (partitionKey (fst tp) (snd tp))")
    case None
    then have "clean_partition dirtime bs tp d = d" by (simp add: clean_partition_def)
    then show ?thesis using Cons by simp
  next
    case (Some ps)
    obtain res d1 where C: "CleanOldSegments dirtime (sc_Retention (bs_cfg bs)) ps d = (res, d1)" by fastforce
    note B = bs_inv_cleaned [OF Cons.prems Some C]
    have "closed_expired dirtime (dk_now d - sc_Retention (bs_cfg bs)) ps d \<subseteq> all_expired dirtime bs d"
      using map_of_SomeD [OF Some] by (force simp: all_expired_def)
    then have "bs_inv (G \<union> all_expired dirtime bs d) bs d1 A" by (intro bs_inv_mono [OF B(1)]) blast
    from Cons.IH [OF this] B(2) all_expired_before [of _ d d1 dirtime bs]
    have "bs_inv (G \<union> all_expired dirtime bs d) bs (fold (clean_partition dirtime bs) tps d1) A"
      by (metis Un_assoc sup.absorb1)
    moreover have "clean_partition dirtime bs tp d = d1" using Some C by (simp add: clean_partition_def)
    ultimately show ?thesis by simp
  qed
qed

theorem cleaner_tick_refines:
  assumes "bs_inv G bs d A"
  shows "bs_inv (G \<union> all_expired dirtime bs d) bs (runLogCleaner_tick dirtime bs d) A"
  unfolding runLogCleaner_tick_def by (rule tick_inv [OF assms])

section \<open>Appending\<close>

text \<open>
  C16: (Broker store refinement) The path of a produce request through the store: get or
  create the partition and append a record to it.  The abstract map changes at this key
  only, by the append of the partition specification, and the offset returned is the one of
  that specification; the record then reads back at this offset.
\<close>

theorem broker_append_refines:
  assumes I: "bs_inv G bs d A" and V: "valid_tp topic pid" and L: "length p < 2 ^ 31 - 4"
    and fits: "4 + int (length p) \<le> max_size_of (bs_cfg bs)"
    and P: "created (partitionKey topic pid) A (partitionKey topic pid) = Some (cs, cur)"
    and small: "total_bytes (cs, cur) + (4 + int (length p)) < 2 ^ 62"
    and spec: "log_append (max_size_of (bs_cfg bs)) p cs cur = (off, cs', cur')"
  shows "\<exists>bs1 d1 bs2 d2 bs3 d3.
    GetOrCreatePartition topic pid bs d = (Inr (partitionKey topic pid), bs1, d1) \<and>
    bs_inv G bs1 d1 (created (partitionKey topic pid) A) \<and>
    broker_Append (partitionKey topic pid) p bs1 d1 = (Inr off, bs2, d2) \<and>
    bs_inv G bs2 d2 ((created (partitionKey topic pid) A)(partitionKey topic pid \<mapsto> (cs', cur'))) \<and>
    broker_Read (partitionKey topic pid) off (4 + int (length p)) bs2 d2 =
      (Inr (\<lparr>rd_data = rec_bytes p, rd_err = io_EOF\<rparr>, 4 + int (length p)), bs3, d3)"
proof -
  let ?k = "partitionKey topic pid"
  obtain bs1 d1 where G: "GetOrCreatePartition topic pid bs d = (Inr ?k, bs1, d1)" "bs_inv G bs1 d1 (created ?k A)"
    "bs_cfg bs1 = bs_cfg bs"
    using GetOrCreate_ok [OF I V] by metis
  have L': "length p < 2 ^ 32" using L by simp
  obtain bs2 d2 where B: "broker_Append ?k p bs1 d1 = (Inr off, bs2, d2)"
    "bs_inv G bs2 d2 ((created ?k A)(?k \<mapsto> (cs', cur')))"
    using broker_Append_ok [OF G(2) P L' _ small, unfolded G(3), OF fits spec] by metis
  obtain pre where cur': "cur' = pre @ [p]" "off = int (length (log_bytes pre))"
    using spec by (auto simp: log_append_def Let_def split: if_splits)
  then have len: "int (length (log_bytes cur')) - off = 4 + int (length p)"
    by simp
  have "drop (nat off) (log_bytes cur') = rec_bytes p" "nat (4 + int (length p)) = length (rec_bytes p)"
    using cur' by (simp_all add: nat_add_distrib)
  then have data: "take (nat (4 + int (length p))) (drop (nat off) (log_bytes cur')) = rec_bytes p" by simp
  have off: "0 \<le> off" "off < int (length (log_bytes cur'))" "0 < 4 + int (length p)" "4 + int (length p) < 2 ^ 31"
    using cur'(2) len L by simp_all
  obtain bs3 d3 where "broker_Read ?k off (4 + int (length p)) bs2 d2 =
      (Inr (\<lparr>rd_data = rec_bytes p, rd_err = io_EOF\<rparr>, 4 + int (length p)), bs3, d3)"
    using broker_Read_ok [OF B(2) fun_upd_same off] unfolding len min.idem data by metis
  with G B show ?thesis by blast
qed

lemma sample_appends:
  obtains bs d where "GetOrCreatePartition ''u'' 3 sample_broker sample_disk = (Inr ''u-3'', bs, d)"
    "bs_inv G bs d [''u-3'' \<mapsto> ([], [])]" "bs_cfg bs = sample_cfg"
proof -
  have k: "partitionKey ''u'' 3 = ''u-3''" by code_simp
  have c: "created ''u-3'' Map.empty = [''u-3'' \<mapsto> ([], [])]" by (simp add: created_def)
  have "bs_cfg sample_broker = sample_cfg" by (simp add: sample_broker_def)
  then show thesis using that GetOrCreate_ok [OF sample_broker_inv sample_tp(2)] unfolding k c by metis
qed

text \<open>A second partition gets a record while the first one stays as it is.\<close>

theorem broker_append_refines_witness:
  "\<exists>bs d bs1 d1 bs2 d2. GetOrCreatePartition ''u'' 3 sample_broker sample_disk = (Inr ''u-3'', bs, d) \<and>
     GetOrCreatePartition ''t'' 0 bs d = (Inr ''t-0'', bs1, d1) \<and>
     broker_Append ''t-0'' [7, 8] bs1 d1 = (Inr 0, bs2, d2) \<and>
     bs_inv {} bs2 d2 [''u-3'' \<mapsto> ([], []), ''t-0'' \<mapsto> ([], [[7, 8]])]"
proof -
  have k: "partitionKey ''t'' 0 = ''t-0''" by code_simp
  have c: "created ''t-0'' [''u-3'' \<mapsto> ([], [])] = [''u-3'' \<mapsto> ([], []), ''t-0'' \<mapsto> ([], [])]"
    by (simp add: created_def)
  obtain bs d where G: "GetOrCreatePartition ''u'' 3 sample_broker sample_disk = (Inr ''u-3'', bs, d)"
    "bs_inv {} bs d [''u-3'' \<mapsto> ([], [])]" "bs_cfg bs = sample_cfg" by (rule sample_appends)
  have m: "max_size_of (bs_cfg bs) = 1024" by (simp add: G(3) sample_cfg_def max_size_of_def)
  have "\<exists>bs1 d1 bs2 d2. GetOrCreatePartition ''t'' 0 bs d = (Inr ''t-0'', bs1, d1) \<and>
     broker_Append ''t-0'' [7, 8] bs1 d1 = (Inr 0, bs2, d2) \<and>
     bs_inv {} bs2 d2 [''u-3'' \<mapsto> ([], []), ''t-0'' \<mapsto> ([], [[7, 8]])]"
    using broker_append_refines [OF G(2) sample_tp(1), of "[7, 8]" "[]" "[]" 0 "[]" "[[7, 8]]"]
    unfolding k c m by (auto simp: total_bytes_def log_append_def)
  with G(1) show ?thesis by blast
qed

section \<open>Restart\<close>

text \<open>
  C17: (Restart) After \<open>Close\<close>, \<open>OpenBrokerStore\<close> on the same directory brings back every
  partition with the records it had, provided that no partition has rolled over.
\<close>

theorem broker_restart:
  assumes I: "bs_inv G bs d A" and one: "\<forall>k \<in> dom A. fst (the (A k)) = []"
  shows "\<exists>bs1 d1 bs2 d2. broker_Close bs d = (None, bs1, d1) \<and>
    OpenBrokerStore (bs_rootDir bs) (bs_cfg bs) d1 = (Inr bs2, d2) \<and> bs_inv G bs2 d2 A"
proof -
  obtain bs1 d1 where C: "broker_Close bs d = (None, bs1, d1)" "all_closed (bs_rootDir bs) d1 A"
    "only_files (partitions_files (bs_rootDir bs) A) d d1"
    using broker_Close_ok [OF I] one by metis
  obtain bs2 d2 where "OpenBrokerStore (bs_rootDir bs) (bs_cfg bs) d1 = (Inr bs2, d2)" "bs_inv G bs2 d2 A"
    using OpenBrokerStore_ok [OF I _ C(3,2)] one by metis
  with C(1) show ?thesis by blast
qed

theorem broker_restart_witness:
  "\<exists>bs d bs1 d1 bs2 d2. GetOrCreatePartition ''u'' 3 sample_broker sample_disk = (Inr ''u-3'', bs, d) \<and>
     broker_Close bs d = (None, bs1, d1) \<and> OpenBrokerStore (bs_rootDir bs) (bs_cfg bs) d1 = (Inr bs2, d2) \<and>
     bs_inv {} bs2 d2 [''u-3'' \<mapsto> ([], [])]"
proof -
  obtain bs d where G: "GetOrCreatePartition ''u'' 3 sample_broker sample_disk = (Inr ''u-3'', bs, d)"
    "bs_inv {} bs d [''u-3'' \<mapsto> ([], [])]" by (rule sample_appends)
  from broker_restart [OF G(2)] show ?thesis using G(1) by simp
qed

section \<open>Names outside the range\<close>

lemma Join_prefix:
  assumes "root \<noteq> []" and "plain_name k"
  shows "filepath_Join [root, ''./'' @ k] = filepath_Join [root, k]"
    "clean_elems root = xs @ [y] \<Longrightarrow> y \<noteq> ''..'' \<Longrightarrow>
       filepath_Join [root, ''../'' @ k] = path_string (rooted root) (xs @ [k])"
proof -
  have r: "rooted (root @ CHR ''/'' # z) = rooted root" for z using assms(1) by (simp add: rooted_def)
  have sp: "split_on (CHR ''/'') (root @ CHR ''/'' # ''./'' @ k) = split_on (CHR ''/'') root @ [''.'', k]"
    "split_on (CHR ''/'') (root @ CHR ''/'' # ''../'' @ k) = split_on (CHR ''/'') root @ [''..'', k]"
    using assms(2) by (simp_all add: split_on_append split_on_free plain_name_def)
  have st: "clean_step b ''.'' acc = acc" "clean_step b k acc = k # acc"
    "y \<noteq> ''..'' \<Longrightarrow> clean_step b ''..'' (y # acc) = acc" for b acc y
    using assms(2) by (simp_all add: clean_step_def plain_name_def)
  show "filepath_Join [root, ''./'' @ k] = filepath_Join [root, k]"
    using assms r sp(1) st(1,2) clean_elems_entry [OF assms]
    by (simp add: filepath_Join_def filepath_Clean_def clean_elems_def)
  assume y: "clean_elems root = xs @ [y]" "y \<noteq> ''..''"
  then have "fold (clean_step (rooted root)) (split_on (CHR ''/'') root) [] = y # rev xs"
    by (simp add: clean_elems_def rev_swap)
  then show "filepath_Join [root, ''../'' @ k] = path_string (rooted root) (xs @ [k])"
    using assms r sp(2) st y(2) by (simp add: filepath_Join_def filepath_Clean_def clean_elems_def)
qed

text \<open>
  (Names are not checked) Topic names come from requests and are not validated.  A
  leading \<open>./\<close> gives a second store on the directory of another topic, a leading \<open>../\<close> a
  directory next to the root instead of below it, and a negative partition number can make
  two different topic-partitions share one key.
\<close>

theorem topic_names_unchecked:
  assumes root: "clean_elems (bs_rootDir bs) = xs @ [y]" "y \<noteq> ''..''" and V: "valid_tp topic pid"
  shows "partitionDir bs (''./'' @ topic) pid = partitionDir bs topic pid \<and>
    partitionKey (''./'' @ topic) pid \<noteq> partitionKey topic pid \<and>
    partitionDir bs (''../'' @ topic) pid = path_string (rooted (bs_rootDir bs)) (xs @ [partitionKey topic pid]) \<and>
    partitionKey topic (- pid - 1) = partitionKey (topic @ ''-'') (pid + 1)"
proof (intro conjI)
  have ne: "bs_rootDir bs \<noteq> []" using root(1) by (auto simp: clean_elems_def clean_step_def)
  note J = Join_prefix [OF ne plain_partitionKey [OF V]]
  show "partitionDir bs (''./'' @ topic) pid = partitionDir bs topic pid"
    using J(1) by (simp add: partitionDir_def partitionKey_def)
  show "partitionDir bs (''../'' @ topic) pid = path_string (rooted (bs_rootDir bs)) (xs @ [partitionKey topic pid])"
    using J(2) [OF root] by (simp add: partitionDir_def partitionKey_def)
  have "length (partitionKey (''./'' @ topic) pid) \<noteq> length (partitionKey topic pid)" by (simp add: partitionKey_def)
  then show "partitionKey (''./'' @ topic) pid \<noteq> partitionKey topic pid" by metis
  show "partitionKey topic (- pid - 1) = partitionKey (topic @ ''-'') (pid + 1)"
    using V by (simp add: partitionKey_def fmt_d_def valid_tp_def add.commute)
qed

theorem topic_names_unchecked_witness:
  "partitionDir sample_broker ''./t'' 0 = partitionDir sample_broker ''t'' 0 \<and>
   partitionDir sample_broker ''../t'' 0 = ''t-0'' \<and> partitionKey ''t'' (-1) = partitionKey ''t-'' 1"
proof -
  have e: "clean_elems (bs_rootDir sample_broker) = [] @ [''data'']" "''data'' \<noteq> ''..''"
    "path_string (rooted (bs_rootDir sample_broker)) ([] @ [partitionKey ''t'' 0]) = ''t-0''" by code_simp+
  show ?thesis using topic_names_unchecked [OF e(1,2) sample_tp(1)] unfolding e(3) by simp
qed

end
