(* ===== verification/Handler_Spec.thy ===== *)
theory Handler_Spec
  imports Handler Broker_Properties
begin

text \<open>
  What the request handlers promise, stated on an abstract broker: a map from keys to
  partitions, each a list of closed segments and the records of the active one, and the
  committed offsets; \<open>ab_gone\<close> has the files of closed segments that the cleaner may have
  removed.  \<open>serves mx n h B\<close> relates the state of the process to the abstract
  broker \<open>B\<close>, where \<open>mx\<close> is the segment size and every partition has room for \<open>n\<close> more
  bytes.  The locale \<open>step_refines\<close> carries the refinement of one loop body to the loop.
\<close>

section \<open>The abstract broker\<close>

record abs_broker =
  ab_parts :: partition_map
  ab_offsets :: "offsetCacheKey \<rightharpoonup> int64"
  ab_gone :: "path set"

definition spec_create :: "string \<Rightarrow> abs_broker \<Rightarrow> abs_broker" where
  "spec_create k B = B\<lparr>ab_parts := created k (ab_parts B)\<rparr>"

definition spec_records :: "string \<Rightarrow> abs_broker \<Rightarrow> bytes list" where
  "spec_records k B = snd (the (ab_parts B k))"

text \<open>Appending to a partition that exists: the offset and the new broker.\<close>

definition spec_append :: "int \<Rightarrow> string \<Rightarrow> bytes \<Rightarrow> abs_broker \<Rightarrow> int \<times> abs_broker" where
  "spec_append mx k p B =
     (case log_append mx p (fst (the (ab_parts B k))) (snd (the (ab_parts B k))) of
        (off, cs, cur) \<Rightarrow> (off, B\<lparr>ab_parts := (ab_parts B)(k \<mapsto> (cs, cur))\<rparr>))"

definition serves :: "int \<Rightarrow> int \<Rightarrow> ('c, 'h) handler \<Rightarrow> abs_broker \<Rightarrow> bool" where
  "serves mx n h B \<longleftrightarrow>
     bs_inv (ab_gone B) (hn_store h) (hn_disk h) (ab_parts B) \<and> hn_offsetCache h = ab_offsets B \<and>
     max_size_of (bs_cfg (hn_store h)) = mx \<and> 0 \<le> n \<and> n < 2 ^ 62 \<and>
     (\<forall>k p. ab_parts B k = Some p \<longrightarrow> total_bytes p + n < 2 ^ 62)"

lemma servesD:
  assumes "serves mx n h B"
  shows "bs_inv (ab_gone B) (hn_store h) (hn_disk h) (ab_parts B)" "hn_offsetCache h = ab_offsets B"
    "max_size_of (bs_cfg (hn_store h)) = mx" "0 \<le> n" "n < 2 ^ 62"
    "\<And>k p. ab_parts B k = Some p \<Longrightarrow> total_bytes p + n < 2 ^ 62"
  using assms unfolding serves_def by blast+

text \<open>
  A round of the cleaner is not seen by the handlers: the process goes on to serve the same
  partitions and offsets, with the expired closed segments counted as gone.
\<close>

theorem cleaner_keeps_serving:
  assumes "serves mx n h B"
  shows "serves mx n (h\<lparr>hn_disk := runLogCleaner_tick dirtime (hn_store h) (hn_disk h)\<rparr>)
    (B\<lparr>ab_gone := ab_gone B \<union> all_expired dirtime (hn_store h) (hn_disk h)\<rparr>)"
  using assms cleaner_tick_refines [OF servesD(1) [OF assms], of dirtime] unfolding serves_def by simp

lemma serves_weaken:
  assumes "serves mx n h B" "0 \<le> m" "m \<le> n"
  shows "serves mx m h B"
proof -
  note D = servesD [OF assms(1)]
  have "total_bytes p + m < 2 ^ 62" if "ab_parts B k = Some p" for k p using D(6) [OF that] assms(3) by simp
  moreover have "m < 2 ^ 62" using D(5) assms(3) by simp
  ultimately show ?thesis using D(1-3) assms(2) unfolding serves_def by (intro conjI allI impI)
qed

lemma serves_metrics [simp]: "serves mx n (h\<lparr>hn_metrics := m\<rparr>) B \<longleftrightarrow> serves mx n h B"
  by (cases h) (simp only: serves_def handler.simps)

lemma spec_create_parts [simp]:
  "ab_parts (spec_create k B) k \<noteq> None" "ab_offsets (spec_create k B) = ab_offsets B"
  by (simp_all add: spec_create_def)

section \<open>The store operations of a handler\<close>

lemma get_partition_ok:
  assumes S: "serves mx n h B" and V: "valid_tp topic (sint pid)"
  obtains h' where "get_partition topic pid h = (Inr (partitionKey topic (sint pid)), h')"
    "serves mx n h' (spec_create (partitionKey topic (sint pid)) B)" "hn_metrics h' = hn_metrics h"
proof -
  let ?k = "partitionKey topic (sint pid)"
  note D = servesD [OF S]
  obtain bs d where G: "GetOrCreatePartition topic (sint pid) (hn_store h) (hn_disk h) = (Inr ?k, bs, d)"
    "bs_inv (ab_gone B) bs d (created ?k (ab_parts B))" "bs_cfg bs = bs_cfg (hn_store h)"
    using GetOrCreate_ok [OF D(1) V] by metis
  have "total_bytes p + n < 2 ^ 62" if "created ?k (ab_parts B) k = Some p" for k p
    using that D(5) D(6) [of k p] by (auto simp: created_def total_bytes_def split: if_splits)
  then show thesis
    using G D(2-5) by (intro that [of "h\<lparr>hn_store := bs, hn_disk := d\<rparr>"])
      (simp_all add: get_partition_def serves_def spec_create_def)
qed

lemma spec_append_parts:
  assumes "spec_append mx k p B = (off, B')" and "ab_parts B k = Some (cs, cur)"
  obtains cs' cur' where "log_append mx p cs cur = (off, cs', cur')" "B' = B\<lparr>ab_parts := (ab_parts B)(k \<mapsto> (cs', cur'))\<rparr>"
  using assms by (auto simp: spec_append_def split: prod.splits)

lemma total_bytes_append:
  assumes "log_append mx p cs cur = (off, cs', cur')"
  shows "total_bytes (cs', cur') = total_bytes (cs, cur) + (4 + int (length p))"
  using assms by (auto simp: log_append_def total_bytes_def split: if_splits)

lemma append_to_ok:
  assumes S: "serves mx (4 + int (length p) + n) h B" and n: "0 \<le> n" and K: "ab_parts B k \<noteq> None"
    and L: "length p < 2 ^ 32" and fits: "4 + int (length p) \<le> mx" and A: "spec_append mx k p B = (off, B')"
  obtains h' where "append_to k p h = (Inr off, h')" "serves mx n h' B'" "hn_metrics h' = hn_metrics h"
    "dk_now (hn_disk h') = dk_now (hn_disk h)" "ab_offsets B' = ab_offsets B"
proof -
  note D = servesD [OF S]
  obtain cs cur where P: "ab_parts B k = Some (cs, cur)" using K by auto
  obtain cs' cur' where L': "log_append mx p cs cur = (off, cs', cur')" "B' = B\<lparr>ab_parts := (ab_parts B)(k \<mapsto> (cs', cur'))\<rparr>"
    using spec_append_parts [OF A P] .
  have small: "total_bytes (cs, cur) + (4 + int (length p)) < 2 ^ 62" using D(6) [OF P] n by simp
  obtain bs d where R: "broker_Append k p (hn_store h) (hn_disk h) = (Inr off, bs, d)"
    "bs_inv (ab_gone B) bs d ((ab_parts B)(k \<mapsto> (cs', cur')))" "bs_cfg bs = bs_cfg (hn_store h)" "dk_now d = dk_now (hn_disk h)"
    using broker_Append_ok [OF D(1) P L _ small, unfolded D(3), OF fits L'(1)] by metis
  have "total_bytes q + n < 2 ^ 62" if "ab_parts B' j = Some q" for j q
    using that D(6) [of j q] D(6) [OF P] total_bytes_append [OF L'(1)] L'(2) n by (cases "j = k") simp_all
  then have "serves mx n (h\<lparr>hn_store := bs, hn_disk := d\<rparr>) B'"
    using R D(2-5) n L'(2) by (simp add: serves_def)
  then show thesis using R L'(2) by (intro that [of "h\<lparr>hn_store := bs, hn_disk := d\<rparr>"]) (simp_all add: append_to_def)
qed

lemma size_of_ok:
  assumes S: "serves mx n h B" and K: "ab_parts B k \<noteq> None"
  shows "size_of k h = word_of_nat (length (log_bytes (spec_records k B)))"
    "sint (size_of k h) = int (length (log_bytes (spec_records k B)))"
    "length (log_bytes (spec_records k B)) < 2 ^ 62"
proof -
  obtain cs cur where P: "ab_parts B k = Some (cs, cur)" using K by auto
  have "broker_Size k (hn_store h) = int (length (log_bytes cur))"
    using bs_inv_store [OF servesD(1) [OF S] P] by metis
  then show w: "size_of k h = word_of_nat (length (log_bytes (spec_records k B)))"
    by (simp add: size_of_def spec_records_def P)
  show l: "length (log_bytes (spec_records k B)) < 2 ^ 62"
    using servesD(4,6) [OF S] P by (force simp: spec_records_def total_bytes_def)
  then show "sint (size_of k h) = int (length (log_bytes (spec_records k B)))"
    unfolding w by (simp add: signed_of_nat signed_take_bit_int_eq_self)
qed

lemma read_window_ok:
  assumes S: "serves mx n h B" and K: "ab_parts B k \<noteq> None"
    and off: "0 \<le> off" "off < int (length (log_bytes (spec_records k B)))" and m: "0 < m" "m < 2 ^ 31"
  obtains h' where "read_window k off m h =
      (Inr (\<lparr>rd_data = take (nat m) (drop (nat off) (log_bytes (spec_records k B))), rd_err = io_EOF\<rparr>,
         min m (int (length (log_bytes (spec_records k B))) - off)), h')"
    "serves mx n h' B" "hn_metrics h' = hn_metrics h"
proof -
  note D = servesD [OF S]
  obtain cs cur where P: "ab_parts B k = Some (cs, cur)" using K by auto
  have cur: "spec_records k B = cur" by (simp add: spec_records_def P)
  have "take (nat (min m (int (length (log_bytes cur)) - off))) (drop (nat off) (log_bytes cur)) =
      take (nat m) (drop (nat off) (log_bytes cur))"
    using off m cur by (simp add: min_def nat_diff_distrib)
  then obtain bs d where R: "broker_Read k off m (hn_store h) (hn_disk h) =
      (Inr (\<lparr>rd_data = take (nat m) (drop (nat off) (log_bytes cur)), rd_err = io_EOF\<rparr>,
         min m (int (length (log_bytes cur)) - off)), bs, d)"
    "bs_inv (ab_gone B) bs d (ab_parts B)" "bs_cfg bs = bs_cfg (hn_store h)"
    using broker_Read_ok [OF D(1) P, of off m] off m unfolding cur by metis
  then show thesis
    using D by (intro that [of "h\<lparr>hn_store := bs, hn_disk := d\<rparr>"]) (auto simp: read_window_def serves_def cur)
qed

lemma read_window_refuse:
  assumes S: "serves mx n h B" and K: "ab_parts B k \<noteq> None" and bad: "i64 off < 0 \<or> m \<le> 0"
  obtains r h' where "read_window k off m h = (r, h')" "serves mx n h' B" "hn_metrics h' = hn_metrics h"
    "\<And>rd m. r = Inr (rd, m) \<Longrightarrow> rd_data rd = [] \<and> 0 < m"
proof -
  note D = servesD [OF S]
  obtain cs cur where P: "ab_parts B k = Some (cs, cur)" using K by auto
  obtain r bs d where R: "broker_Read k off m (hn_store h) (hn_disk h) = (r, bs, d)" "bs_inv (ab_gone B) bs d (ab_parts B)"
    "bs_cfg bs = bs_cfg (hn_store h)" "\<And>rd m. r = Inr (rd, m) \<Longrightarrow> rd_data rd = [] \<and> 0 < m"
    using broker_Read_refuse [OF D(1) P bad] by metis
  then show thesis
    using D by (intro that [of r "h\<lparr>hn_store := bs, hn_disk := d\<rparr>"]) (auto simp: read_window_def serves_def)
qed

section \<open>Refinement of a loop\<close>

primrec spec_each :: "('a \<Rightarrow> 't \<Rightarrow> 'b \<times> 't) \<Rightarrow> 'a list \<Rightarrow> 't \<Rightarrow> 'b list \<times> 't" where
  "spec_each g [] a = ([], a)"
| "spec_each g (x # xs) a =
     (case g x a of (y, a1) \<Rightarrow> case spec_each g xs a1 of (ys, a2) \<Rightarrow> (y # ys, a2))"

text \<open>
  \<open>f\<close> is a loop body of the program, \<open>g\<close> what it stands for; a round on \<open>x\<close> uses up
  \<open>cost x\<close> of the room.
\<close>

locale step_refines =
  fixes f :: "'a \<Rightarrow> 's \<Rightarrow> 'b result \<times> 's"
    and g :: "'a \<Rightarrow> 't \<Rightarrow> 'b \<times> 't"
    and ok :: "'a \<Rightarrow> bool"
    and cost :: "'a \<Rightarrow> int"
    and R :: "int \<Rightarrow> 's \<Rightarrow> 't \<Rightarrow> bool"
  assumes cost_nonneg: "0 \<le> cost x"
    and step: "ok x \<Longrightarrow> 0 \<le> n \<Longrightarrow> R (cost x + n) s a \<Longrightarrow> \<exists>s'. f x s = (Inr (fst (g x a)), s') \<and> R n s' (snd (g x a))"
begin

lemma each_refines:
  assumes "list_all ok xs" and "0 \<le> n" and "R (sum_list (map cost xs) + n) s a"
  shows "\<exists>s'. each_of f xs s = (Inr (fst (spec_each g xs a)), s') \<and> R n s' (snd (spec_each g xs a))"
  using assms
proof (induction xs arbitrary: s a)
  case (Cons x xs)
  have "0 \<le> sum_list (map cost xs)" by (rule sum_list_nonneg) (auto simp: cost_nonneg)
  then have "0 \<le> sum_list (map cost xs) + n" using Cons.prems(2) by simp
  then obtain s1 where S1: "f x s = (Inr (fst (g x a)), s1)" "R (sum_list (map cost xs) + n) s1 (snd (g x a))"
    using step [of x "sum_list (map cost xs) + n" s a] Cons.prems by (auto simp: add.assoc)
  then obtain s2 where "each_of f xs s1 = (Inr (fst (spec_each g xs (snd (g x a)))), s2)"
    "R n s2 (snd (spec_each g xs (snd (g x a))))"
    using Cons.IH [OF _ Cons.prems(2) S1(2)] Cons.prems(1) by auto
  with S1(1) show ?case by (simp add: case_prod_beta)
qed simp

end

section \<open>A fresh process\<close>

definition sample_handler :: "((string \<times> int) list, (string \<times> int) list) handler" where
  "sample_handler = NewHandler sample_broker sample_metrics sample_disk"

definition empty_broker :: abs_broker where
  "empty_broker = \<lparr>ab_parts = Map.empty, ab_offsets = Map.empty, ab_gone = {}\<rparr>"

lemma sample_serves: "0 \<le> n \<Longrightarrow> n < 2 ^ 62 \<Longrightarrow> serves 1024 n sample_handler empty_broker"
  using sample_broker_inv
  by (simp add: serves_def sample_handler_def NewHandler_def empty_broker_def sample_broker_def sample_cfg_def
      max_size_of_def)

definition sample_conn :: "bytes \<Rightarrow> conn" where
  "sample_conn input = \<lparr>cn_in = \<lparr>rd_data = input, rd_err = io_EOF\<rparr>, cn_out = [], cn_cap = None\<rparr>"

lemma on_conn_sample:
  assumes "m (feed bs \<lparr>rd_data = [], rd_err = io_EOF\<rparr>) = (Inr x, \<lparr>rd_data = [], rd_err = io_EOF\<rparr>)"
  shows "on_conn m (sample_conn bs) = (Inr x, sample_conn [])"
  using assms by (simp add: on_conn_def sample_conn_def feed_def)

end
