(* ===== verification/Handler_Produce.thy ===== *)
theory Handler_Produce
  imports Handler_Spec
begin

text \<open>
  The produce handler refines its specification: for every topic-partition of the request
  the batch is checked and appended, and the response says at which offset.  A batch that
  is refused leaves the broker as it is.
\<close>

section \<open>Specification\<close>

definition batch_count :: "bytes \<Rightarrow> int32 result" where
  "batch_count batch = (if batch \<noteq> [] then ValidateRecordBatch batch else Inr 0)"

definition spec_produce ::
    "int \<Rightarrow> string \<Rightarrow> produce_partition \<Rightarrow> abs_broker \<Rightarrow> produce_partition_response \<times> abs_broker" where
  "spec_produce mx topic part B =
     (case batch_count (pp_RecordBatch part) of
        Inl _ \<Rightarrow>
          (\<lparr>ppr_BaseOffset = - 1, ppr_Partition = pp_Partition part, ppr_ErrorCode = ErrCodeCorruptMessage\<rparr>, B)
      | Inr _ \<Rightarrow>
          let k = partitionKey topic (sint (pp_Partition part))
          in case spec_append mx k (pp_RecordBatch part) (spec_create k B) of
               (off, B1) \<Rightarrow>
                 (\<lparr>ppr_BaseOffset = word_of_int off, ppr_Partition = pp_Partition part, ppr_ErrorCode = 0\<rparr>, B1))"

definition spec_produce_topic ::
    "int \<Rightarrow> produce_topic \<Rightarrow> abs_broker \<Rightarrow> produce_topic_response \<times> abs_broker" where
  "spec_produce_topic mx topic B =
     (case spec_each (spec_produce mx (pt_TopicName topic)) (pt_Partitions topic) B of
        (ps, B1) \<Rightarrow> (\<lparr>ptr_TopicName = pt_TopicName topic, ptr_Partitions = ps\<rparr>, B1))"

text \<open>
  What the specification is about: names that the store can represent, batches that fit
  into a segment, and counts for which neither the validation nor the metrics panic.
\<close>

definition produce_allowed :: "('c, 'h) prometheus \<Rightarrow> int \<Rightarrow> string \<Rightarrow> produce_partition \<Rightarrow> bool" where
  "produce_allowed pr mx topic part \<longleftrightarrow>
     prom_accepts pr topic \<and> valid_tp topic (sint (pp_Partition part)) \<and>
     4 + int (length (pp_RecordBatch part)) \<le> mx \<and> length (pp_RecordBatch part) < 2 ^ 31 \<and>
     (case batch_count (pp_RecordBatch part) of
        Inl (Panic _) \<Rightarrow> False | Inl (Err _) \<Rightarrow> True | Inr n \<Rightarrow> 0 \<le> sint n)"

definition produce_cost :: "produce_partition \<Rightarrow> int" where
  "produce_cost part = 4 + int (length (pp_RecordBatch part))"

section \<open>Refinement\<close>

lemma produce_step_ok:
  assumes allowed: "produce_allowed pr mx topic part" and n: "0 \<le> n" and S: "serves mx (produce_cost part + n) h B"
  shows "\<exists>h'. produce_partition_step pr topic part h = (Inr (fst (spec_produce mx topic part B)), h') \<and>
    serves mx n h' (snd (spec_produce mx topic part B))"
proof -
  let ?b = "pp_RecordBatch part" and ?k = "partitionKey topic (sint (pp_Partition part))"
  note A = allowed [unfolded produce_allowed_def]
  have check: "(if ?b \<noteq> [] then ValidateRecordBatch ?b else Inr 0) = batch_count ?b" by (simp add: batch_count_def)
  consider e where "batch_count ?b = Inl (Err e)" | count where "batch_count ?b = Inr count" "0 \<le> sint count"
    using A by (auto split: sum.splits fault.splits)
  then show ?thesis
  proof cases
    case 1
    then have "produce_partition_step pr topic part h = (Inr (fst (spec_produce mx topic part B)), h)"
      unfolding produce_partition_step_def check by (simp add: spec_produce_def)
    moreover have "serves mx n h B" using serves_weaken [OF S n] by (simp add: produce_cost_def)
    ultimately show ?thesis using 1 by (simp add: spec_produce_def)
  next
    case 2
    have V: "valid_tp topic (sint (pp_Partition part))" using A by simp
    obtain h1 where G: "get_partition topic (pp_Partition part) h = (Inr ?k, h1)"
      "serves mx (produce_cost part + n) h1 (spec_create ?k B)"
      using get_partition_ok [OF S V] by metis
    obtain off B1 where P: "spec_append mx ?k ?b (spec_create ?k B) = (off, B1)" by (metis surj_pair)
    have L: "length ?b < 2 ^ 32" "4 + int (length ?b) \<le> mx" using A by simp_all
    obtain h2 where T: "append_to ?k ?b h1 = (Inr off, h2)" "serves mx n h2 B1"
      "dk_now (hn_disk h2) = dk_now (hn_disk h1)"
      using append_to_ok [OF G(2) [unfolded produce_cost_def] n spec_create_parts(1) L P] by metis
    obtain m1 where m1: "ObserveDiskWrite pr topic (dk_now (hn_disk h1)) (dk_now (hn_disk h2)) (hn_metrics h2) = Inr m1"
      using prom_accepts_ok(1) [of pr topic] A T(3) by (metis order_refl)
    obtain m2 where m2: "add_produced pr topic (sint count) m1 = Inr m2"
      using prom_accepts_ok(2) [of pr topic] A 2(2) by metis
    have "produce_partition_step pr topic part h = (Inr (fst (spec_produce mx topic part B)), h2\<lparr>hn_metrics := m2\<rparr>)"
      unfolding produce_partition_step_def check using 2(1) G(1) T(1) m1 m2 P
      by (simp add: spec_produce_def Let_def)
    moreover have "snd (spec_produce mx topic part B) = B1" using 2(1) P by (simp add: spec_produce_def Let_def)
    ultimately show ?thesis using T(2) by simp
  qed
qed

interpretation produce_part: step_refines "produce_partition_step pr topic" "spec_produce mx topic"
    "produce_allowed pr mx topic" produce_cost "serves mx" for pr mx topic
  by unfold_locales (simp_all add: produce_step_ok produce_cost_def)

definition produce_topic_allowed :: "('c, 'h) prometheus \<Rightarrow> int \<Rightarrow> produce_topic \<Rightarrow> bool" where
  "produce_topic_allowed pr mx topic \<longleftrightarrow> list_all (produce_allowed pr mx (pt_TopicName topic)) (pt_Partitions topic)"

definition produce_topic_cost :: "produce_topic \<Rightarrow> int" where
  "produce_topic_cost topic = sum_list (map produce_cost (pt_Partitions topic))"

interpretation produce_topic: step_refines "produce_topic_step pr" "spec_produce_topic mx"
    "produce_topic_allowed pr mx" produce_topic_cost "serves mx" for pr mx
proof
  fix x :: produce_topic
  show "0 \<le> produce_topic_cost x"
    unfolding produce_topic_cost_def by (rule sum_list_nonneg) (auto simp: produce_cost_def)
next
  fix x and n :: int and s :: "('a, 'b) handler" and a
  assume "produce_topic_allowed pr mx x" "0 \<le> n" "serves mx (produce_topic_cost x + n) s a"
  then obtain s' where "each_of (produce_partition_step pr (pt_TopicName x)) (pt_Partitions x) s =
      (Inr (fst (spec_each (spec_produce mx (pt_TopicName x)) (pt_Partitions x) a)), s')"
    "serves mx n s' (snd (spec_each (spec_produce mx (pt_TopicName x)) (pt_Partitions x) a))"
    using produce_part.each_refines unfolding produce_topic_allowed_def produce_topic_cost_def by metis
  then show "\<exists>s'. produce_topic_step pr x s = (Inr (fst (spec_produce_topic mx x a)), s') \<and>
      serves mx n s' (snd (spec_produce_topic mx x a))"
    by (simp add: produce_topic_step_def spec_produce_topic_def case_prod_beta)
qed

section \<open>The handler\<close>

lemma reply_eq:
  assumes "buffer (f NewEncoder) = w"
  shows "reply msg f = finish msg (conn_Write (FullMessage \<lparr>buffer = w\<rparr>))"
  using assms by (simp add: reply_def FullMessage_def)

text \<open>
  C2: (Produce) A produce request, as it was parsed from the connection, is carried out as
  specified: every batch that passes validation is appended to its partition, in the order of
  the request, the broker's state is that of the specification, and the response, one frame,
  carries the offsets and error codes of the specification.  With \<open>acks = 0\<close> the state is
  the same and nothing is written.
\<close>

theorem handleProduce_refines:
  assumes parse: "on_conn (ParseProduceRequest header) c = (Inr req, c1)"
    and allowed: "list_all (produce_topic_allowed pr mx) (pr_Topics req)" and n: "0 \<le> n"
    and S: "serves mx (sum_list (map produce_topic_cost (pr_Topics req)) + n) h B"
    and spec: "spec_each (spec_produce_topic mx) (pr_Topics req) B = (topics, B')"
  shows "\<exists>h'. serves mx n h' B' \<and> handleProduce pr header c h =
    (if pr_Acks req = AcksNone then (Inr (), c1, h')
     else finish ''handleProduce: write response: %w''
            (conn_Write (FullMessage \<lparr>buffer = produce_response_wire (rh_CorrelationID header) topics\<rparr>)) c1 h')"
proof -
  obtain h' where E: "each_of (produce_topic_step pr) (pr_Topics req) h = (Inr topics, h')" "serves mx n h' B'"
    using produce_topic.each_refines [OF allowed n S] unfolding spec by auto
  have r: "reply msg (EncodeProduceResponse (rh_CorrelationID header) topics) =
      finish msg (conn_Write (FullMessage \<lparr>buffer = produce_response_wire (rh_CorrelationID header) topics\<rparr>))" for msg
    by (rule reply_eq) (simp add: buffer_EncodeProduceResponse wire_simps)
  show ?thesis
    using parse E by (intro exI [of _ h']) (simp add: handleProduce_def parse_then_def r)
qed

definition sample_produce_batch :: "int16 \<Rightarrow> produce_request" where
  "sample_produce_batch acks = \<lparr>pr_Topics = [\<lparr>pt_TopicName = ''t'',
       pt_Partitions = [\<lparr>pp_RecordBatch = sample_batch, pp_Partition = 0\<rparr>]\<rparr>],
     pr_Header = sample_header, pr_TimeoutMs = 1500, pr_Acks = acks\<rparr>"

definition batch_broker :: abs_broker where
  "batch_broker = \<lparr>ab_parts = [''t-0'' \<mapsto> ([], [sample_batch])], ab_offsets = Map.empty, ab_gone = {}\<rparr>"

lemma sample_produce_parse:
  "on_conn (ParseProduceRequest sample_header) (sample_conn (produce_wire None (sample_produce_batch acks))) =
   (Inr (sample_produce_batch acks), sample_conn [])"
  by (rule on_conn_sample, rule produce_codec.dec_enc)
    (simp add: sample_produce_batch_def produce_ok_def produce_topic_ok_def produce_partition_ok_def sample_batch_fields)

lemma sample_produce_spec:
  "list_all (produce_topic_allowed sample_prom 1024) (pr_Topics (sample_produce_batch acks))"
  "sum_list (map produce_topic_cost (pr_Topics (sample_produce_batch acks))) = 65"
  "spec_each (spec_produce_topic 1024) (pr_Topics (sample_produce_batch acks)) empty_broker =
     ([\<lparr>ptr_TopicName = ''t'', ptr_Partitions = [\<lparr>ppr_BaseOffset = 0, ppr_Partition = 0, ppr_ErrorCode = 0\<rparr>]\<rparr>], batch_broker)"
proof -
  have k: "partitionKey ''t'' 0 = ''t-0''" by code_simp
  have c: "batch_count sample_batch = Inr 1" using sample_batch_fields(1) by (auto simp: batch_count_def sample_batch_valid)
  show "list_all (produce_topic_allowed sample_prom 1024) (pr_Topics (sample_produce_batch acks))"
    using sample_tp(1) by (simp add: sample_produce_batch_def produce_topic_allowed_def produce_allowed_def
        sample_prom_accepts c sample_batch_fields)
  show "sum_list (map produce_topic_cost (pr_Topics (sample_produce_batch acks))) = 65"
    by (simp add: sample_produce_batch_def produce_topic_cost_def produce_cost_def sample_batch_fields)
  show "spec_each (spec_produce_topic 1024) (pr_Topics (sample_produce_batch acks)) empty_broker =
     ([\<lparr>ptr_TopicName = ''t'', ptr_Partitions = [\<lparr>ppr_BaseOffset = 0, ppr_Partition = 0, ppr_ErrorCode = 0\<rparr>]\<rparr>], batch_broker)"
    by (simp add: sample_produce_batch_def spec_produce_topic_def spec_produce_def c k spec_append_def spec_create_def
        empty_broker_def created_def log_append_def sample_batch_fields batch_broker_def)
qed

theorem handleProduce_refines_witness:
  "\<exists>h'. serves 1024 0 h' batch_broker \<and>
     handleProduce sample_prom sample_header (sample_conn (produce_wire None (sample_produce_batch 1))) sample_handler =
       (Inr (), (sample_conn [])\<lparr>cn_out := FullMessage \<lparr>buffer = produce_response_wire 7
          [\<lparr>ptr_TopicName = ''t'', ptr_Partitions = [\<lparr>ppr_BaseOffset = 0, ppr_Partition = 0, ppr_ErrorCode = 0\<rparr>]\<rparr>]\<rparr>\<rparr>, h')"
proof -
  have "serves 1024 (sum_list (map produce_topic_cost (pr_Topics (sample_produce_batch 1))) + 0) sample_handler empty_broker"
    by (rule sample_serves) (simp_all add: sample_produce_spec)
  from handleProduce_refines [OF sample_produce_parse sample_produce_spec(1) _ this sample_produce_spec(3)]
  show ?thesis
    by (simp add: sample_produce_batch_def AcksNone_def finish_def conn_Write_def sample_conn_def sample_header_def)
qed

end
