(* ===== verification/Handler_Fetch.thy ===== *)
theory Handler_Fetch
  imports Handler_Produce
begin

text \<open>
  The fetch handler refines its specification, which reads a window of the bytes of the active
  segment within the byte limits of the partition and of the request.
\<close>

section \<open>Specification\<close>

definition fetch_cap :: "int32 \<Rightarrow> fetch_partition \<Rightarrow> int32" where
  "fetch_cap remaining part =
     (if sint remaining < sint (fp_PartitionMaxBytes part) then remaining else fp_PartitionMaxBytes part)"

definition fetch_key :: "string \<Rightarrow> fetch_partition \<Rightarrow> string" where
  "fetch_key topic part = partitionKey topic (sint (fp_Partition part))"

text \<open>What a fetch at an offset may get of a log: an error code and the bytes served, if any.\<close>

definition spec_window :: "bytes \<Rightarrow> int64 \<Rightarrow> int \<Rightarrow> int16 \<times> bytes option" where
  "spec_window log fetchOffset cap =
     (let off = sint fetchOffset;
          raw = take (nat (cap + 4)) (drop (nat off) log)
      in if off = int (length log) then (ErrCodeNone, None)
         else if int (length log) < off then (ErrCodeOffsetOutOfRange, None)
         else if cap \<le> 0 then (ErrCodeNone, None)
         else if off < 0 \<or> 2 ^ 31 \<le> cap + 4 \<or> length raw < 4 then (ErrCodeOffsetOutOfRange, None)
         else (ErrCodeNone, Some (patch_batches 0 fetchOffset (drop 4 raw))))"

definition spec_fetch ::
    "string \<Rightarrow> fetch_partition \<Rightarrow> int32 \<times> abs_broker \<Rightarrow> fetch_partition_response \<times> int32 \<times> abs_broker" where
  "spec_fetch topic part st =
     (case st of (remaining, B) \<Rightarrow>
        let k = fetch_key topic part;
            B1 = spec_create k B;
            log = log_bytes (spec_records k B1)
        in case spec_window log (fp_FetchOffset part) (sint (fetch_cap remaining part)) of
             (code, batch) \<Rightarrow>
               (\<lparr>fpr_RecordBatch = batch, fpr_HighWatermark = word_of_nat (length log),
                 fpr_BatchSize = (case batch of None \<Rightarrow> - 1 | Some b \<Rightarrow> word_of_nat (length b)),
                 fpr_Partition = fp_Partition part, fpr_ErrorCode = code\<rparr>,
                remaining - (case batch of None \<Rightarrow> 0 | Some b \<Rightarrow> word_of_nat (length b)), B1))"

definition spec_fetch_topic ::
    "fetch_topic \<Rightarrow> int32 \<times> abs_broker \<Rightarrow> fetch_topic_response \<times> int32 \<times> abs_broker" where
  "spec_fetch_topic topic st =
     (case spec_each (spec_fetch (ft_TopicName topic)) (ft_Partitions topic) st of
        (ps, st1) \<Rightarrow> (\<lparr>ftr_TopicName = ft_TopicName topic, ftr_Partitions = ps\<rparr>, st1))"

definition fetch_allowed :: "('c, 'h) prometheus \<Rightarrow> string \<Rightarrow> fetch_partition \<Rightarrow> bool" where
  "fetch_allowed pr topic part \<longleftrightarrow> prom_accepts pr topic \<and> valid_tp topic (sint (fp_Partition part))"

definition serves_budget :: "int \<Rightarrow> int \<Rightarrow> int32 \<times> ('c, 'h) handler \<Rightarrow> int32 \<times> abs_broker \<Rightarrow> bool" where
  "serves_budget mx n st a \<longleftrightarrow> fst st = fst a \<and> serves mx n (snd st) (snd a)"

section \<open>Refinement\<close>

lemma uint_sint64:
  fixes w :: int64
  shows "i64 (uint w) = sint w" "0 \<le> sint w \<Longrightarrow> uint w = sint w"
proof -
  show i: "i64 (uint w) = sint w"
    by (simp add: i64_def sint_uint)
  assume "0 \<le> sint w"
  moreover have "sint w < 2 ^ 63" using sint_range_size [of w] by (simp add: word_size)
  ultimately show "uint w = sint w" using u64_id [of "sint w"] by (simp add: uint_sint u64_def)
qed

lemma sint32_add: "sint (v + w :: int32) = i32 (sint v + sint w)"
  by (simp add: sint_word_ariths i32_def)

lemma i32_overflow: "2 ^ 31 \<le> x \<Longrightarrow> x < 2 ^ 32 \<Longrightarrow> i32 x < 0"
  using signed_take_bit_int_less_eq [of 31 x] by (simp add: i32_def del: signed_take_bit_negative_iff)

lemma length_window:
  "0 \<le> off \<Longrightarrow> off \<le> int (length xs) \<Longrightarrow> 0 \<le> m \<Longrightarrow>
   int (length (take (nat m) (drop (nat off) xs))) = min m (int (length xs) - off)"
  by (auto simp: min_def)

lemma ReadFull_window:
  "m = int (length xs) \<Longrightarrow> ReadFull (nat m) \<lparr>rd_data = xs, rd_err = e\<rparr> = (Inr xs, \<lparr>rd_data = [], rd_err = e\<rparr>)"
  by (simp add: ReadFull_def)

lemma ReadFull_empty:
  fixes rd :: go_reader
  shows "rd_data rd = [] \<Longrightarrow> 0 < m \<Longrightarrow> \<exists>e rd'. ReadFull (nat m) rd = (Inl e, rd')"
  by (simp add: ReadFull_def)

lemma serve_window_ok:
  assumes S: "serves mx n h B" and K: "ab_parts B k \<noteq> None" and P: "prom_accepts pr topic"
    and off: "0 \<le> sint (fp_FetchOffset part)" "sint (fp_FetchOffset part) < int (length (log_bytes (spec_records k B)))"
    and cap: "0 < sint cap" "sint cap + 4 < 2 ^ 31"
    and raw: "raw = take (nat (sint cap + 4)) (drop (nat (sint (fp_FetchOffset part))) (log_bytes (spec_records k B)))"
    and payload: "payload = patch_batches 0 (fp_FetchOffset part) (drop 4 raw)"
  shows "\<exists>h'. serves mx n h' B \<and> serve_window pr topic part k cap resp remaining h =
    (if length raw < 4 then (Inr (resp\<lparr>fpr_ErrorCode := ErrCodeOffsetOutOfRange\<rparr>), remaining, h')
     else (Inr (resp\<lparr>fpr_ErrorCode := ErrCodeNone, fpr_RecordBatch := Some payload,
                     fpr_BatchSize := word_of_nat (length payload)\<rparr>),
           remaining - word_of_nat (length payload), h'))"
proof -
  let ?off = "sint (fp_FetchOffset part)" and ?log = "log_bytes (spec_records k B)"
  have u: "uint (fp_FetchOffset part) = ?off" using off(1) by (rule uint_sint64(2))
  have c4: "sint (cap + 4) = sint cap + 4" using cap by (simp add: sint32_add i32_id)
  have m4: "0 < sint cap + 4" using cap by simp
  obtain h2 where R: "read_window k ?off (sint cap + 4) h =
      (Inr (\<lparr>rd_data = raw, rd_err = io_EOF\<rparr>, min (sint cap + 4) (int (length ?log) - ?off)), h2)"
    "serves mx n h2 B"
    using read_window_ok [OF S K off m4 cap(2)] unfolding raw by metis
  have len: "min (sint cap + 4) (int (length ?log) - ?off) = int (length raw)"
    using length_window [of ?off ?log "sint cap + 4"] off m4 by (simp add: raw)
  obtain m where m: "inc_fetched pr topic (hn_metrics h2) = Inr m" using prom_accepts_ok(3) [OF P] by metis
  have W: "read_window k (uint (fp_FetchOffset part)) (sint (cap + 4)) h =
      (Inr (\<lparr>rd_data = raw, rd_err = io_EOF\<rparr>, int (length raw)), h2)"
    using R(1) unfolding u c4 len .
  have F: "ReadFull (nat (int (length raw))) \<lparr>rd_data = raw, rd_err = io_EOF\<rparr> = (Inr raw, \<lparr>rd_data = [], rd_err = io_EOF\<rparr>)"
    by (rule ReadFull_window) (rule refl)
  show ?thesis
  proof (cases "length raw < 4")
    case True
    then show ?thesis using R(2) by (intro exI [of _ h2]) (simp add: serve_window_def W F [simplified])
  next
    case False
    then show ?thesis
      using R(2) by (intro exI [of _ "h2\<lparr>hn_metrics := m\<rparr>"])
        (simp add: serve_window_def W F [simplified] payload m Let_def)
  qed
qed

lemma serve_window_refuse:
  assumes S: "serves mx n h B" and K: "ab_parts B k \<noteq> None"
    and bad: "sint (fp_FetchOffset part) < 0 \<or> 2 ^ 31 \<le> sint cap + 4"
  shows "\<exists>h'. serves mx n h' B \<and> serve_window pr topic part k cap resp remaining h =
    (Inr (resp\<lparr>fpr_ErrorCode := ErrCodeOffsetOutOfRange\<rparr>), remaining, h')"
proof -
  have "i64 (uint (fp_FetchOffset part)) < 0 \<or> sint (cap + 4) \<le> 0"
    using bad i32_overflow [of "sint cap + 4"] sint32_range(2) [of cap] by (auto simp: uint_sint64(1) sint32_add)
  then obtain r h2 where R: "read_window k (uint (fp_FetchOffset part)) (sint (cap + 4)) h = (r, h2)"
    "serves mx n h2 B" "\<And>rd m. r = Inr (rd, m) \<Longrightarrow> rd_data rd = [] \<and> 0 < m"
    using read_window_refuse [OF S K] by metis
  show ?thesis
  proof (cases r)
    case (Inl e)
    then show ?thesis using R(1,2) by (intro exI [of _ h2]) (simp add: serve_window_def)
  next
    case (Inr rm)
    then obtain rd m where rm: "r = Inr (rd, m)" by (cases rm) simp
    have m: "rd_data rd = []" "0 < m" using R(3) [OF rm] by simp_all
    obtain e rd' where "ReadFull (nat m) rd = (Inl e, rd')" using ReadFull_empty [OF m] by blast
    with m(2) show ?thesis using R(1,2) rm by (intro exI [of _ h2]) (simp add: serve_window_def)
  qed
qed

lemma fetch_step_ok:
  assumes allowed: "fetch_allowed pr topic part" and S: "serves mx n h B"
  shows "\<exists>h'. fetch_partition_step pr topic part (remaining, h) =
      (Inr (fst (spec_fetch topic part (remaining, B))), fst (snd (spec_fetch topic part (remaining, B))), h') \<and>
    serves mx n h' (snd (snd (spec_fetch topic part (remaining, B))))"
proof -
  let ?k = "fetch_key topic part"
  let ?B = "spec_create ?k B"
  let ?log = "log_bytes (spec_records ?k ?B)"
  let ?off = "sint (fp_FetchOffset part)" and ?cap = "fetch_cap remaining part"
  let ?w = "spec_window ?log (fp_FetchOffset part) (sint ?cap)"
  obtain h1 where G: "get_partition topic (fp_Partition part) h = (Inr ?k, h1)" "serves mx n h1 ?B"
    using get_partition_ok [OF S] allowed unfolding fetch_allowed_def fetch_key_def by metis
  note Z = size_of_ok [OF G(2) spec_create_parts(1)]
  let ?resp = "\<lparr>fpr_RecordBatch = None, fpr_HighWatermark = size_of ?k h1, fpr_BatchSize = - 1,
      fpr_Partition = fp_Partition part, fpr_ErrorCode = 0\<rparr>"
  have hw: "fp_FetchOffset part = size_of ?k h1 \<longleftrightarrow> ?off = int (length ?log)"
    unfolding Z(2) [symmetric] by (auto intro: signed_word_eqI)
  have F: "fetch_partition_step pr topic part (remaining, h) =
      (if ?off = int (length ?log) then (Inr (?resp\<lparr>fpr_ErrorCode := ErrCodeNone\<rparr>), remaining, h1)
       else if int (length ?log) < ?off then (Inr (?resp\<lparr>fpr_ErrorCode := ErrCodeOffsetOutOfRange\<rparr>), remaining, h1)
       else if sint ?cap \<le> 0 then (Inr (?resp\<lparr>fpr_ErrorCode := ErrCodeNone\<rparr>), remaining, h1)
       else serve_window pr topic part ?k ?cap ?resp remaining h1)"
    unfolding fetch_partition_step_def Let_def fetch_cap_def [symmetric] by (simp add: G(1) hw Z(2))
  have spec: "spec_fetch topic part (remaining, B) =
      (\<lparr>fpr_RecordBatch = snd ?w, fpr_HighWatermark = size_of ?k h1,
        fpr_BatchSize = (case snd ?w of None \<Rightarrow> - 1 | Some b \<Rightarrow> word_of_nat (length b)),
        fpr_Partition = fp_Partition part, fpr_ErrorCode = fst ?w\<rparr>,
       remaining - (case snd ?w of None \<Rightarrow> 0 | Some b \<Rightarrow> word_of_nat (length b)), ?B)"
    by (simp add: spec_fetch_def Let_def case_prod_beta Z(1))
  consider (served) "0 \<le> ?off" "?off < int (length ?log)" "0 < sint ?cap" "sint ?cap + 4 < 2 ^ 31"
    | (refused) "?off < int (length ?log)" "0 < sint ?cap" "?off < 0 \<or> 2 ^ 31 \<le> sint ?cap + 4"
    | (early) "?off = int (length ?log) \<or> int (length ?log) < ?off \<or> sint ?cap \<le> 0"
    by linarith
  then show ?thesis
  proof cases
    case served
    let ?raw = "take (nat (sint ?cap + 4)) (drop (nat ?off) ?log)"
    have P: "prom_accepts pr topic" using allowed by (simp add: fetch_allowed_def)
    have w: "?w = (if length ?raw < 4 then (ErrCodeOffsetOutOfRange, None)
        else (ErrCodeNone, Some (patch_batches 0 (fp_FetchOffset part) (drop 4 ?raw))))"
      using served unfolding spec_window_def Let_def by simp
    have F': "fetch_partition_step pr topic part (remaining, h) = serve_window pr topic part ?k ?cap ?resp remaining h1"
      unfolding F using served by simp
    show ?thesis
      using serve_window_ok [OF G(2) spec_create_parts(1) P served refl refl, of ?resp remaining]
      unfolding spec F' w by (cases "length ?raw < 4") (simp_all only: if_True if_False, auto)
  next
    case refused
    have w: "?w = (ErrCodeOffsetOutOfRange, None)"
      using refused unfolding spec_window_def Let_def by auto
    have F': "fetch_partition_step pr topic part (remaining, h) = serve_window pr topic part ?k ?cap ?resp remaining h1"
      unfolding F using refused by simp
    show ?thesis
      using serve_window_refuse [OF G(2) spec_create_parts(1) refused(3), of pr topic ?resp remaining]
      unfolding spec F' w by auto
  next
    case early
    have w: "?w = (if ?off = int (length ?log) then (ErrCodeNone, None)
        else if int (length ?log) < ?off then (ErrCodeOffsetOutOfRange, None) else (ErrCodeNone, None))"
      using early unfolding spec_window_def Let_def by auto
    show ?thesis unfolding spec F w using early G(2) by (intro exI [of _ h1]) auto
  qed
qed

section \<open>The loops\<close>

interpretation fetch_part: step_refines "fetch_partition_step pr topic" "spec_fetch topic" "fetch_allowed pr topic"
    "\<lambda>_. 0" "serves_budget mx" for pr topic mx
proof
  fix x n and s :: "int32 \<times> ('a, 'b) handler" and a
  assume a: "fetch_allowed pr topic x" "serves_budget mx (0 + n) s a"
  then obtain h' where "fetch_partition_step pr topic x (fst a, snd s) =
      (Inr (fst (spec_fetch topic x (fst a, snd a))), fst (snd (spec_fetch topic x (fst a, snd a))), h')"
    "serves mx n h' (snd (snd (spec_fetch topic x (fst a, snd a))))"
    using fetch_step_ok unfolding serves_budget_def by (metis add_0)
  moreover have "s = (fst a, snd s)" using a(2) by (simp add: serves_budget_def prod_eq_iff)
  ultimately show "\<exists>s'. fetch_partition_step pr topic x s = (Inr (fst (spec_fetch topic x a)), s') \<and>
      serves_budget mx n s' (snd (spec_fetch topic x a))"
    by (intro exI [of _ "(fst (snd (spec_fetch topic x a)), h')"]) (simp add: serves_budget_def)
qed simp

definition fetch_topic_allowed :: "('c, 'h) prometheus \<Rightarrow> fetch_topic \<Rightarrow> bool" where
  "fetch_topic_allowed pr topic \<longleftrightarrow> list_all (fetch_allowed pr (ft_TopicName topic)) (ft_Partitions topic)"

interpretation fetch_topic: step_refines "fetch_topic_step pr" spec_fetch_topic "fetch_topic_allowed pr"
    "\<lambda>_. 0" "serves_budget mx" for pr mx
proof
  fix x and n :: int and s :: "int32 \<times> ('a, 'b) handler" and a
  assume "fetch_topic_allowed pr x" "0 \<le> n" "serves_budget mx (0 + n) s a"
  then obtain s' where "each_of (fetch_partition_step pr (ft_TopicName x)) (ft_Partitions x) s =
      (Inr (fst (spec_each (spec_fetch (ft_TopicName x)) (ft_Partitions x) a)), s')"
    "serves_budget mx n s' (snd (spec_each (spec_fetch (ft_TopicName x)) (ft_Partitions x) a))"
    using fetch_part.each_refines [of pr "ft_TopicName x" "ft_Partitions x" n mx s a]
    unfolding fetch_topic_allowed_def by auto
  then show "\<exists>s'. fetch_topic_step pr x s = (Inr (fst (spec_fetch_topic x a)), s') \<and>
      serves_budget mx n s' (snd (spec_fetch_topic x a))"
    by (simp add: fetch_topic_step_def spec_fetch_topic_def case_prod_beta)
qed simp

section \<open>Patching\<close>

lemma length_patch_batches [simp]: "length (patch_batches pos cur payload) = length payload"
proof (induction pos cur payload rule: patch_batches.induct)
  case (1 pos cur payload)
  then show ?case by (subst patch_batches.simps) (auto simp: Let_def)
qed

text \<open>The size of every batch handed to the response writer is announced correctly.\<close>

lemma spec_window_size:
  assumes "spec_window log off cap = (code, Some b)"
  shows "length b < 2 ^ 31"
  using assms by (auto simp: spec_window_def Let_def split: if_splits)

lemma spec_fetch_sizes:
  assumes "fst (spec_fetch topic part st) = resp" and "0 < sint (fpr_BatchSize resp)"
  shows "\<exists>b. fpr_RecordBatch resp = Some b \<and> int (length b) = sint (fpr_BatchSize resp)"
proof -
  obtain code batch where w: "spec_window (log_bytes (spec_records (fetch_key topic part)
      (spec_create (fetch_key topic part) (snd st)))) (fp_FetchOffset part) (sint (fetch_cap (fst st) part)) = (code, batch)"
    by fastforce
  have r: "fpr_RecordBatch resp = batch" "fpr_BatchSize resp = (case batch of None \<Rightarrow> - 1 | Some b \<Rightarrow> word_of_nat (length b))"
    using assms(1) w by (auto simp: spec_fetch_def Let_def case_prod_beta)
  show ?thesis
  proof (cases batch)
    case None
    then show ?thesis using assms(2) r(2) by simp
  next
    case (Some b)
    then show ?thesis using r sint_of_length32 [OF spec_window_size] w by simp
  qed
qed

lemma spec_each_all:
  assumes "\<And>x a. x \<in> set xs \<Longrightarrow> P (fst (g x a))"
  shows "list_all P (fst (spec_each g xs a))"
  using assms by (induction xs arbitrary: a) (simp_all add: case_prod_beta)

lemma spec_fetch_batch_sizes:
  "batch_sizes_ok \<lparr>fs_Topics = fst (spec_each spec_fetch_topic topics st), fs_ThrottleTimeMs = t\<rparr>"
  unfolding batch_sizes_ok_def fetch_response.simps
proof (rule spec_each_all)
  fix x a
  show "list_all (\<lambda>p. 0 < sint (fpr_BatchSize p) \<longrightarrow> (\<exists>b. fpr_RecordBatch p = Some b \<and> int (length b) = sint (fpr_BatchSize p)))
      (ftr_Partitions (fst (spec_fetch_topic x a)))"
    unfolding spec_fetch_topic_def case_prod_beta fst_conv fetch_topic_response.simps
    by (rule spec_each_all) (use spec_fetch_sizes in blast)
qed

section \<open>The handler\<close>

text \<open>
  C3: (Fetch) A fetch request, as it was parsed from the connection, is answered as
  specified: one frame whose size prefix is its length, with the window of each partition's
  log that its offset and the two byte limits allow, and the error codes for offsets outside
  the log.  The byte budget of the request is shared by its partitions.
\<close>

theorem handleFetch_refines:
  assumes parse: "on_conn (ParseFetchRequest header) c = (Inr req, c1)"
    and allowed: "list_all (fetch_topic_allowed pr) (fr_Topics req)" and S: "serves mx n h B"
    and spec: "spec_each spec_fetch_topic (fr_Topics req) (fr_MaxBytes req, B) = (topics, remaining, B')"
  shows "\<exists>h'. serves mx n h' B' \<and> handleFetch pr header c h =
    finish ''handleFetch: write response: %w''
      (conn_Write (FullMessage \<lparr>buffer = fetch_response_wire (rh_CorrelationID header)
         \<lparr>fs_Topics = topics, fs_ThrottleTimeMs = 0\<rparr>\<rparr>)) c1 h'"
proof -
  let ?resp = "\<lparr>fs_Topics = topics, fs_ThrottleTimeMs = 0\<rparr>"
  have "serves_budget mx (sum_list (map (\<lambda>_. 0) (fr_Topics req)) + n) (fr_MaxBytes req, h) (fr_MaxBytes req, B)"
    using S by (simp add: serves_budget_def map_replicate_const sum_list_replicate)
  from fetch_topic.each_refines [OF allowed servesD(4) [OF S] this] obtain s' where
    E: "each_of (fetch_topic_step pr) (fr_Topics req) (fr_MaxBytes req, h) = (Inr topics, s')"
      "serves_budget mx n s' (remaining, B')"
    unfolding spec by auto
  have "batch_sizes_ok ?resp" using spec_fetch_batch_sizes [of "fr_Topics req" "(fr_MaxBytes req, B)" 0] spec by simp
  from totalPayload_eq [OF this, of "rh_CorrelationID header"] have "WriteFetchResponse (rh_CorrelationID header) ?resp =
      conn_Write (FullMessage \<lparr>buffer = fetch_response_wire (rh_CorrelationID header) ?resp\<rparr>)"
    by (simp add: WriteFetchResponse_eq FullMessage_def)
  then show ?thesis
    using parse E by (intro exI [of _ "snd s'"])
      (simp add: handleFetch_def parse_then_def serves_budget_def case_prod_beta)
qed

definition sample_part :: produce_partition where
  "sample_part = \<lparr>pp_RecordBatch = sample_batch, pp_Partition = 0\<rparr>"

lemma sample_part_produced:
  obtains h where "produce_partition_step sample_prom ''t'' sample_part sample_handler =
      (Inr \<lparr>ppr_BaseOffset = 0, ppr_Partition = 0, ppr_ErrorCode = 0\<rparr>, h)" "serves 1024 0 h batch_broker"
proof -
  have k: "partitionKey ''t'' 0 = ''t-0''" by code_simp
  have c: "batch_count sample_batch = Inr 1" using sample_batch_fields(1) by (auto simp: batch_count_def sample_batch_valid)
  have A: "produce_allowed sample_prom 1024 ''t'' sample_part"
    using sample_tp(1) by (simp add: sample_part_def produce_allowed_def sample_prom_accepts c sample_batch_fields)
  have S: "serves 1024 (produce_cost sample_part + 0) sample_handler empty_broker"
    by (rule sample_serves) (simp_all add: sample_part_def produce_cost_def sample_batch_fields)
  have "spec_produce 1024 ''t'' sample_part empty_broker =
      (\<lparr>ppr_BaseOffset = 0, ppr_Partition = 0, ppr_ErrorCode = 0\<rparr>, batch_broker)"
    by (simp add: sample_part_def spec_produce_def c k spec_append_def spec_create_def
        empty_broker_def created_def log_append_def sample_batch_fields batch_broker_def)
  with produce_step_ok [OF A _ S] show thesis by (auto intro: that)
qed

definition sample_fetch_at :: "int64 \<Rightarrow> fetch_request" where
  "sample_fetch_at off = \<lparr>fr_Topics = [\<lparr>ft_TopicName = ''t'', ft_Partitions =
       [\<lparr>fp_FetchOffset = off, fp_Partition = 0, fp_PartitionMaxBytes = 1000\<rparr>]\<rparr>],
     fr_Header = sample_header, fr_ReplicaID = - 1, fr_MaxWaitMs = 500, fr_MinBytes = 1,
     fr_MaxBytes = 1000, fr_IsolationLevel = 0\<rparr>"

lemma sample_fetch_parse:
  "on_conn (ParseFetchRequest sample_header) (sample_conn (fetch_wire (sample_fetch_at off))) =
   (Inr (sample_fetch_at off), sample_conn [])"
  by (rule on_conn_sample, rule fetch_codec.dec_enc) (simp add: sample_fetch_at_def fetch_ok_def fetch_topic_ok_def)

text \<open>A consumer that has read everything gets an empty batch and no error.\<close>

theorem handleFetch_refines_witness:
  "\<exists>r h h'. produce_partition_step sample_prom ''t'' sample_part sample_handler = (Inr r, h) \<and>
     handleFetch sample_prom sample_header (sample_conn (fetch_wire (sample_fetch_at 65))) h =
       (Inr (), (sample_conn [])\<lparr>cn_out := FullMessage \<lparr>buffer = fetch_response_wire 7 \<lparr>fs_Topics =
          [\<lparr>ftr_TopicName = ''t'', ftr_Partitions = [\<lparr>fpr_RecordBatch = None, fpr_HighWatermark = 65,
              fpr_BatchSize = - 1, fpr_Partition = 0, fpr_ErrorCode = 0\<rparr>]\<rparr>], fs_ThrottleTimeMs = 0\<rparr>\<rparr>\<rparr>, h')"
proof -
  obtain h where P: "produce_partition_step sample_prom ''t'' sample_part sample_handler =
      (Inr \<lparr>ppr_BaseOffset = 0, ppr_Partition = 0, ppr_ErrorCode = 0\<rparr>, h)" "serves 1024 0 h batch_broker"
    by (rule sample_part_produced)
  have k: "partitionKey ''t'' 0 = ''t-0''" by code_simp
  have A: "list_all (fetch_topic_allowed sample_prom) (fr_Topics (sample_fetch_at 65))"
    using sample_tp(1) by (simp add: sample_fetch_at_def fetch_topic_allowed_def fetch_allowed_def sample_prom_accepts)
  have "spec_each spec_fetch_topic (fr_Topics (sample_fetch_at 65)) (fr_MaxBytes (sample_fetch_at 65), batch_broker) =
      ([\<lparr>ftr_TopicName = ''t'', ftr_Partitions = [\<lparr>fpr_RecordBatch = None, fpr_HighWatermark = 65,
          fpr_BatchSize = - 1, fpr_Partition = 0, fpr_ErrorCode = 0\<rparr>]\<rparr>], 1000, batch_broker)"
    by (simp add: sample_fetch_at_def spec_fetch_topic_def spec_fetch_def spec_window_def Let_def fetch_key_def k
        spec_create_def created_def batch_broker_def spec_records_def sample_batch_fields ErrCodeNone_def)
  from handleFetch_refines [OF sample_fetch_parse A P(2) this] P(1) show ?thesis
    by (auto simp: finish_def conn_Write_def sample_conn_def sample_header_def)
qed

end
