(* ===== verification/Handler_Consume.thy ===== *)
theory Handler_Consume
  imports Handler_Fetch
begin

text \<open>
  What a consumer makes of a fetched window.  A client takes the next fetch offset from the
  last batch it got, as its base offset plus its last offset delta plus one; the handler
  rewrites the base offset so that this is the position of the next record.
\<close>

section \<open>One batch in the window\<close>

definition whole_batch :: "bytes \<Rightarrow> bool" where
  "whole_batch b \<longleftrightarrow> 27 \<le> length b \<and> 12 + unat (Uint32_at b 8) = length b"

definition last_delta :: "bytes \<Rightarrow> int32" where
  "last_delta b = Uint32_at b 23"

definition next_fetch_offset :: "bytes \<Rightarrow> int64" where
  "next_fetch_offset b = Uint64_at b 0 + scast (last_delta b) + 1"

definition patched :: "64 word \<Rightarrow> bytes \<Rightarrow> bytes" where
  "patched off b = be_put 8 (off + 4 + word_of_nat (length b) - scast (last_delta b) - 1) @ drop 8 b"

lemma length_patched: "whole_batch b \<Longrightarrow> length (patched off b) = length b"
  by (simp add: patched_def whole_batch_def)

lemma Uint32_at_append: "i + 4 \<le> length b \<Longrightarrow> Uint32_at (b @ rest) i = Uint32_at b i"
  by (simp add: Uint32_at_def subslice_append_left)

lemma Uint32_at_skip: "length a \<le> i \<Longrightarrow> Uint32_at (a @ b) i = Uint32_at b (i - length a)"
  by (simp add: Uint32_at_def subslice_append_right)

lemma patch_first:
  assumes "whole_batch b"
  shows "patch_batches 0 off (b @ rest) = patch_batches (length b) (off + word_of_nat (length b)) (patched off b @ rest)"
proof -
  have L: "27 \<le> length b" "12 + unat (Uint32_at b 8) = length b" using assms by (simp_all add: whole_batch_def)
  have u: "Uint32_at (b @ rest) 8 = Uint32_at b 8" "Uint32_at (b @ rest) 23 = last_delta b"
    using L(1) by (simp_all add: Uint32_at_append last_delta_def)
  have c: "27 \<le> length (b @ rest)" "\<not> length (b @ rest) < length b" using L(1) by simp_all
  have w: "off + 4 + word_of_nat (length b) - 4 = off + word_of_nat (length b)" by simp
  show ?thesis
    using c L by (subst patch_batches.simps) (simp add: u Let_def patched_def w)
qed

lemma patch_done: "length payload < pos + 27 \<Longrightarrow> patch_batches pos cur payload = payload"
  by (subst patch_batches.simps) simp

lemma patch_whole:
  assumes "whole_batch b"
  shows "patch_batches 0 off b = patched off b"
  using patch_first [OF assms, of off "[]"] patch_done [of "patched off b" "length b"] length_patched [OF assms] by simp

lemma patched_reads:
  assumes "whole_batch b"
  shows "next_fetch_offset (patched off b) = off + 4 + word_of_nat (length b)"
    "drop 8 (patched off b) = drop 8 b"
proof -
  have L: "27 \<le> length b" using assms by (simp add: whole_batch_def)
  have "subslice 23 27 (patched off b) = subslice 23 27 b"
    using L unfolding patched_def by (intro subslice_same_tail) simp_all
  then have d: "last_delta (patched off b) = last_delta b" by (simp add: last_delta_def Uint32_at_def)
  have "Uint64_at (patched off b) 0 = off + 4 + word_of_nat (length b) - scast (last_delta b) - 1"
    using Uint_at_put(3) [where a = "[]" and i = 0] by (simp add: patched_def)
  with d show "next_fetch_offset (patched off b) = off + 4 + word_of_nat (length b)"
    by (simp add: next_fetch_offset_def)
  show "drop 8 (patched off b) = drop 8 b" by (simp add: patched_def)
qed

lemma patched_valid:
  assumes "whole_batch b"
  shows "ValidateRecordBatch (patched off b) = ValidateRecordBatch b"
proof (rule validate_cong)
  have L: "27 \<le> length b" using assms by (simp add: whole_batch_def)
  then show "length (patched off b) = length b" by (simp add: patched_def)
  show "patched off b ! 16 = b ! 16" if "61 \<le> length b" using that by (simp add: patched_def nth_append)
  show "subslice i j (patched off b) = subslice i j b" if "8 \<le> i" for i j
    using that L unfolding patched_def by (intro subslice_same_tail) simp_all
qed

section \<open>Producing and consuming\<close>

lemma spec_append_last:
  assumes T: "spec_append mx k b B = (off, B1)" and K: "ab_parts B k \<noteq> None"
  obtains rs where "spec_records k B1 = rs @ [b]" "off = int (length (log_bytes rs))" "spec_create k B1 = B1"
    "ab_parts B1 k \<noteq> None"
proof -
  obtain cs cur where "ab_parts B k = Some (cs, cur)" using K by auto
  then obtain cs' cur' where A: "log_append mx b cs cur = (off, cs', cur')" "B1 = B\<lparr>ab_parts := (ab_parts B)(k \<mapsto> (cs', cur'))\<rparr>"
    using spec_append_parts [OF T] by metis
  then obtain rs where "cur' = rs @ [b]" "off = int (length (log_bytes rs))"
    by (auto simp: log_append_def split: if_splits)
  with A(2) show thesis by (intro that) (simp_all add: spec_records_def spec_create_def created_def)
qed

lemma fetch_last:
  assumes recs: "spec_records (fetch_key topic part) (spec_create (fetch_key topic part) B) = rs @ [b]"
    and off: "fp_FetchOffset part = word_of_nat (length (log_bytes rs))" "length (log_bytes (rs @ [b])) < 2 ^ 62"
    and b: "whole_batch b" and cap: "int (length b) \<le> sint (fetch_cap remaining part)" "sint (fetch_cap remaining part) < 2 ^ 31 - 4"
  shows "spec_fetch topic part (remaining, B) =
    (\<lparr>fpr_RecordBatch = Some (patched (fp_FetchOffset part) b), fpr_HighWatermark = word_of_nat (length (log_bytes (rs @ [b]))),
      fpr_BatchSize = word_of_nat (length b), fpr_Partition = fp_Partition part, fpr_ErrorCode = ErrCodeNone\<rparr>,
     remaining - word_of_nat (length b), spec_create (fetch_key topic part) B)"
proof -
  let ?cap = "sint (fetch_cap remaining part)"
  have L: "27 \<le> length b" using b by (simp add: whole_batch_def)
  have so: "sint (fp_FetchOffset part) = int (length (log_bytes rs))"
    using off by (simp add: signed_of_nat signed_take_bit_int_eq_self)
  have "take (nat (?cap + 4)) (drop (length (log_bytes rs)) (log_bytes (rs @ [b]))) = rec_bytes b"
    using cap by simp
  moreover have "drop 4 (rec_bytes b) = b" by (simp add: rec_bytes_def)
  ultimately have "spec_window (log_bytes (rs @ [b])) (fp_FetchOffset part) ?cap = (ErrCodeNone, Some (patched (fp_FetchOffset part) b))"
    using cap L patch_whole [OF b] by (simp add: spec_window_def Let_def so)
  then show ?thesis
    using length_patched [OF b] by (simp add: spec_fetch_def Let_def recs)
qed

text \<open>
  C1: (Produce, then consume) A batch that was produced, and nothing after it, is served by a
  fetch at the offset of the produce response, if the byte limits allow its size.  The batch
  arrives unchanged behind its base offset, passes validation exactly as the stored one, and
  the offset a client fetches next is the high watermark, the position behind the batch.
\<close>

theorem produce_then_fetch:
  assumes S: "serves mx (produce_cost part + n) h B" and n: "0 \<le> n"
    and A: "produce_allowed pr mx topic part" and ok: "ValidateRecordBatch (pp_RecordBatch part) = Inr count"
    and b: "whole_batch (pp_RecordBatch part)"
    and limit: "int (length (pp_RecordBatch part)) \<le> sint limit" "sint limit < 2 ^ 31 - 4" "sint limit \<le> sint remaining"
  shows "\<exists>r h1 q p remaining' h2. produce_partition_step pr topic part h = (Inr r, h1) \<and> ppr_ErrorCode r = 0 \<and>
    fetch_partition_step pr topic
      \<lparr>fp_FetchOffset = ppr_BaseOffset r, fp_Partition = pp_Partition part, fp_PartitionMaxBytes = limit\<rparr> (remaining, h1) =
      (Inr q, remaining', h2) \<and>
    fpr_ErrorCode q = ErrCodeNone \<and> fpr_RecordBatch q = Some p \<and>
    drop 8 p = drop 8 (pp_RecordBatch part) \<and> length p = length (pp_RecordBatch part) \<and>
    ValidateRecordBatch p = Inr count \<and> next_fetch_offset p = fpr_HighWatermark q"
proof -
  let ?b = "pp_RecordBatch part" and ?k = "partitionKey topic (sint (pp_Partition part))"
  let ?B1 = "snd (spec_produce mx topic part B)" and ?r = "fst (spec_produce mx topic part B)"
  let ?f = "\<lparr>fp_FetchOffset = ppr_BaseOffset ?r, fp_Partition = pp_Partition part, fp_PartitionMaxBytes = limit\<rparr>"
  obtain h1 where P: "produce_partition_step pr topic part h = (Inr ?r, h1)" "serves mx n h1 ?B1"
    using produce_step_ok [OF A n S] by blast
  have ne: "?b \<noteq> []" using b by (auto simp: whole_batch_def)
  obtain off B1 where T: "spec_append mx ?k ?b (spec_create ?k B) = (off, B1)" by fastforce
  have r: "?r = \<lparr>ppr_BaseOffset = word_of_int off, ppr_Partition = pp_Partition part, ppr_ErrorCode = 0\<rparr>" "?B1 = B1"
    using ok ne T by (simp_all add: spec_produce_def batch_count_def Let_def)
  obtain rs where R: "spec_records ?k B1 = rs @ [?b]" "off = int (length (log_bytes rs))" "spec_create ?k B1 = B1"
    "ab_parts B1 ?k \<noteq> None"
    using spec_append_last [OF T spec_create_parts(1)] by metis
  have key: "fetch_key topic ?f = ?k" by (simp add: fetch_key_def)
  have len: "length (log_bytes (rs @ [?b])) < 2 ^ 62"
    using size_of_ok(3) [OF P(2), of ?k] R(1,4) unfolding r(2) by simp
  have cap: "fetch_cap remaining ?f = limit" using limit by (simp add: fetch_cap_def)
  have fa: "fetch_allowed pr topic ?f" using A by (simp add: produce_allowed_def fetch_allowed_def)
  have fo: "fp_FetchOffset ?f = word_of_nat (length (log_bytes rs))" using r(1) R(2) by simp
  have E: "spec_fetch topic ?f (remaining, B1) =
      (\<lparr>fpr_RecordBatch = Some (patched (fp_FetchOffset ?f) ?b), fpr_HighWatermark = word_of_nat (length (log_bytes (rs @ [?b]))),
        fpr_BatchSize = word_of_nat (length ?b), fpr_Partition = fp_Partition ?f, fpr_ErrorCode = ErrCodeNone\<rparr>,
       remaining - word_of_nat (length ?b), B1)"
    using fetch_last [OF _ fo len b, of topic B1 remaining] limit R(1,3) unfolding key cap by simp
  have hw: "fp_FetchOffset ?f + 4 + word_of_nat (length ?b) = (word_of_nat (length (log_bytes (rs @ [?b]))) :: 64 word)"
    unfolding fo by (simp add: add.assoc)
  obtain h2 where "fetch_partition_step pr topic ?f (remaining, h1) =
      (Inr (fst (spec_fetch topic ?f (remaining, B1))), remaining - word_of_nat (length ?b), h2)"
    using fetch_step_ok [OF fa P(2), of remaining] unfolding r(2) E by auto
  then show ?thesis
    using P(1) r(1) patched_reads [OF b, of "fp_FetchOffset ?f"] patched_valid [OF b, of "fp_FetchOffset ?f"]
      length_patched [OF b, of "fp_FetchOffset ?f"] ok hw unfolding E
    by (intro exI [of _ ?r] exI [of _ h1] exI [of _ "patched (fp_FetchOffset ?f) ?b"] exI conjI) (assumption | simp)+
qed

theorem produce_then_fetch_witness:
  "\<exists>r h1 q p remaining' h2. produce_partition_step sample_prom ''t'' sample_part sample_handler = (Inr r, h1) \<and>
     fetch_partition_step sample_prom ''t''
       \<lparr>fp_FetchOffset = ppr_BaseOffset r, fp_Partition = 0, fp_PartitionMaxBytes = 1000\<rparr> (1000, h1) = (Inr q, remaining', h2) \<and>
     fpr_RecordBatch q = Some p \<and> ValidateRecordBatch p = Inr 1 \<and> next_fetch_offset p = fpr_HighWatermark q"
proof -
  have c: "batch_count sample_batch = Inr 1" using sample_batch_fields(1) by (auto simp: batch_count_def sample_batch_valid)
  have A: "produce_allowed sample_prom 1024 ''t'' sample_part"
    using sample_tp(1) by (simp add: sample_part_def produce_allowed_def sample_prom_accepts c sample_batch_fields)
  have S: "serves 1024 (produce_cost sample_part + 0) sample_handler empty_broker"
    by (rule sample_serves) (simp_all add: sample_part_def produce_cost_def sample_batch_fields)
  have W: "whole_batch (pp_RecordBatch sample_part)" "ValidateRecordBatch (pp_RecordBatch sample_part) = Inr 1"
    by (simp_all add: sample_part_def whole_batch_def sample_batch_fields sample_batch_valid)
  show ?thesis
    using produce_then_fetch [OF S order_refl A W(2,1), of 1000 1000]
    by (simp add: sample_part_def sample_batch_fields) blast
qed

section \<open>Two batches in the window\<close>

lemma be_get_hd:
  fixes bs :: bytes
  assumes "length bs = 3"
  shows "unat b * 2 ^ 24 \<le> unat (be_get (b # bs) :: 32 word)"
proof -
  let ?h = "push_bit 24 (ucast b) :: 32 word" and ?t = "be_get bs :: 32 word"
  have "uint ?h = uint b * 2 ^ 24"
    unfolding unsigned_push_bit_eq unsigned_ucast_eq
    using unsigned_less [of b, where ?'a = int] by (simp add: push_bit_eq_mult take_bit_int_eq_self)
  moreover have "uint ?h \<le> uint (?h OR ?t)" by (simp add: unsigned_or_eq or_greater_eq)
  ultimately have "uint b * 2 ^ 24 \<le> uint (?h OR ?t)" by simp
  then have "int (unat b * 2 ^ 24) \<le> int (unat (?h OR ?t))" by simp
  then have "unat b * 2 ^ 24 \<le> unat (?h OR ?t)" by (simp only: of_nat_le_iff)
  then show ?thesis using assms by simp
qed

lemma Uint32_at_big:
  assumes "b ! i = 2" "i + 4 \<le> length b"
  shows "2 ^ 25 \<le> unat (Uint32_at b i)"
proof -
  have "subslice i (i + 4) b = 2 # subslice (Suc i) (i + 4) b"
    using assms by (simp add: subslice_def Cons_nth_drop_Suc [symmetric] take_Cons')
  then show ?thesis
    using be_get_hd [of "subslice (Suc i) (i + 4) b" 2] assms(2) by (simp add: Uint32_at_def)
qed

text \<open>
  The second record of a window keeps its length prefix, so the loop takes the last four bytes
  of its base offset for its length.
\<close>

lemma patch_step:
  assumes "pos + 27 \<le> length p" "t = 12 + unat (Uint32_at p (pos + 8))" "pos + t \<le> length p"
  shows "\<exists>x cur'. patch_batches pos cur p = patch_batches (pos + t) cur' (take pos p @ be_put 8 (x :: 64 word) @ drop (pos + 8) p)"
proof -
  define x :: "64 word" where "x = cur + 4 + word_of_nat t - scast (Uint32_at p (pos + 23) :: int32) - 1"
  have "patch_batches pos cur p =
      patch_batches (pos + t) (cur + 4 + word_of_nat t - 4) (take pos p @ be_put 8 x @ drop (pos + 8) p)"
    using assms(1,3) by (subst patch_batches.simps) (simp only: assms(2) [symmetric] x_def Let_def if_True not_less simp_thms,
      simp only: not_less [symmetric] if_False)
  then show ?thesis by blast
qed

lemma patch_two:
  assumes b1: "whole_batch b1"
    and b2: "61 \<le> length b2" "length b2 < 2 ^ 25" "b2 ! 16 = 2" "Uint32_at b2 4 = 0"
    and payload: "payload = b1 @ rec_bytes b2"
  shows "\<exists>x :: 64 word. patch_batches 0 off payload = patched off b1 @ be_put 8 x @ drop 4 b2"
proof -
  let ?L = "length b1" and ?hdr = "be_put 4 (word_of_nat (length b2) :: 32 word)"
  let ?p1 = "patched off b1 @ ?hdr @ b2"
  note len = length_patched [OF b1, of off]
  have s1: "patch_batches 0 off payload = patch_batches ?L (off + word_of_nat ?L) ?p1"
    using patch_first [OF b1, of off "rec_bytes b2"] by (simp add: payload rec_bytes_def)
  have u1: "Uint32_at ?p1 (?L + 8) = 0" using b2(4) len by (simp add: Uint32_at_skip)
  have "\<exists>x cur'. patch_batches ?L (off + word_of_nat ?L) ?p1 =
      patch_batches (?L + 12) cur' (take ?L ?p1 @ be_put 8 (x :: 64 word) @ drop (?L + 8) ?p1)"
    using b2(1) len u1 by (intro patch_step) simp_all
  then obtain x :: "64 word" and cur where s2: "patch_batches ?L (off + word_of_nat ?L) ?p1 =
      patch_batches (?L + 12) cur (patched off b1 @ be_put 8 x @ drop 4 b2)"
    using len by auto
  let ?p2 = "patched off b1 @ be_put 8 x @ drop 4 b2"
  have "Uint32_at ?p2 (?L + 20) = Uint32_at b2 16"
    using len b2(1) by (simp add: Uint32_at_skip Uint32_at_def subslice_def add.commute)
  then have "length ?p2 < ?L + 12 + (12 + unat (Uint32_at ?p2 (?L + 12 + 8)))"
    using Uint32_at_big [OF b2(3)] b2(1,2) len by (simp add: add.commute add.left_commute)
  then have "patch_batches (?L + 12) cur ?p2 = ?p2"
    by (subst patch_batches.simps) (simp add: Let_def)
  then show ?thesis using s1 s2 by auto
qed

text \<open>
  C40: (Two records in one window) When the byte limits let a fetch window cover two complete
  records, the client gets the first batch, but what follows it is not the second batch: it
  still has its four-byte length prefix in front, partly overwritten by a base offset, so
  that it fails the magic byte check.  The second batch is one a producer sends, with base
  offset zero.
\<close>

theorem second_batch_unreadable:
  assumes S: "serves mx n h B" and A: "fetch_allowed pr topic part"
    and recs: "ab_parts B (fetch_key topic part) = Some (cs, rs @ [b1, b2])"
    and off: "fp_FetchOffset part = word_of_nat (length (log_bytes rs))"
    and b1: "whole_batch b1"
    and b2: "61 \<le> length b2" "length b2 < 2 ^ 25" "b2 ! 16 = 2" "Uint32_at b2 4 = 0" "b2 ! 12 \<noteq> 2"
    and cap: "int (length b1 + 4 + length b2) \<le> sint (fetch_cap remaining part)" "sint (fetch_cap remaining part) < 2 ^ 31 - 4"
  shows "\<exists>q remaining' h' p e. fetch_partition_step pr topic part (remaining, h) = (Inr q, remaining', h') \<and>
    fpr_ErrorCode q = ErrCodeNone \<and> fpr_RecordBatch q = Some p \<and> take (length b1) p = patched (fp_FetchOffset part) b1 \<and>
    ValidateRecordBatch (drop (length b1) p) = Inl (Err e) \<and> errors_Is e ErrInvalidMagicByte"
proof -
  let ?k = "fetch_key topic part" and ?cap = "sint (fetch_cap remaining part)" and ?log = "log_bytes (rs @ [b1, b2])"
  have B: "spec_create ?k B = B" using recs by (simp add: spec_create_def created_def)
  have R: "spec_records ?k B = rs @ [b1, b2]" using recs by (simp add: spec_records_def)
  have l62: "length ?log < 2 ^ 62" using size_of_ok(3) [OF S, of ?k] recs R by simp
  have so: "sint (fp_FetchOffset part) = int (length (log_bytes rs))"
    using off l62 by (simp add: signed_of_nat signed_take_bit_int_eq_self)
  have L: "27 \<le> length b1" using b1 by (simp add: whole_batch_def)
  have raw: "take (nat (?cap + 4)) (drop (length (log_bytes rs)) ?log) = rec_bytes b1 @ rec_bytes b2"
    using cap by simp
  have d4: "drop 4 (rec_bytes b1 @ rec_bytes b2) = b1 @ rec_bytes b2" by (simp add: rec_bytes_def)
  obtain x :: "64 word" where p: "patch_batches 0 (fp_FetchOffset part) (b1 @ rec_bytes b2) =
      patched (fp_FetchOffset part) b1 @ be_put 8 x @ drop 4 b2"
    using patch_two [OF b1 b2(1-4) refl] by blast
  let ?p = "patched (fp_FetchOffset part) b1 @ be_put 8 x @ drop 4 b2"
  have w: "spec_window ?log (fp_FetchOffset part) ?cap = (ErrCodeNone, Some ?p)"
    using cap L unfolding spec_window_def Let_def so nat_int raw d4 p by simp
  obtain q remaining' h' where Q: "fetch_partition_step pr topic part (remaining, h) = (Inr q, remaining', h')"
    "fpr_ErrorCode q = ErrCodeNone" "fpr_RecordBatch q = Some ?p"
    using fetch_step_ok [OF A S, of remaining] unfolding spec_fetch_def Let_def prod.case B R w by auto
  have "(be_put 8 x @ drop 4 b2) ! 16 = b2 ! 12" using b2(1) by (simp add: nth_append)
  then have "\<exists>e. ValidateRecordBatch (be_put 8 x @ drop 4 b2) = Inl (Err e) \<and> errors_Is e ErrInvalidMagicByte"
    using b2(1,5) by (simp add: ValidateRecordBatch_def rb_consts)
  then show ?thesis using Q length_patched [OF b1, of "fp_FetchOffset part"] by auto
qed

lemma sample_two_produced:
  obtains r1 h1 r2 h2 where "produce_partition_step sample_prom ''t'' sample_part sample_handler = (Inr r1, h1)"
    "produce_partition_step sample_prom ''t'' sample_part h1 = (Inr r2, h2)" "serves 1024 0 h2
      \<lparr>ab_parts = [''t-0'' \<mapsto> ([], [sample_batch, sample_batch])], ab_offsets = Map.empty, ab_gone = {}\<rparr>"
proof -
  have k: "partitionKey ''t'' 0 = ''t-0''" by code_simp
  have c: "batch_count sample_batch = Inr 1" using sample_batch_fields(1) by (auto simp: batch_count_def sample_batch_valid)
  have A: "produce_allowed sample_prom 1024 ''t'' sample_part"
    using sample_tp(1) by (simp add: sample_part_def produce_allowed_def sample_prom_accepts c sample_batch_fields)
  have cost: "produce_cost sample_part = 65" by (simp add: sample_part_def produce_cost_def sample_batch_fields)
  have S: "serves 1024 (produce_cost sample_part + 65) sample_handler empty_broker"
    by (rule sample_serves) (simp_all add: cost)
  have 1: "snd (spec_produce 1024 ''t'' sample_part empty_broker) = batch_broker"
    by (simp add: sample_part_def spec_produce_def c k spec_append_def spec_create_def
        empty_broker_def created_def log_append_def sample_batch_fields batch_broker_def)
  obtain h1 where P1: "produce_partition_step sample_prom ''t'' sample_part sample_handler =
      (Inr (fst (spec_produce 1024 ''t'' sample_part empty_broker)), h1)" "serves 1024 65 h1 batch_broker"
    using produce_step_ok [OF A _ S] unfolding 1 by auto
  have 2: "snd (spec_produce 1024 ''t'' sample_part batch_broker) =
      \<lparr>ab_parts = [''t-0'' \<mapsto> ([], [sample_batch, sample_batch])], ab_offsets = Map.empty, ab_gone = {}\<rparr>"
    by (simp add: sample_part_def spec_produce_def c k spec_append_def spec_create_def
        created_def log_append_def sample_batch_fields batch_broker_def)
  have "serves 1024 (produce_cost sample_part + 0) h1 batch_broker" using P1(2) by (simp add: cost)
  from produce_step_ok [OF A order_refl this] obtain h2 where
    "produce_partition_step sample_prom ''t'' sample_part h1 = (Inr (fst (spec_produce 1024 ''t'' sample_part batch_broker)), h2)"
    "serves 1024 0 h2 \<lparr>ab_parts = [''t-0'' \<mapsto> ([], [sample_batch, sample_batch])], ab_offsets = Map.empty, ab_gone = {}\<rparr>"
    unfolding 2 by auto
  with P1(1) show thesis by (rule that)
qed

theorem second_batch_unreadable_witness:
  "\<exists>r1 h1 r2 h2 q remaining' h' p e. produce_partition_step sample_prom ''t'' sample_part sample_handler = (Inr r1, h1) \<and>
     produce_partition_step sample_prom ''t'' sample_part h1 = (Inr r2, h2) \<and>
     fetch_partition_step sample_prom ''t'' \<lparr>fp_FetchOffset = 0, fp_Partition = 0, fp_PartitionMaxBytes = 1000\<rparr> (1000, h2) =
       (Inr q, remaining', h') \<and>
     fpr_RecordBatch q = Some p \<and> ValidateRecordBatch (drop 61 p) = Inl (Err e) \<and> errors_Is e ErrInvalidMagicByte"
proof -
  let ?f = "\<lparr>fp_FetchOffset = 0, fp_Partition = 0, fp_PartitionMaxBytes = 1000\<rparr>"
  obtain r1 h1 r2 h2 where P: "produce_partition_step sample_prom ''t'' sample_part sample_handler = (Inr r1, h1)"
    "produce_partition_step sample_prom ''t'' sample_part h1 = (Inr r2, h2)" and S: "serves 1024 0 h2
      \<lparr>ab_parts = [''t-0'' \<mapsto> ([], [sample_batch, sample_batch])], ab_offsets = Map.empty, ab_gone = {}\<rparr>"
    by (rule sample_two_produced)
  have k: "fetch_key ''t'' ?f = ''t-0''" by (simp add: fetch_key_def) code_simp
  have A: "fetch_allowed sample_prom ''t'' ?f" using sample_tp(1) by (simp add: fetch_allowed_def sample_prom_accepts)
  have R: "ab_parts \<lparr>ab_parts = [''t-0'' \<mapsto> ([], [sample_batch, sample_batch])], ab_offsets = Map.empty, ab_gone = {}\<rparr> (fetch_key ''t'' ?f) =
      Some ([], [] @ [sample_batch, sample_batch])" by (simp add: k)
  have W: "whole_batch sample_batch" "Uint32_at sample_batch 4 = 0" "sample_batch ! 12 \<noteq> 2"
    by (simp_all add: whole_batch_def sample_batch_fields) (simp_all add: sample_batch_def Uint32_at_def subslice_def)
  have c: "sint (fetch_cap 1000 ?f) = 1000" by (simp add: fetch_cap_def)
  show ?thesis
    using second_batch_unreadable [OF S A R _ W(1), of 1000] W(2,3) P
    unfolding c by (simp add: sample_batch_fields) blast
qed

end
