(* ===== verification/Handler_Offsets.thy ===== *)
theory Handler_Offsets
  imports Handler_Fetch
begin

text \<open>
  Committed offsets: a commit appends a record to the topic \<open>__consumer_offsets\<close> and
  updates the cache, and at start-up the cache is filled by replaying that topic.
  \<open>durable B\<close> says that replaying the log gives exactly the cache, so that nothing is lost
  by a restart.
\<close>

section \<open>Specification\<close>

definition offsets_key :: string where
  "offsets_key = partitionKey ConsumerOffsetsTopic 0"

definition commit_key :: "string \<Rightarrow> string \<Rightarrow> offset_commit_partition \<Rightarrow> offsetCacheKey" where
  "commit_key groupID topic part = \<lparr>ock_GroupID = groupID, ock_Topic = topic, ock_Partition = ocp_Partition part\<rparr>"

definition commit_record :: "string \<Rightarrow> string \<Rightarrow> offset_commit_partition \<Rightarrow> bytes" where
  "commit_record groupID topic part =
     encodeOffsetRecord (encodeOffsetKey groupID topic (ocp_Partition part)) (be_put 8 (ocp_CommittedOffset part))"

definition spec_commit ::
    "int \<Rightarrow> string \<Rightarrow> string \<Rightarrow> offset_commit_partition \<Rightarrow> abs_broker \<Rightarrow> (int32 \<times> int16) \<times> abs_broker" where
  "spec_commit mx groupID topic part B =
     (case spec_append mx offsets_key (commit_record groupID topic part) (spec_create offsets_key B) of
        (off, B1) \<Rightarrow>
          ((ocp_Partition part, 0),
           B1\<lparr>ab_offsets := (ab_offsets B1)(commit_key groupID topic part \<mapsto> ocp_CommittedOffset part)\<rparr>))"

definition spec_commit_topic ::
    "int \<Rightarrow> string \<Rightarrow> offset_commit_topic \<Rightarrow> abs_broker \<Rightarrow> offset_commit_topic_response \<times> abs_broker" where
  "spec_commit_topic mx groupID topic B =
     (case spec_each (spec_commit mx groupID (oct_TopicName topic)) (oct_Partitions topic) B of
        (ps, B1) \<Rightarrow> (\<lparr>octr_TopicName = oct_TopicName topic, octr_Partitions = ps\<rparr>, B1))"

text \<open>The cache that a log of offset records stands for; later records win.\<close>

definition replay :: "bytes list \<Rightarrow> (offsetCacheKey \<rightharpoonup> int64) \<Rightarrow> offsetCacheKey \<rightharpoonup> int64" where
  "replay recs cache =
     fold (\<lambda>r c. case decodeOffsetRecord r of Inl e \<Rightarrow> c | Inr ko \<Rightarrow> c(fst ko \<mapsto> snd ko)) recs cache"

definition durable :: "abs_broker \<Rightarrow> bool" where
  "durable B \<longleftrightarrow>
     (case ab_parts B offsets_key of
        None \<Rightarrow> ab_offsets B = Map.empty
      | Some (cs, cur) \<Rightarrow> cs = [] \<and> ab_offsets B = replay cur Map.empty)"

definition names_ok :: "string \<Rightarrow> string \<Rightarrow> bool" where
  "names_ok groupID topic \<longleftrightarrow> length groupID < 2 ^ 15 \<and> length topic < 2 ^ 15"

definition commit_cost :: "string \<Rightarrow> string \<Rightarrow> offset_commit_partition \<Rightarrow> int" where
  "commit_cost groupID topic part = 4 + int (length (commit_record groupID topic part))"

text \<open>
  The state in which a commit is known to be durable: the broker is durable and the active
  segment of the offsets topic has room for \<open>n\<close> more bytes.
\<close>

definition serves_offsets :: "int \<Rightarrow> int \<Rightarrow> ('c, 'h) handler \<Rightarrow> abs_broker \<Rightarrow> bool" where
  "serves_offsets mx n h B \<longleftrightarrow>
     serves mx n h B \<and> durable B \<and>
     int (length (log_bytes (case ab_parts B offsets_key of None \<Rightarrow> [] | Some p \<Rightarrow> snd p))) + n \<le> mx"

section \<open>Committing\<close>

lemma offsets_tp: "valid_tp ConsumerOffsetsTopic (sint (0 :: int32))"
  by code_simp

lemma length_commit_record: "length (commit_record groupID topic part) = 24 + length groupID + length topic"
  by (simp add: commit_record_def encodeOffsetRecord_def encodeOffsetKey_def)

lemma decode_commit_record:
  "names_ok groupID topic \<Longrightarrow>
   decodeOffsetRecord (commit_record groupID topic part) = Inr (commit_key groupID topic part, ocp_CommittedOffset part)"
  by (simp add: commit_record_def commit_key_def names_ok_def decodeOffsetRecord_encode)

lemma replay_snoc:
  "replay (recs @ [r]) cache =
     (case decodeOffsetRecord r of Inl e \<Rightarrow> replay recs cache | Inr ko \<Rightarrow> (replay recs cache)(fst ko \<mapsto> snd ko))"
  by (simp add: replay_def split: sum.split)

lemma commit_step_ok:
  assumes N: "names_ok groupID topic" and n: "0 \<le> n" and S: "serves_offsets mx (commit_cost groupID topic part + n) h B"
  shows "\<exists>h'. commit_partition_step groupID topic part h = (Inr (fst (spec_commit mx groupID topic part B)), h') \<and>
    serves_offsets mx n h' (snd (spec_commit mx groupID topic part B))"
proof -
  let ?r = "commit_record groupID topic part" and ?B = "spec_create offsets_key B"
  have S1: "serves mx (commit_cost groupID topic part + n) h B" and D: "durable B"
    and room: "int (length (log_bytes (case ab_parts B offsets_key of None \<Rightarrow> [] | Some p \<Rightarrow> snd p))) +
      (commit_cost groupID topic part + n) \<le> mx"
    using S by (simp_all add: serves_offsets_def)
  obtain h1 where G: "get_partition ConsumerOffsetsTopic 0 h = (Inr offsets_key, h1)"
    "serves mx (commit_cost groupID topic part + n) h1 ?B"
    using get_partition_ok [OF S1 offsets_tp] unfolding offsets_key_def by auto
  obtain cur where K: "ab_parts ?B offsets_key = Some ([], cur)" "ab_offsets B = replay cur Map.empty"
    "cur = (case ab_parts B offsets_key of None \<Rightarrow> [] | Some p \<Rightarrow> snd p)"
    using D by (auto simp: durable_def spec_create_def created_def replay_def split: option.splits)
  have fits: "int (length (log_bytes cur)) + 4 + int (length ?r) \<le> mx"
    using room n K(3) by (simp add: commit_cost_def)
  then have L: "log_append mx ?r [] cur = (int (length (log_bytes cur)), [], cur @ [?r])" by (simp add: log_append_def)
  let ?B1 = "?B\<lparr>ab_parts := (ab_parts ?B)(offsets_key \<mapsto> ([], cur @ [?r]))\<rparr>"
  have A: "spec_append mx offsets_key ?r ?B = (int (length (log_bytes cur)), ?B1)"
    using K(1) L by (simp add: spec_append_def)
  have len: "length ?r < 2 ^ 32" "4 + int (length ?r) \<le> mx"
    using N fits by (simp_all add: length_commit_record names_ok_def)
  obtain h2 where T: "append_to offsets_key ?r h1 = (Inr (int (length (log_bytes cur))), h2)" "serves mx n h2 ?B1"
    using append_to_ok [OF G(2) [unfolded commit_cost_def] n spec_create_parts(1) len A] by metis
  let ?h = "h2\<lparr>hn_offsetCache := (hn_offsetCache h2)(commit_key groupID topic part \<mapsto> ocp_CommittedOffset part)\<rparr>"
  let ?B2 = "?B1\<lparr>ab_offsets := (ab_offsets ?B1)(commit_key groupID topic part \<mapsto> ocp_CommittedOffset part)\<rparr>"
  have spec: "spec_commit mx groupID topic part B = ((ocp_Partition part, 0), ?B2)" by (simp add: spec_commit_def A)
  have step: "commit_partition_step groupID topic part h = (Inr (ocp_Partition part, 0), ?h)"
    using G(1) T(1) by (simp add: commit_partition_step_def commit_record_def commit_key_def)
  have "serves mx n ?h ?B2" using T(2) by (auto simp: serves_def)
  moreover have "durable ?B2"
    using K(2) by (simp add: durable_def replay_snoc decode_commit_record [OF N])
  moreover have "int (length (log_bytes (cur @ [?r]))) + n \<le> mx"
    using room n K(3) by (simp add: commit_cost_def)
  ultimately show ?thesis unfolding spec step by (simp add: serves_offsets_def)
qed

interpretation commit_part: step_refines "commit_partition_step groupID topic" "spec_commit mx groupID topic"
    "\<lambda>_. names_ok groupID topic" "commit_cost groupID topic" "serves_offsets mx" for groupID topic mx
  by unfold_locales (simp_all add: commit_step_ok commit_cost_def)

definition commit_topic_cost :: "string \<Rightarrow> offset_commit_topic \<Rightarrow> int" where
  "commit_topic_cost groupID topic = sum_list (map (commit_cost groupID (oct_TopicName topic)) (oct_Partitions topic))"

interpretation commit_topic: step_refines "commit_topic_step groupID" "spec_commit_topic mx groupID"
    "\<lambda>t. names_ok groupID (oct_TopicName t)" "commit_topic_cost groupID" "serves_offsets mx" for groupID mx
proof
  fix x :: offset_commit_topic
  show "0 \<le> commit_topic_cost groupID x"
    unfolding commit_topic_cost_def by (rule sum_list_nonneg) (auto simp: commit_cost_def)
next
  fix x and n :: int and s :: "('a, 'b) handler" and a
  assume "names_ok groupID (oct_TopicName x)" "0 \<le> n" "serves_offsets mx (commit_topic_cost groupID x + n) s a"
  then obtain s' where "each_of (commit_partition_step groupID (oct_TopicName x)) (oct_Partitions x) s =
      (Inr (fst (spec_each (spec_commit mx groupID (oct_TopicName x)) (oct_Partitions x) a)), s')"
    "serves_offsets mx n s' (snd (spec_each (spec_commit mx groupID (oct_TopicName x)) (oct_Partitions x) a))"
    using commit_part.each_refines [of groupID "oct_TopicName x" "oct_Partitions x" n mx s a]
    unfolding commit_topic_cost_def by (auto simp: list_all_iff)
  then show "\<exists>s'. commit_topic_step groupID x s = (Inr (fst (spec_commit_topic mx groupID x a)), s') \<and>
      serves_offsets mx n s' (snd (spec_commit_topic mx groupID x a))"
    by (simp add: commit_topic_step_def spec_commit_topic_def case_prod_beta)
qed

text \<open>
  C6: (Commit) An offset commit request is carried out as specified: every offset of the
  request is in the log of the offsets topic and in the cache before the response is
  written, the log still replays to the cache, and no partition is reported as failed.
\<close>

theorem handleOffsetCommit_refines:
  assumes parse: "on_conn (ParseOffsetCommitRequest header) c = (Inr req, c1)" and n: "0 \<le> n"
    and names: "list_all (\<lambda>t. names_ok (ocr_GroupID req) (oct_TopicName t)) (ocr_Topics req)"
    and S: "serves_offsets mx (sum_list (map (commit_topic_cost (ocr_GroupID req)) (ocr_Topics req)) + n) h B"
    and spec: "spec_each (spec_commit_topic mx (ocr_GroupID req)) (ocr_Topics req) B = (topics, B')"
  shows "\<exists>h'. serves_offsets mx n h' B' \<and> handleOffsetCommit header c h =
      reply ''handleOffsetCommit: write response: %w'' (EncodeOffsetCommitResponse (rh_CorrelationID header) topics) c1 h' \<and>
    list_all (\<lambda>t. list_all (\<lambda>p. snd p = 0) (octr_Partitions t)) topics"
proof -
  obtain h' where E: "each_of (commit_topic_step (ocr_GroupID req)) (ocr_Topics req) h = (Inr topics, h')" "serves_offsets mx n h' B'"
    using commit_topic.each_refines [OF names n S] unfolding spec by auto
  have p: "snd (fst (spec_commit mx g t part b)) = 0" for g t part b
    by (simp add: spec_commit_def case_prod_beta)
  have "list_all (\<lambda>p. snd p = 0) (octr_Partitions (fst (spec_commit_topic mx g t b)))" for g t b
    unfolding spec_commit_topic_def case_prod_beta fst_conv offset_commit_topic_response.simps
    by (rule spec_each_all) (rule p)
  then have "list_all (\<lambda>t. list_all (\<lambda>p. snd p = 0) (octr_Partitions t)) topics"
    using spec_each_all [of "ocr_Topics req" _ "spec_commit_topic mx (ocr_GroupID req)" B] spec by force
  then show ?thesis
    using parse E by (intro exI [of _ h']) (simp add: handleOffsetCommit_def parse_then_def)
qed

definition sample_commit_part :: offset_commit_partition where
  "sample_commit_part = \<lparr>ocp_CommittedOffset = 42, ocp_CommittedMetadata = ''m'', ocp_Partition = 0\<rparr>"

definition sample_cache_key :: offsetCacheKey where
  "sample_cache_key = \<lparr>ock_GroupID = ''g'', ock_Topic = ''t'', ock_Partition = 0\<rparr>"

definition committed_broker :: abs_broker where
  "committed_broker = \<lparr>ab_parts = [offsets_key \<mapsto> ([], [commit_record ''g'' ''t'' sample_commit_part])],
     ab_offsets = [sample_cache_key \<mapsto> 42], ab_gone = {}\<rparr>"

lemma sample_commit_spec:
  "spec_commit 1024 ''g'' ''t'' sample_commit_part empty_broker = ((0, 0), committed_broker)"
  "names_ok ''g'' ''t''" "commit_cost ''g'' ''t'' sample_commit_part = 30"
  "serves_offsets 1024 30 sample_handler empty_broker"
proof -
  show "names_ok ''g'' ''t''" by (simp add: names_ok_def)
  show c: "commit_cost ''g'' ''t'' sample_commit_part = 30" by (simp add: commit_cost_def length_commit_record)
  show "spec_commit 1024 ''g'' ''t'' sample_commit_part empty_broker = ((0, 0), committed_broker)"
    by (simp add: spec_commit_def spec_append_def spec_create_def created_def empty_broker_def log_append_def
        length_commit_record committed_broker_def commit_key_def sample_cache_key_def sample_commit_part_def)
  show "serves_offsets 1024 30 sample_handler empty_broker"
    using sample_serves [of 30] by (simp add: serves_offsets_def durable_def empty_broker_def)
qed

theorem handleOffsetCommit_refines_witness:
  "\<exists>c' h'. handleOffsetCommit sample_header (sample_conn (offset_commit_wire sample_commit)) sample_handler = (Inr (), c', h') \<and>
     hn_offsetCache h' sample_cache_key = Some 42"
proof -
  have parse: "on_conn (ParseOffsetCommitRequest sample_header) (sample_conn (offset_commit_wire sample_commit)) =
      (Inr sample_commit, sample_conn [])"
    by (rule on_conn_sample, rule offset_commit_codec.dec_enc)
      (simp add: sample_commit_def offset_commit_ok_def offset_commit_topic_ok_def)
  have names: "list_all (\<lambda>t. names_ok (ocr_GroupID sample_commit) (oct_TopicName t)) (ocr_Topics sample_commit)"
    by (simp add: sample_commit_def names_ok_def)
  have S: "serves_offsets 1024 (sum_list (map (commit_topic_cost (ocr_GroupID sample_commit)) (ocr_Topics sample_commit)) + 0)
      sample_handler empty_broker"
    using sample_commit_spec(3,4) by (simp add: sample_commit_def commit_topic_cost_def sample_commit_part_def)
  have "spec_each (spec_commit_topic 1024 (ocr_GroupID sample_commit)) (ocr_Topics sample_commit) empty_broker =
      ([\<lparr>octr_TopicName = ''t'', octr_Partitions = [(0, 0)]\<rparr>], committed_broker)"
    using sample_commit_spec(1) by (simp add: sample_commit_def spec_commit_topic_def sample_commit_part_def)
  from handleOffsetCommit_refines [OF parse order_refl names S this] obtain h' where
    H: "serves_offsets 1024 0 h' committed_broker"
      "handleOffsetCommit sample_header (sample_conn (offset_commit_wire sample_commit)) sample_handler =
       reply ''handleOffsetCommit: write response: %w'' (EncodeOffsetCommitResponse (rh_CorrelationID sample_header)
         [\<lparr>octr_TopicName = ''t'', octr_Partitions = [(0, 0)]\<rparr>]) (sample_conn []) h'" by blast
  have "hn_offsetCache h' sample_cache_key = Some 42"
    using servesD(2) [of 1024 0 h' committed_broker] H(1) by (simp add: serves_offsets_def committed_broker_def)
  with H(2) show ?thesis by (simp add: reply_def finish_def conn_Write_def sample_conn_def)
qed

section \<open>Loading\<close>

lemma ReadFull_rec:
  assumes "length p < 2 ^ 32"
  shows "ReadFull 4 \<lparr>rd_data = rec_bytes p @ rest, rd_err = e\<rparr> =
      (Inr (be_put 4 (word_of_nat (length p) :: 32 word)), \<lparr>rd_data = p @ rest, rd_err = e\<rparr>)"
    "unat (be_get (be_put 4 (word_of_nat (length p) :: 32 word)) :: 32 word) = length p"
    "ReadFull (length p) \<lparr>rd_data = p @ rest, rd_err = e\<rparr> = (Inr p, \<lparr>rd_data = rest, rd_err = e\<rparr>)"
  using assms by (simp_all add: ReadFull_def rec_bytes_def be_get_be_put unat_of_nat)

lemma load_offsets_log:
  "list_all (\<lambda>p. length p < 2 ^ 32) recs \<Longrightarrow>
   load_offsets \<lparr>rd_data = log_bytes recs, rd_err = io_EOF\<rparr> cache = (None, replay recs cache)"
proof (induction recs arbitrary: cache)
  case Nil
  then show ?case by (subst load_offsets.simps) (simp add: ReadFull_def replay_def)
next
  case (Cons p recs)
  then have p: "length p < 2 ^ 32" and IH: "load_offsets \<lparr>rd_data = log_bytes recs, rd_err = io_EOF\<rparr> c = (None, replay recs c)" for c
    by simp_all
  have "load_offsets \<lparr>rd_data = rec_bytes p @ log_bytes recs, rd_err = io_EOF\<rparr> cache =
      (case decodeOffsetRecord p of
         Inl e \<Rightarrow> load_offsets \<lparr>rd_data = log_bytes recs, rd_err = io_EOF\<rparr> cache
       | Inr ko \<Rightarrow> load_offsets \<lparr>rd_data = log_bytes recs, rd_err = io_EOF\<rparr> (cache(fst ko \<mapsto> snd ko)))"
    by (subst load_offsets.simps) (simp add: ReadFull_rec [OF p])
  then show ?case by (simp add: IH replay_def split: sum.split)
qed

lemma LoadOffsetsCache_ok:
  assumes S: "serves mx n h B" and K: "ab_parts (spec_create offsets_key B) offsets_key = Some (cs, cur)"
    and small: "length (log_bytes cur) < 2 ^ 31"
  shows "\<exists>h'. LoadOffsetsCache h = (None, h') \<and>
    serves mx n h' ((spec_create offsets_key B)\<lparr>ab_offsets := replay cur (ab_offsets B)\<rparr>)"
proof -
  let ?B = "spec_create offsets_key B"
  obtain h1 where G: "get_partition ConsumerOffsetsTopic 0 h = (Inr offsets_key, h1)" "serves mx n h1 ?B"
    using get_partition_ok [OF S offsets_tp] unfolding offsets_key_def by auto
  have R: "spec_records offsets_key ?B = cur" using K by (simp add: spec_records_def)
  note Z = size_of_ok(2) [OF G(2) spec_create_parts(1), unfolded R]
  have lens: "list_all (\<lambda>p. length p < 2 ^ 32) cur"
  proof -
    obtain X ps where "ps_inv X ps (hn_disk h1) cs cur" using bs_inv_store [OF servesD(1) [OF G(2)] K] by metis
    then show ?thesis using ps_invD(1) by (auto simp: seg_inv_def)
  qed
  show ?thesis
  proof (cases "cur = []")
    case True
    have same: "?B\<lparr>ab_offsets := replay cur (ab_offsets B)\<rparr> = ?B"
      using True by (cases B) (simp add: spec_create_def replay_def)
    show ?thesis using G Z True unfolding same by (intro exI [of _ h1]) (simp add: LoadOffsetsCache_def)
  next
    case False
    then have pos: "0 < length (log_bytes cur)" by (cases cur) simp_all
    have i: "i32 (int (length (log_bytes cur))) = int (length (log_bytes cur))" using small by (intro i32_id) simp_all
    obtain h2 where W: "read_window offsets_key 0 (int (length (log_bytes cur))) h1 =
        (Inr (\<lparr>rd_data = log_bytes cur, rd_err = io_EOF\<rparr>, int (length (log_bytes cur))), h2)" "serves mx n h2 ?B"
      using read_window_ok [OF G(2) spec_create_parts(1), of 0 "int (length (log_bytes cur))"] pos small unfolding R by auto
    let ?h = "h2\<lparr>hn_offsetCache := replay cur (ab_offsets B)\<rparr>"
    have "LoadOffsetsCache h = (None, ?h)"
      using G(1) Z W(1) pos small load_offsets_log [OF lens] servesD(2) [OF W(2)]
      by (simp add: LoadOffsetsCache_def Let_def i)
    moreover have "serves mx n ?h (?B\<lparr>ab_offsets := replay cur (ab_offsets B)\<rparr>)"
      using W(2) by (auto simp: serves_def)
    ultimately show ?thesis by blast
  qed
qed

text \<open>
  When the store is closed, opened again and a new handler loads its cache, the cache is the one
  before, provided that no partition has rolled over and the offsets log is below two gigabytes.
\<close>

lemma offsets_reloaded:
  assumes S: "serves mx n h B" and D: "durable B" and one: "\<forall>k \<in> dom (ab_parts B). fst (the (ab_parts B k)) = []"
    and small: "length (log_bytes (case ab_parts B offsets_key of None \<Rightarrow> [] | Some p \<Rightarrow> snd p)) < 2 ^ 31"
  shows "\<exists>bs1 d1 bs2 d2 h'. broker_Close (hn_store h) (hn_disk h) = (None, bs1, d1) \<and>
    root_exists (bs_rootDir (hn_store h)) d1 \<and>
    OpenBrokerStore (bs_rootDir (hn_store h)) (bs_cfg (hn_store h)) d1 = (Inr bs2, d2) \<and>
    LoadOffsetsCache (NewHandler bs2 m d2) = (None, h') \<and>
    hn_offsetCache h' = hn_offsetCache h \<and> serves mx n h' (spec_create offsets_key B)"
proof -
  note SD = servesD [OF S]
  obtain bs1 d1 where C: "broker_Close (hn_store h) (hn_disk h) = (None, bs1, d1)"
    "all_closed (bs_rootDir (hn_store h)) d1 (ab_parts B)"
    "only_files (partitions_files (bs_rootDir (hn_store h)) (ab_parts B)) (hn_disk h) d1"
    using broker_Close_ok [OF SD(1)] one by metis
  obtain bs2 d2 where O: "OpenBrokerStore (bs_rootDir (hn_store h)) (bs_cfg (hn_store h)) d1 = (Inr bs2, d2)"
    "bs_inv (ab_gone B) bs2 d2 (ab_parts B)" "bs_cfg bs2 = bs_cfg (hn_store h)"
    using OpenBrokerStore_ok [OF SD(1) _ C(3,2)] one by metis
  let ?B0 = "B\<lparr>ab_offsets := Map.empty\<rparr>"
  have S0: "serves mx n (NewHandler bs2 m d2) ?B0" using S O(2,3) by (auto simp: serves_def NewHandler_def)
  obtain cur where K: "ab_parts (spec_create offsets_key ?B0) offsets_key = Some ([], cur)"
    "ab_offsets B = replay cur Map.empty" "cur = (case ab_parts B offsets_key of None \<Rightarrow> [] | Some p \<Rightarrow> snd p)"
    using D by (auto simp: durable_def spec_create_def created_def replay_def split: option.splits)
  obtain h' where L: "LoadOffsetsCache (NewHandler bs2 m d2) = (None, h')"
    "serves mx n h' ((spec_create offsets_key ?B0)\<lparr>ab_offsets := replay cur Map.empty\<rparr>)"
    using LoadOffsetsCache_ok [OF S0 K(1)] small K(3) by auto
  have "(spec_create offsets_key ?B0)\<lparr>ab_offsets := replay cur Map.empty\<rparr> = spec_create offsets_key B"
    using K(2) by (cases B) (simp add: spec_create_def)
  moreover have "root_exists (bs_rootDir (hn_store h)) d1"
    using bs_invD(1) [OF SD(1)] C(3) by (simp add: root_exists_def only_files_def)
  ultimately show ?thesis
    using L C(1) O(1) SD(2) servesD(2) [OF L(2)] K(2) by (intro exI conjI) simp_all
qed

end
