(* ===== verification/Handler_Loop.thy ===== *)
theory Handler_Loop
  imports Handler_Consume Handler_Offsets
begin

text \<open>
  The dispatcher and the connection loop, for arbitrary requests and an arbitrary state of
  the broker: a request that is handled gets one response frame, with its correlation id, and
  the loop ends on every finite stream of requests.
\<close>

section \<open>The input shrinks\<close>

abbreviation input_left :: "conn \<Rightarrow> nat" where
  "input_left c \<equiv> length (rd_data (cn_in c))"

lemma on_conn_left:
  assumes "stream_local m" and "on_conn m c = (Inr x, c')"
  shows "input_left c' \<le> input_left c" "cn_out c' = cn_out c" "cn_cap c' = cn_cap c"
proof -
  obtain rd where m: "m (cn_in c) = (Inr x, rd)" "c' = c\<lparr>cn_in := rd\<rparr>"
    using assms(2) by (auto simp: on_conn_def split: prod.splits)
  obtain s where "cn_in c = feed s rd" using stream_localD [OF assms(1) m(1)] by blast
  then show "input_left c' \<le> input_left c" using m(2) by (simp add: feed_def)
  show "cn_out c' = cn_out c" "cn_cap c' = cn_cap c" using m(2) by simp_all
qed

lemma header_left:
  assumes "on_conn ParseRequestHeader c = (Inr header, c')"
  shows "input_left c' < input_left c"
proof (rule ccontr)
  assume "\<not> input_left c' < input_left c"
  obtain rd where m: "ParseRequestHeader (cn_in c) = (Inr header, rd)" "c' = c\<lparr>cn_in := rd\<rparr>"
    using assms by (auto simp: on_conn_def split: prod.splits)
  obtain s where s: "cn_in c = feed s rd" "consumes ParseRequestHeader header s"
    using stream_localD [OF stream_local_requests(1) m(1)] by blast
  then have "s = []" using \<open>\<not> input_left c' < input_left c\<close> m(2) by (simp add: feed_def)
  then have "ParseRequestHeader \<lparr>rd_data = [], rd_err = io_EOF\<rparr> = (Inr header, \<lparr>rd_data = [], rd_err = io_EOF\<rparr>)"
    using consumes_complete [OF s(2), of "\<lparr>rd_data = [], rd_err = io_EOF\<rparr>" "[]"] by simp
  then show False
    by (simp add: ParseRequestHeader_def ReadInt32_def dread_def ReadFull_def dec_defs)
qed

section \<open>One response per request\<close>

text \<open>What a successful handler has done to the connection.\<close>

definition answered :: "int32 \<Rightarrow> conn \<Rightarrow> conn \<Rightarrow> bool" where
  "answered cid c c' \<longleftrightarrow>
     input_left c' \<le> input_left c \<and>
     (\<exists>body. cn_out c' = cn_out c @ FullMessage \<lparr>buffer = be_put 4 cid @ body\<rparr>)"

definition silent :: "conn \<Rightarrow> conn \<Rightarrow> bool" where
  "silent c c' \<longleftrightarrow> input_left c' \<le> input_left c \<and> cn_out c' = cn_out c"

lemma parse_then_ok:
  assumes "stream_local m" and "parse_then msg m f c h = (Inr (), c', h')"
  obtains req c1 where "f req c1 h = (Inr (), c', h')" "silent c c1"
proof -
  obtain req c1 where P: "on_conn m c = (Inr req, c1)" "f req c1 h = (Inr (), c', h')"
    using assms(2) by (auto simp: parse_then_def split: prod.splits sum.splits fault.splits)
  from P(2) show thesis
    by (rule that) (simp add: silent_def on_conn_left [OF assms(1) P(1)])
qed

lemma finish_ok:
  assumes "finish msg (conn_Write p) c h = (Inr (), c', h')"
  shows "cn_out c' = cn_out c @ p" "input_left c' = input_left c" "h' = h"
proof -
  have W: "conn_Write p c = (None, c')" "h' = h"
    using assms by (auto simp: finish_def split: prod.splits option.splits)
  show "cn_out c' = cn_out c @ p" by (rule conn_Write_ok [OF W(1)])
  show "input_left c' = input_left c" using conn_Write_in [of p c] W(1) by simp
  show "h' = h" by (rule W(2))
qed

lemma reply_answers:
  assumes "reply msg f c1 h1 = (Inr (), c', h')" and "\<exists>body. buffer (f NewEncoder) = be_put 4 cid @ body" and "silent c c1"
  shows "answered cid c c'"
  using finish_ok [OF assms(1) [unfolded reply_def]] assms(2,3)
  by (auto simp: answered_def silent_def FullMessage_def)

text \<open>An encoder method only appends to its buffer.\<close>

definition appends :: "(encoder \<Rightarrow> encoder) \<Rightarrow> bool" where
  "appends f \<longleftrightarrow> (\<forall>e. \<exists>w. buffer (f e) = buffer e @ w)"

lemma appends_prims:
  "appends (WriteInt8 v8)" "appends (WriteInt16 v16)" "appends (WriteInt32 v32)" "appends (WriteInt64 v64)"
  "appends (WriteBytes b)" "appends (WriteString s)" "appends (WriteNullableString ns)"
  by (simp_all add: appends_def wire_simps)

lemma appends_seq:
  assumes "list_all appends fs"
  shows "appends (enc_seq fs)"
  unfolding appends_def
proof
  fix e
  show "\<exists>w. buffer (enc_seq fs e) = buffer e @ w"
    using assms
  proof (induction fs arbitrary: e)
    case (Cons f fs)
    obtain w where "buffer (f e) = buffer e @ w" using Cons.prems by (auto simp: appends_def)
    moreover obtain w' where "buffer (enc_seq fs (f e)) = buffer (f e) @ w'" using Cons by auto
    ultimately show ?case by (simp add: wire_simps)
  qed (simp add: wire_simps)
qed

lemma appends_each:
  assumes "\<And>x. appends (f x)"
  shows "appends (enc_each f xs)"
proof -
  have "enc_each f xs = enc_seq (map f xs)" by (rule ext) (simp add: enc_each_def enc_seq_def fold_map comp_def)
  then show ?thesis using appends_seq assms by (simp add: list_all_iff)
qed

lemma appends_from: "list_all appends fs \<Longrightarrow> appends (enc_from n v fs)"
  unfolding enc_from_def by (rule appends_seq) simp

lemma appends_case: "(\<And>a b. appends (f a b)) \<Longrightarrow> appends (case p of (a, b) \<Rightarrow> f a b)"
  by (cases p) simp

lemmas appends_intros = appends_prims appends_seq appends_each appends_from appends_case
  list.pred_inject(1) list.pred_inject(2) [THEN iffD2] conjI TrueI

lemma starts_with:
  assumes "list_all appends fs"
  shows "\<exists>body. buffer (enc_seq (WriteInt32 cid # fs) NewEncoder) = be_put 4 cid @ body"
proof -
  obtain w where "buffer (enc_seq fs (WriteInt32 cid NewEncoder)) = buffer (WriteInt32 cid NewEncoder) @ w"
    using appends_seq [OF assms] by (auto simp: appends_def)
  then show ?thesis by (simp add: wire_simps)
qed

lemma encoders_start:
  "\<exists>body. buffer (EncodeApiVersionsResponse cid NewEncoder) = be_put 4 cid @ body"
  "\<exists>body. buffer (EncodeProduceResponse cid pts NewEncoder) = be_put 4 cid @ body"
  "\<exists>body. buffer (EncodeListOffsetsResponse cid lts NewEncoder) = be_put 4 cid @ body"
  "\<exists>body. buffer (EncodeMetadataResponse cid v mresp NewEncoder) = be_put 4 cid @ body"
  "\<exists>body. buffer (EncodeOffsetCommitResponse cid cts NewEncoder) = be_put 4 cid @ body"
  "\<exists>body. buffer (EncodeOffsetFetchResponse cid fts NewEncoder) = be_put 4 cid @ body"
  "\<exists>body. buffer (EncodeFindCoordinatorResponse cid node host port NewEncoder) = be_put 4 cid @ body"
  "\<exists>body. buffer (EncodeJoinGroupResponse cid gen proto leader member members NewEncoder) = be_put 4 cid @ body"
  "\<exists>body. buffer (EncodeHeartbeatResponse cid NewEncoder) = be_put 4 cid @ body"
  "\<exists>body. buffer (EncodeLeaveGroupResponse cid NewEncoder) = be_put 4 cid @ body"
  "\<exists>body. buffer (EncodeSyncGroupResponse cid assignment NewEncoder) = be_put 4 cid @ body"
  unfolding EncodeApiVersionsResponse_def EncodeProduceResponse_def EncodeListOffsetsResponse_def
      EncodeMetadataResponse_def EncodeOffsetCommitResponse_def EncodeOffsetFetchResponse_def
      EncodeFindCoordinatorResponse_def EncodeJoinGroupResponse_def EncodeHeartbeatResponse_def
      EncodeLeaveGroupResponse_def EncodeSyncGroupResponse_def encode_produce_topic_def encode_produce_partition_def
      encode_topic_metadata_def encode_partition_metadata_def encode_broker_def
  by (rule starts_with; intro appends_intros)+

text \<open>Every answer collected by a loop has what each round establishes.\<close>

lemma each_of_all:
  assumes "\<And>x s y s'. f x s = (Inr y, s') \<Longrightarrow> P y" and "each_of f xs s = (Inr ys, s')"
  shows "list_all P ys"
  using assms(2)
proof (induction xs arbitrary: s ys s')
  case (Cons x xs)
  then obtain y s1 ys' where "f x s = (Inr y, s1)" "each_of f xs s1 = (Inr ys', s')" "ys = y # ys'"
    by (auto split: prod.splits sum.splits)
  then show ?case using assms(1) Cons.IH by auto
qed simp

text \<open>The batch sizes \<open>handleFetch\<close> announces are those of the batches it hands over.\<close>

definition size_announced :: "fetch_partition_response \<Rightarrow> bool" where
  "size_announced p \<longleftrightarrow>
     (0 < sint (fpr_BatchSize p) \<longrightarrow>
        (\<exists>b. fpr_RecordBatch p = Some b \<and> int (length b) = sint (fpr_BatchSize p)))"

lemma read_window_bound:
  assumes "read_window key off n h = (Inr (r, k), h')" and "n < 2 ^ 31"
  shows "k < 2 ^ 31"
  using assms i32_range(2) by (auto simp: read_window_def broker_Read_def partition_Read_def Let_def
      split: prod.splits option.splits sum.splits if_splits)

lemma serve_window_announced:
  assumes "serve_window pr topic part key cap resp remaining h = (Inr p, st)" and "fpr_BatchSize resp = - 1"
  shows "size_announced p"
proof -
  have bound: "sint (cap + 4) < 2 ^ 31" by (rule order_less_le_trans [OF sint_lt]) simp
  have small: "sint (word_of_int (k - 4) :: int32) = k - 4" if "\<not> k < 0" "k < 2 ^ 31" "\<not> nat k < 4" for k
    unfolding sint_sbintrunc' by (rule signed_take_bit_int_eq_self) (use that in simp_all)
  show ?thesis
    using assms
    by (auto simp: serve_window_def Let_def size_announced_def ReadFull_def small [simplified] length_patch_batches
        dest!: read_window_bound [OF _ bound]
        split: prod.splits sum.splits if_splits)
qed

lemma fetch_partition_step_announced:
  assumes "fetch_partition_step pr topic part st = (Inr p, st')"
  shows "size_announced p"
proof -
  have quiet: "size_announced q" if "fpr_BatchSize q = - 1" for q
    using that by (simp add: size_announced_def)
  show ?thesis
    using assms
    by (auto simp: fetch_partition_step_def Let_def intro: quiet dest: serve_window_announced
        split: prod.splits sum.splits if_splits)
qed

lemma fetch_topic_step_announced:
  assumes "fetch_topic_step pr topic st = (Inr t, st')"
  shows "list_all size_announced (ftr_Partitions t)"
proof -
  have "each_of (fetch_partition_step pr (ft_TopicName topic)) (ft_Partitions topic) st = (Inr (ftr_Partitions t), st')"
    using assms by (auto simp: fetch_topic_step_def split: prod.splits sum.splits)
  then show ?thesis
    by (rule each_of_all [rotated]) (rule fetch_partition_step_announced)
qed

lemma fetch_batch_sizes:
  assumes "each_of (fetch_topic_step pr) ts st = (Inr topics, st')"
  shows "batch_sizes_ok \<lparr>fs_Topics = topics, fs_ThrottleTimeMs = thr\<rparr>"
proof -
  have "list_all (\<lambda>t. list_all size_announced (ftr_Partitions t)) topics"
    by (rule each_of_all [OF _ assms]) (rule fetch_topic_step_announced)
  then show ?thesis by (simp add: batch_sizes_ok_def size_announced_def list_all_iff)
qed

text \<open>The part of \<open>handleFetch\<close> behind the parser.\<close>

lemma fetch_answers:
  assumes E: "each_of (fetch_topic_step pr) ts st = (Inr topics, rem, h1)"
    and F: "finish msg (WriteFetchResponse cid \<lparr>fs_Topics = topics, fs_ThrottleTimeMs = thr\<rparr>) c1 h1 = (Inr (), c', h')"
    and "silent c c1"
  shows "answered cid c c'"
proof -
  have "WriteFetchResponse cid \<lparr>fs_Topics = topics, fs_ThrottleTimeMs = thr\<rparr> =
      conn_Write (FullMessage \<lparr>buffer = fetch_response_wire cid \<lparr>fs_Topics = topics, fs_ThrottleTimeMs = thr\<rparr>\<rparr>)"
    using totalPayload_eq [OF fetch_batch_sizes [OF E], of thr cid]
    by (simp add: WriteFetchResponse_eq FullMessage_def)
  from finish_ok [OF F [unfolded this]] show ?thesis
    using assms(3) by (auto simp: answered_def silent_def fetch_response_wire_def)
qed

definition answers :: "request_header \<Rightarrow> 's handling \<Rightarrow> bool" where
  "answers header f \<longleftrightarrow> (\<forall>c h c' h'. f c h = (Inr (), c', h') \<longrightarrow> answered (rh_CorrelationID header) c c')"

lemma answersD: "answers header f \<Longrightarrow> f c h = (Inr (), c', h') \<Longrightarrow> answered (rh_CorrelationID header) c c'"
  by (auto simp: answers_def)

lemma answers_parse:
  assumes "stream_local m"
    and "\<And>req c c1 h c' h'. f req c1 h = (Inr (), c', h') \<Longrightarrow> silent c c1 \<Longrightarrow> answered (rh_CorrelationID header) c c'"
  shows "answers header (parse_then msg m f)"
  unfolding answers_def by (auto elim!: parse_then_ok [OF assms(1)] intro: assms(2))

lemma handlers_answer:
  "answers header (handleFetch pr header)"
  "answers header (handleListOffsets header)"
  "answers header (handleMetadata env header)"
  "answers header (handleOffsetCommit header)"
  "answers header (handleOffsetFetch header)"
  "answers header (handleFindCoordinator env header)"
  "answers header (handleJoinGroup header)"
  "answers header (handleHeartbeat header)"
  "answers header (handleLeaveGroup header)"
  "answers header (handleSyncGroup header)"
  unfolding handleFetch_def handleListOffsets_def handleMetadata_def handleOffsetCommit_def handleOffsetFetch_def
    handleFindCoordinator_def handleJoinGroup_def handleHeartbeat_def handleLeaveGroup_def handleSyncGroup_def Let_def
  by (rule answers_parse, intro stream_intros;
      auto intro: encoders_start fetch_answers dest!: reply_answers split: prod.splits sum.splits)+

lemma handleApiVersions_answers: "answers header (handleApiVersions header)"
  unfolding handleApiVersions_def answers_def
  by (auto intro: encoders_start dest!: reply_answers simp: silent_def)

text \<open>The handler of the produce request may stay silent, and only where it was asked to.\<close>

lemma handleProduce_answers:
  assumes "handleProduce pr header c h = (Inr (), c', h')"
  shows "answered (rh_CorrelationID header) c c' \<or>
    silent c c' \<and> (\<exists>req. fst (on_conn (ParseProduceRequest header) c) = Inr req \<and> pr_Acks req = AcksNone)"
proof -
  obtain req c1 where P: "on_conn (ParseProduceRequest header) c = (Inr req, c1)"
    using assms by (auto simp: handleProduce_def parse_then_def split: prod.splits sum.splits fault.splits)
  have S: "silent c c1" using on_conn_left [OF stream_local_requests(3) P] by (simp add: silent_def)
  obtain topics h1 where "(if pr_Acks req = AcksNone then (Inr (), c1, h1)
      else reply ''handleProduce: write response: %w'' (EncodeProduceResponse (rh_CorrelationID header) topics) c1 h1) =
      (Inr (), c', h')"
    using assms P by (auto simp: handleProduce_def parse_then_def split: prod.splits sum.splits)
  then show ?thesis
    using S P by (auto intro: encoders_start dest!: reply_answers split: if_splits)
qed

text \<open>What a request may be answered with.\<close>

definition response_to :: "request_header \<Rightarrow> bytes \<Rightarrow> bool" where
  "response_to header w \<longleftrightarrow>
     (\<exists>body. w = FullMessage \<lparr>buffer = be_put 4 (rh_CorrelationID header) @ body\<rparr>) \<or>
     w = [] \<and> rh_ApiKey header = ApiKeyProduce"

lemma dispatch_responds:
  assumes "dispatch pr env header c h = (Inr (), c', h')"
  obtains w where "cn_out c' = cn_out c @ w" "response_to header w" "input_left c' \<le> input_left c"
    "w = [] \<Longrightarrow> \<exists>req. fst (on_conn (ParseProduceRequest header) c) = Inr req \<and> pr_Acks req = AcksNone"
proof -
  have "answered (rh_CorrelationID header) c c' \<or> (silent c c' \<and> rh_ApiKey header = ApiKeyProduce \<and>
     (\<exists>req. fst (on_conn (ParseProduceRequest header) c) = Inr req \<and> pr_Acks req = AcksNone))"
    using assms
    by (auto simp: dispatch_def Let_def split: if_splits
        dest: handleProduce_answers answersD [OF handleApiVersions_answers] handlers_answer [THEN answersD])
  moreover have "FullMessage e \<noteq> []" for e by (simp add: FullMessage_def flip: length_0_conv)
  ultimately show thesis
    using that unfolding answered_def silent_def response_to_def by (metis append_Nil2)
qed

section \<open>A healthy connection\<close>

definition intact :: "conn \<Rightarrow> unit result \<times> conn \<times> 's \<Rightarrow> bool" where
  "intact c out \<longleftrightarrow>
     (cn_cap c = None \<longrightarrow>
        cn_cap (fst (snd out)) = None \<and> (fst out = Inr () \<or> cn_out (fst (snd out)) = cn_out c))"

abbreviation same_end :: "conn \<Rightarrow> conn \<Rightarrow> bool" where
  "same_end c c1 \<equiv> cn_out c1 = cn_out c \<and> cn_cap c1 = cn_cap c"

lemma intact_stop: "same_end c c1 \<Longrightarrow> intact c (r, c1, h)"
  by (simp add: intact_def)

lemma intact_parse:
  assumes "\<And>req c1. same_end c c1 \<Longrightarrow> intact c (f req c1 h)"
  shows "intact c (parse_then msg m f c h)"
proof -
  obtain r rd where "m (cn_in c) = (r, rd)" by fastforce
  then show ?thesis
    using assms by (cases r) (auto simp: parse_then_def on_conn_def intro: intact_stop split: fault.split)
qed

lemma intact_write: "same_end c c1 \<Longrightarrow> intact c (finish msg (conn_Write p) c1 h)"
  by (simp add: intact_def finish_def conn_Write_healthy)

lemma intact_reply: "same_end c c1 \<Longrightarrow> intact c (reply msg f c1 h)"
  unfolding reply_def by (rule intact_write)

lemma intact_fetch: "same_end c c1 \<Longrightarrow> intact c (finish msg (WriteFetchResponse cid resp) c1 h)"
  unfolding WriteFetchResponse_eq by (rule intact_write)

lemma handlers_intact:
  "intact c (handleProduce pr header c h)" "intact c (handleFetch pr header c h)"
  "intact c (handleListOffsets header c h)" "intact c (handleMetadata env header c h)"
  "intact c (handleOffsetCommit header c h)" "intact c (handleOffsetFetch header c h)"
  "intact c (handleFindCoordinator env header c h)" "intact c (handleJoinGroup header c h)"
  "intact c (handleHeartbeat header c h)" "intact c (handleLeaveGroup header c h)"
  "intact c (handleSyncGroup header c h)"
  unfolding handleProduce_def handleFetch_def handleListOffsets_def handleMetadata_def handleOffsetCommit_def handleOffsetFetch_def
    handleFindCoordinator_def handleJoinGroup_def handleHeartbeat_def handleLeaveGroup_def handleSyncGroup_def Let_def
  by (rule intact_parse; simp add: intact_stop intact_reply intact_fetch split: prod.split sum.split)+

lemma dispatch_intact: "intact c (dispatch pr env header c h)"
  unfolding dispatch_def Let_def handleApiVersions_def
  by (simp add: handlers_intact intact_stop intact_reply)

section \<open>The connection loop\<close>

text \<open>
  The requests a connection has been served so far, each with the bytes that were written for
  it, and the state of the connection and of the process behind them.
\<close>

inductive session ::
    "('c, 'h) prometheus \<Rightarrow> (string \<Rightarrow> string) \<Rightarrow> conn \<Rightarrow> ('c, 'h) handler \<Rightarrow> (request_header \<times> bytes) list \<Rightarrow>
     conn \<Rightarrow> ('c, 'h) handler \<Rightarrow> bool"
  for pr env where
  session_start: "session pr env c h [] c h"
| session_request:
    "on_conn ParseRequestHeader c = (Inr header, c1) \<Longrightarrow> dispatch pr env header c1 h = (Inr (), c2, h2) \<Longrightarrow>
     cn_out c2 = cn_out c1 @ w \<Longrightarrow> session pr env c2 h2 rs c' h' \<Longrightarrow> session pr env c h ((header, w) # rs) c' h'"

text \<open>How the loop ends: the next header cannot be read, or its request fails.\<close>

definition ends :: "('c, 'h) prometheus \<Rightarrow> (string \<Rightarrow> string) \<Rightarrow> conn \<Rightarrow> ('c, 'h) handler \<Rightarrow>
    string option \<Rightarrow> conn \<Rightarrow> ('c, 'h) handler \<Rightarrow> bool" where
  "ends pr env c h p c' h' \<longleftrightarrow>
     (\<exists>f. (on_conn ParseRequestHeader c = (Inl f, c') \<and> h' = h \<or>
           (\<exists>header c1. on_conn ParseRequestHeader c = (Inr header, c1) \<and> dispatch pr env header c1 h = (Inl f, c', h'))) \<and>
          p = (case f of Err e \<Rightarrow> None | Panic msg \<Rightarrow> Some msg))"

lemma Handle_session:
  "\<exists>p c' h' rs c1 h1. Handle pr env c h = Some (p, c', h') \<and> session pr env c h rs c1 h1 \<and> ends pr env c1 h1 p c' h'"
proof (induction "input_left c" arbitrary: c h rule: less_induct)
  case less
  obtain r c1 where H: "on_conn ParseRequestHeader c = (r, c1)" by fastforce
  show ?case
  proof (cases r)
    case (Inl f)
    then have "\<exists>p. Handle pr env c h = Some (p, c1, h) \<and> ends pr env c h p c1 h"
      using H by (subst Handle.simps) (auto simp: ends_def split: fault.split)
    then show ?thesis using session_start by blast
  next
    case (Inr header)
    obtain q c2 h2 where D: "dispatch pr env header c1 h = (q, c2, h2)" by (metis prod_cases3)
    show ?thesis
    proof (cases q)
      case (Inl f)
      then have "\<exists>p. Handle pr env c h = Some (p, c2, h2) \<and> ends pr env c h p c2 h2"
        using H Inr D by (subst Handle.simps) (auto simp: ends_def split: fault.split)
      then show ?thesis using session_start by blast
    next
      case r: (Inr u)
      obtain w where w: "cn_out c2 = cn_out c1 @ w" "input_left c2 \<le> input_left c1"
        using dispatch_responds D r by (metis (full_types) old.unit.exhaust)
      have "input_left c2 < input_left c" using header_left H Inr w(2) by fastforce
      from less [OF this, of h2] obtain p c' h' rs c3 h3 where
        L: "Handle pr env c2 h2 = Some (p, c', h')" "session pr env c2 h2 rs c3 h3" "ends pr env c3 h3 p c' h'"
        by blast
      have "Handle pr env c h = Some (p, c', h')"
        using H Inr D r L(1) by (subst Handle.simps) simp
      moreover have "session pr env c h ((header, w) # rs) c3 h3"
        using H Inr D r w(1) L(2) by (auto intro: session_request)
      ultimately show ?thesis using L(3) by blast
    qed
  qed
qed

lemma on_conn_same_end: "on_conn m c = (r, c1) \<Longrightarrow> same_end c c1"
  by (auto simp: on_conn_def split: prod.splits)

lemma session_output:
  assumes "session pr env c h rs c' h'"
  shows "cn_out c' = cn_out c @ concat (map snd rs) \<and> list_all (\<lambda>(header, w). response_to header w) rs \<and>
    (cn_cap c = None \<longrightarrow> cn_cap c' = None)"
  using assms
proof induction
  case (session_request c header c1 h c2 h2 w rs c' h')
  have "response_to header w" using dispatch_responds [OF session_request(2)] session_request(3) by auto
  moreover have "cn_cap c1 = None \<longrightarrow> cn_cap c2 = None"
    using dispatch_intact [of c1 pr env header h] session_request(2) by (simp add: intact_def)
  ultimately show ?case using session_request on_conn_same_end [OF session_request(1)] by simp
qed simp

lemma ends_output:
  assumes "ends pr env c h p c' h'" and "cn_cap c = None"
  shows "cn_out c' = cn_out c"
proof -
  have "cn_out c' = cn_out c1" if "dispatch pr env header c1 h = (Inl f, c', h')" "cn_cap c1 = None" for header c1 f
    using dispatch_intact [of c1 pr env header h] that by (simp add: intact_def)
  then show ?thesis
    using assms by (auto simp: ends_def dest: on_conn_same_end)
qed

text \<open>
  (One response) A request that the dispatcher handles without an error is answered with
  exactly one frame, whose size prefix is its length and which starts with the correlation id
  of the request; only a produce request that asked for no acknowledgement gets no response.
\<close>

theorem dispatch_one_response:
  assumes "dispatch pr env header c h = (Inr (), c', h')"
  shows "(\<exists>body. cn_out c' = cn_out c @ FullMessage \<lparr>buffer = be_put 4 (rh_CorrelationID header) @ body\<rparr>) \<or>
    cn_out c' = cn_out c \<and> rh_ApiKey header = ApiKeyProduce \<and>
    (\<exists>req. fst (on_conn (ParseProduceRequest header) c) = Inr req \<and> pr_Acks req = AcksNone)"
proof (rule dispatch_responds [OF assms])
  fix w
  assume "cn_out c' = cn_out c @ w" "response_to header w"
    "w = [] \<Longrightarrow> \<exists>req. fst (on_conn (ParseProduceRequest header) c) = Inr req \<and> pr_Acks req = AcksNone"
  then show ?thesis unfolding response_to_def by auto
qed

definition versions_header :: request_header where
  "versions_header = \<lparr>rh_Size = 11, rh_ApiKey = 18, rh_ApiVersion = 0, rh_CorrelationID = 7, rh_ClientID = ''k''\<rparr>"

lemma dispatch_versions:
  "dispatch pr env versions_header (sample_conn bs) h =
     (Inr (), (sample_conn bs)\<lparr>cn_out := FullMessage (EncodeApiVersionsResponse 7 NewEncoder)\<rparr>, h)"
  by (simp add: dispatch_def versions_header_def api_keys handleApiVersions_def reply_def finish_def
      conn_Write_healthy sample_conn_def)

theorem dispatch_one_response_witness:
  "\<exists>body. FullMessage (EncodeApiVersionsResponse 7 NewEncoder) = FullMessage \<lparr>buffer = be_put 4 (7 :: int32) @ body\<rparr>"
  using dispatch_one_response [OF dispatch_versions [of sample_prom "\<lambda>_. []" "[]" sample_handler]]
  by (simp add: versions_header_def api_keys sample_conn_def)

text \<open>
  C23: (The loop returns) On every finite stream of requests, well-formed or not, and in every
  state of the process, the connection loop returns.
\<close>

theorem Handle_returns: "\<exists>p c' h'. Handle pr env c h = Some (p, c', h')"
  using Handle_session [of pr env c h] by blast

text \<open>
  C4: (Responses in order) On a connection that takes every write, the connection loop serves
  the requests one after the other and ends at a header it cannot read or a request that
  fails.  What the client receives is, in the order of its requests, one frame with the
  correlation id for each of them, or nothing for a produce request, and no byte else.
\<close>

theorem Handle_in_order:
  assumes "cn_cap c = None"
  shows "\<exists>p c' h' rs c1 h1. Handle pr env c h = Some (p, c', h') \<and>
    session pr env c h rs c1 h1 \<and> ends pr env c1 h1 p c' h' \<and>
    cn_out c' = cn_out c @ concat (map snd rs) \<and> list_all (\<lambda>(header, w). response_to header w) rs"
proof -
  obtain p c' h' rs c1 h1 where H: "Handle pr env c h = Some (p, c', h')" "session pr env c h rs c1 h1"
      "ends pr env c1 h1 p c' h'"
    using Handle_session [of pr env c h] by metis
  have "cn_out c' = cn_out c @ concat (map snd rs) \<and> list_all (\<lambda>(header, w). response_to header w) rs"
    using session_output [OF H(2)] ends_output [OF H(3)] assms by simp
  then show ?thesis using H by metis
qed

text \<open>Two requests on one connection: two responses, and the end of the stream.\<close>

theorem Handle_in_order_witness:
  "\<exists>p c' h' rs c1 h1.
     Handle sample_prom (\<lambda>_. []) (sample_conn (header_wire versions_header @ header_wire versions_header)) sample_handler =
       Some (p, c', h') \<and>
     session sample_prom (\<lambda>_. []) (sample_conn (header_wire versions_header @ header_wire versions_header)) sample_handler rs c1 h1 \<and>
     ends sample_prom (\<lambda>_. []) c1 h1 p c' h' \<and>
     cn_out c' = concat (map snd rs) \<and> list_all (\<lambda>(header, w). response_to header w) rs"
  using Handle_in_order [of "sample_conn (header_wire versions_header @ header_wire versions_header)" sample_prom "\<lambda>_. []" sample_handler]
  by (simp add: sample_conn_def)

end
