(* ===== verification/Handler_Metadata.thy ===== *)
theory Handler_Metadata
  imports Handler_Spec "HOL-Library.Multiset"
begin

text \<open>
  The metadata request: every topic that is asked for is created, and the response lists every
  topic of the broker with all its partitions, grouped by topic.
\<close>

section \<open>Grouping by topic\<close>

definition flat :: "('a \<times> 'b list) list \<Rightarrow> ('a \<times> 'b) list" where
  "flat groups = concat (map (\<lambda>(t, ps). map (Pair t) ps) groups)"

lemma flat_simps [simp]: "flat [] = []" "flat ((t, ps) # gs) = map (Pair t) ps @ flat gs"
  by (simp_all add: flat_def)

lemma flat_add: "mset (flat (add_by_topic tp groups)) = add_mset tp (mset (flat groups))"
proof (induction groups)
  case (Cons g groups)
  obtain t ps where "g = (t, ps)" by (cases g)
  then show ?case using Cons by (cases tp) (auto simp: add_by_topic_def)
qed (cases tp, simp add: add_by_topic_def)

lemma flat_grouped: "mset (flat (fold add_by_topic tps groups)) = mset tps + mset (flat groups)"
  by (induction tps arbitrary: groups) (simp_all add: flat_add)

lemma distinct_grouped: "distinct (map fst groups) \<Longrightarrow> distinct (map fst (fold add_by_topic tps groups))"
  by (induction tps arbitrary: groups) (simp_all add: add_by_topic_def distinct_update)

section \<open>The response\<close>

text \<open>The topic-partitions a response lists.\<close>

definition listed :: "topic_metadata list \<Rightarrow> (string \<times> partition_metadata) list" where
  "listed ms = flat (map (\<lambda>m. (tm_Name m, tm_Partitions m)) ms)"

lemma listed_topic_meta: "listed (map topic_meta groups) = map (\<lambda>(t, p). (t, partition_meta p)) (flat groups)"
  by (induction groups) (auto simp: listed_def topic_meta_def)

lemma metadata_lists:
  assumes "bs_inv G bs d A"
  shows "distinct (map tm_Name (mp_Topics (metadata_of env bs)))"
    "mset (listed (mp_Topics (metadata_of env bs))) =
       image_mset (\<lambda>(t, p). (t, partition_meta p)) (mset_set {(t, p). valid_tp t p \<and> A (partitionKey t p) \<noteq> None})"
proof -
  have "tm_Name \<circ> topic_meta = fst" by (simp add: fun_eq_iff topic_meta_def)
  then show "distinct (map tm_Name (mp_Topics (metadata_of env bs)))"
    using distinct_grouped [of "[]" "Topics bs"] by (simp add: metadata_of_def)
  have "mset_set {(t, p). valid_tp t p \<and> A (partitionKey t p) \<noteq> None} = mset (Topics bs)"
    using Topics_set [OF assms] by (metis mset_set_set)
  then show "mset (listed (mp_Topics (metadata_of env bs))) =
       image_mset (\<lambda>(t, p). (t, partition_meta p)) (mset_set {(t, p). valid_tp t p \<and> A (partitionKey t p) \<noteq> None})"
    using flat_grouped [of "Topics bs" "[]"] by (simp add: metadata_of_def listed_topic_meta)
qed

lemma ensure_topics_ok:
  assumes "list_all (\<lambda>t. valid_tp t 0) ts" and "serves mx n h B"
  shows "serves mx n (fold ensure_topic ts h) (fold (\<lambda>t. spec_create (partitionKey t 0)) ts B)"
  using assms
proof (induction ts arbitrary: h B)
  case (Cons t ts)
  obtain h' where "get_partition t 0 h = (Inr (partitionKey t 0), h')" "serves mx n h' (spec_create (partitionKey t 0) B)"
    using get_partition_ok [OF Cons.prems(2), of t 0] Cons.prems(1) by auto
  then show ?case using Cons by (simp add: ensure_topic_def)
qed simp

text \<open>
  C8: (Metadata) A metadata request creates partition 0 of every topic it names, and nothing
  else, and is answered with a frame that lists every topic-partition of the broker, the new
  ones included, exactly once and under one entry per topic, with the one broker there is.
\<close>

theorem handleMetadata_refines:
  assumes parse: "on_conn (ParseMetadataRequest header) c = (Inr req, c1)"
    and valid: "list_all (\<lambda>t. valid_tp t 0) (mr_Topics req)" and S: "serves mx n h B"
    and spec: "fold (\<lambda>t. spec_create (partitionKey t 0)) (mr_Topics req) B = B'"
  shows "\<exists>h' topics. serves mx n h' B' \<and> distinct (map tm_Name topics) \<and>
    mset (listed topics) = image_mset (\<lambda>(t, p). (t, partition_meta p))
      (mset_set {(t, p). valid_tp t p \<and> ab_parts B' (partitionKey t p) \<noteq> None}) \<and>
    handleMetadata env header c h =
      finish ''handleMetadata: failed to write response: %w''
        (conn_Write (FullMessage \<lparr>buffer = metadata_response_wire (rh_CorrelationID header) (rh_ApiVersion header)
           \<lparr>mp_ClusterID = None,
            mp_Brokers = [\<lparr>br_Host = advertised_host env, br_Rack = None, br_NodeID = 1, br_Port = 9092\<rparr>],
            mp_Topics = topics, mp_ControllerID = 1\<rparr>\<rparr>)) c1 h'"
proof -
  let ?h = "fold ensure_topic (mr_Topics req) h"
  have S': "serves mx n ?h B'" using ensure_topics_ok [OF valid S] spec by simp
  have "EncodeMetadataResponse (rh_CorrelationID header) (rh_ApiVersion header) resp NewEncoder =
      \<lparr>buffer = metadata_response_wire (rh_CorrelationID header) (rh_ApiVersion header) resp\<rparr>" for resp
    using buffer_EncodeMetadataResponse [of _ _ resp NewEncoder] by (intro encoder.equality) (simp_all add: NewEncoder_def)
  then have "handleMetadata env header c h =
      finish ''handleMetadata: failed to write response: %w''
        (conn_Write (FullMessage \<lparr>buffer = metadata_response_wire (rh_CorrelationID header) (rh_ApiVersion header)
           \<lparr>mp_ClusterID = None,
            mp_Brokers = [\<lparr>br_Host = advertised_host env, br_Rack = None, br_NodeID = 1, br_Port = 9092\<rparr>],
            mp_Topics = mp_Topics (metadata_of env (hn_store ?h)), mp_ControllerID = 1\<rparr>\<rparr>)) c1 ?h"
    using parse by (simp add: handleMetadata_def parse_then_def reply_def Let_def metadata_of_def)
  then show ?thesis using S' metadata_lists [OF servesD(1) [OF S']] by blast
qed

definition sample_metadata :: metadata_request where
  "sample_metadata = \<lparr>mr_Header = sample_header, mr_Topics = [''t'']\<rparr>"

lemma sample_metadata_parse:
  "on_conn (ParseMetadataRequest sample_header) (sample_conn (metadata_wire 0 sample_metadata)) =
   (Inr sample_metadata, sample_conn [])"
  by (rule on_conn_sample)
    (use metadata_roundtrip [of sample_metadata] in \<open>simp add: sample_metadata_def metadata_ok_def\<close>)

theorem handleMetadata_refines_witness:
  "\<exists>h' topics. mset (listed topics) = {#(''t'', partition_meta 0)#} \<and>
     handleMetadata (\<lambda>_. []) sample_header (sample_conn (metadata_wire 0 sample_metadata)) sample_handler =
       (Inr (), (sample_conn [])\<lparr>cn_out := FullMessage \<lparr>buffer = metadata_response_wire 7 3
          \<lparr>mp_ClusterID = None, mp_Brokers = [\<lparr>br_Host = ''127.0.0.1'', br_Rack = None, br_NodeID = 1, br_Port = 9092\<rparr>],
           mp_Topics = topics, mp_ControllerID = 1\<rparr>\<rparr>\<rparr>, h')"
proof -
  let ?B = "spec_create (partitionKey ''t'' 0) empty_broker"
  have S: "serves 1024 0 sample_handler empty_broker" by (rule sample_serves) simp_all
  have V: "list_all (\<lambda>t. valid_tp t 0) (mr_Topics sample_metadata)" using sample_tp by (simp add: sample_metadata_def)
  have F: "fold (\<lambda>t. spec_create (partitionKey t 0)) (mr_Topics sample_metadata) empty_broker = ?B"
    by (simp add: sample_metadata_def)
  have "{(t, p). valid_tp t p \<and> ab_parts ?B (partitionKey t p) \<noteq> None} = {(''t'', 0)}"
    using partitionKey_inj sample_tp(1)
    by (auto simp: spec_create_def created_def empty_broker_def split: if_splits)
  with handleMetadata_refines [OF sample_metadata_parse V S F, of "\<lambda>_. []"] show ?thesis
    by (auto simp: finish_def conn_Write_def sample_conn_def sample_header_def advertised_host_def)
qed

section \<open>Asking for all topics\<close>

text \<open>
  C39: (All topics) A metadata request whose array of topics has a negative length, which is how
  a client asks for all topics, is not answered: making the slice panics, and with it the
  connection loop, whatever the state of the process.
\<close>

theorem null_topics_panic:
  assumes "header_ok header" and "rh_ApiKey header = ApiKeyMetadata" and "sint (n :: int32) < 0"
    and "cn_in c = feed (header_wire header @ be_put 4 n) r"
  shows "Handle pr env c h = Some (Some ''makeslice: cap out of range'', c\<lparr>cn_in := r\<rparr>, h)"
proof -
  have "on_conn ParseRequestHeader c = (Inr header, c\<lparr>cn_in := feed (be_put 4 n) r\<rparr>)"
    using header_codec.dec_enc [OF assms(1)] assms(4) by (simp add: on_conn_def feed_append)
  moreover have "ParseMetadataRequest header (feed (be_put 4 n) r) = (Inl (Panic ''makeslice: cap out of range''), r)"
    using assms(3) by (simp add: ParseMetadataRequest_def make_then_read_def dec_defs dfail_def feed_simps)
  ultimately show ?thesis
    using assms(2) by (subst Handle.simps)
      (simp add: dispatch_def api_keys handleMetadata_def parse_then_def on_conn_def)
qed

definition all_topics_header :: request_header where
  "all_topics_header = \<lparr>rh_Size = 15, rh_ApiKey = 3, rh_ApiVersion = 1, rh_CorrelationID = 1, rh_ClientID = ''k''\<rparr>"

theorem null_topics_panic_witness:
  "Handle sample_prom (\<lambda>_. []) (sample_conn (header_wire all_topics_header @ be_put 4 (- 1 :: int32))) sample_handler =
     Some (Some ''makeslice: cap out of range'', sample_conn [], sample_handler)"
  using null_topics_panic [of all_topics_header "- 1" "sample_conn (header_wire all_topics_header @ be_put 4 (- 1 :: int32))"
      "\<lparr>rd_data = [], rd_err = io_EOF\<rparr>" sample_prom "\<lambda>_. []" sample_handler]
  by (simp add: all_topics_header_def header_ok_def api_keys sample_conn_def feed_def)

end
