(* ===== verification/Handler_Query.thy ===== *)
theory Handler_Query
  imports Handler_Offsets
begin

text \<open>
  The requests that ask for offsets: \<open>ListOffsets\<close> reports the bounds of a partition, and
  \<open>OffsetFetch\<close> the committed offset of a group, which is the last one that was committed.
\<close>

section \<open>The bounds of a partition\<close>

definition spec_list :: "string \<Rightarrow> list_offsets_partition \<Rightarrow> abs_broker \<Rightarrow> list_offsets_partition_response \<times> abs_broker" where
  "spec_list topic part B =
     (let k = partitionKey topic (sint (lop_Partition part));
          resp = (\<lambda>off. \<lparr>lopr_Partition = lop_Partition part, lopr_ErrorCode = 0, lopr_Timestamp = - 1, lopr_Offset = off\<rparr>)
      in if lop_Timestamp part = TimestampLatest
         then (resp (word_of_nat (length (log_bytes (spec_records k (spec_create k B))))), spec_create k B)
         else (resp 0, B))"

definition spec_list_topic :: "list_offsets_topic \<Rightarrow> abs_broker \<Rightarrow> list_offsets_topic_response \<times> abs_broker" where
  "spec_list_topic topic B =
     (case spec_each (spec_list (lot_TopicName topic)) (lot_Partitions topic) B of
        (ps, B1) \<Rightarrow> (\<lparr>lotr_TopicName = lot_TopicName topic, lotr_Partitions = ps\<rparr>, B1))"

definition list_allowed :: "string \<Rightarrow> list_offsets_partition \<Rightarrow> bool" where
  "list_allowed topic part \<longleftrightarrow> (lop_Timestamp part = TimestampLatest \<longrightarrow> valid_tp topic (sint (lop_Partition part)))"

lemma list_step_ok:
  assumes A: "list_allowed topic part" and S: "serves mx n h B"
  shows "\<exists>h'. list_offsets_step topic part h = (Inr (fst (spec_list topic part B)), h') \<and>
    serves mx n h' (snd (spec_list topic part B))"
proof (cases "lop_Timestamp part = TimestampLatest")
  case True
  let ?k = "partitionKey topic (sint (lop_Partition part))"
  obtain h1 where G: "get_partition topic (lop_Partition part) h = (Inr ?k, h1)" "serves mx n h1 (spec_create ?k B)"
    using get_partition_ok [OF S] A True unfolding list_allowed_def by metis
  have "TimestampLatest \<noteq> TimestampEarliest" by (simp add: TimestampLatest_def TimestampEarliest_def)
  then show ?thesis
    using True G size_of_ok(1) [OF G(2) spec_create_parts(1)]
    by (intro exI [of _ h1]) (simp add: list_offsets_step_def spec_list_def Let_def)
next
  case False
  then show ?thesis using S by (simp add: list_offsets_step_def spec_list_def Let_def)
qed

interpretation list_part: step_refines "list_offsets_step topic" "spec_list topic" "list_allowed topic" "\<lambda>_. 0" "serves mx"
  for topic mx
  by unfold_locales (simp_all add: list_step_ok)

interpretation list_topic: step_refines list_offsets_topic_step spec_list_topic
    "\<lambda>t. list_all (list_allowed (lot_TopicName t)) (lot_Partitions t)" "\<lambda>_. 0" "serves mx" for mx
proof
  fix x :: list_offsets_topic and n :: int and s :: "('a, 'b) handler" and a
  assume "list_all (list_allowed (lot_TopicName x)) (lot_Partitions x)" "0 \<le> n" "serves mx (0 + n) s a"
  then obtain s' where "each_of (list_offsets_step (lot_TopicName x)) (lot_Partitions x) s =
      (Inr (fst (spec_each (spec_list (lot_TopicName x)) (lot_Partitions x) a)), s')"
    "serves mx n s' (snd (spec_each (spec_list (lot_TopicName x)) (lot_Partitions x) a))"
    using list_part.each_refines [of "lot_TopicName x" "lot_Partitions x" n mx s a]
    by (auto simp: map_replicate_const sum_list_replicate)
  then show "\<exists>s'. list_offsets_topic_step x s = (Inr (fst (spec_list_topic x a)), s') \<and> serves mx n s' (snd (spec_list_topic x a))"
    by (simp add: list_offsets_topic_step_def spec_list_topic_def case_prod_beta)
qed simp

text \<open>
  The comments of the source call the latest offset the one of the next write, and the size of a
  store its total over all segments.  It is the size of the active segment: the next record goes
  there when it fits, and to offset 0 of a new segment when it does not.
\<close>

lemma latest_next_write:
  assumes "spec_append mx k p (spec_create k B) = (off, B')"
  shows "off = (let latest = int (length (log_bytes (spec_records k (spec_create k B))))
    in if latest + 4 + int (length p) \<le> mx then latest else 0)"
  using assms by (auto simp: spec_append_def log_append_def spec_records_def Let_def split: if_splits)

text \<open>
  C9: (List offsets) A list offsets request is answered as specified: the latest offset is the
  number of bytes in the active segment of the partition, which is where the next record goes
  unless it needs a new segment, and every other timestamp gives offset 0.  A partition that is
  asked for its latest offset exists afterwards.
\<close>

theorem handleListOffsets_refines:
  assumes parse: "on_conn (ParseListOffsetsRequest header) c = (Inr req, c1)"
    and allowed: "list_all (\<lambda>t. list_all (list_allowed (lot_TopicName t)) (lot_Partitions t)) (lor_Topics req)"
    and S: "serves mx n h B" and spec: "spec_each spec_list_topic (lor_Topics req) B = (topics, B')"
  shows "\<exists>h'. serves mx n h' B' \<and> handleListOffsets header c h =
    reply ''handleListOffsets: write response: %w'' (EncodeListOffsetsResponse (rh_CorrelationID header) topics) c1 h'"
proof -
  obtain h' where "each_of list_offsets_topic_step (lor_Topics req) h = (Inr topics, h')" "serves mx n h' B'"
    using list_topic.each_refines [OF allowed servesD(4) [OF S], of mx h B] S spec
    by (auto simp: map_replicate_const sum_list_replicate)
  then show ?thesis using parse by (intro exI [of _ h']) (simp add: handleListOffsets_def parse_then_def)
qed

definition sample_list :: list_offsets_request where
  "sample_list = \<lparr>lor_Header = sample_header, lor_ReplicaID = - 1, lor_Topics = [\<lparr>lot_TopicName = ''t'', lot_Partitions =
     [\<lparr>lop_Partition = 0, lop_Timestamp = - 1\<rparr>, \<lparr>lop_Partition = 0, lop_Timestamp = - 2\<rparr>]\<rparr>]\<rparr>"

lemma sample_list_parse:
  "on_conn (ParseListOffsetsRequest sample_header) (sample_conn (list_offsets_wire sample_list)) = (Inr sample_list, sample_conn [])"
  by (rule on_conn_sample)
    (use list_offsets_roundtrip [of sample_list] in \<open>simp add: sample_list_def list_offsets_ok_def list_offsets_topic_ok_def\<close>)

theorem handleListOffsets_refines_witness:
  "\<exists>r h h'. produce_partition_step sample_prom ''t'' sample_part sample_handler = (Inr r, h) \<and>
     handleListOffsets sample_header (sample_conn (list_offsets_wire sample_list)) h =
       reply ''handleListOffsets: write response: %w'' (EncodeListOffsetsResponse 7
         [\<lparr>lotr_TopicName = ''t'', lotr_Partitions =
            [\<lparr>lopr_Partition = 0, lopr_ErrorCode = 0, lopr_Timestamp = - 1, lopr_Offset = 65\<rparr>,
             \<lparr>lopr_Partition = 0, lopr_ErrorCode = 0, lopr_Timestamp = - 1, lopr_Offset = 0\<rparr>]\<rparr>]) (sample_conn []) h'"
proof -
  obtain h where P: "produce_partition_step sample_prom ''t'' sample_part sample_handler =
      (Inr \<lparr>ppr_BaseOffset = 0, ppr_Partition = 0, ppr_ErrorCode = 0\<rparr>, h)" "serves 1024 0 h batch_broker"
    by (rule sample_part_produced)
  have k: "partitionKey ''t'' 0 = ''t-0''" by code_simp
  have A: "list_all (\<lambda>t. list_all (list_allowed (lot_TopicName t)) (lot_Partitions t)) (lor_Topics sample_list)"
    using sample_tp(1) by (simp add: sample_list_def list_allowed_def)
  have "spec_each spec_list_topic (lor_Topics sample_list) batch_broker =
      ([\<lparr>lotr_TopicName = ''t'', lotr_Partitions =
          [\<lparr>lopr_Partition = 0, lopr_ErrorCode = 0, lopr_Timestamp = - 1, lopr_Offset = 65\<rparr>,
           \<lparr>lopr_Partition = 0, lopr_ErrorCode = 0, lopr_Timestamp = - 1, lopr_Offset = 0\<rparr>]\<rparr>], batch_broker)"
    by (simp add: sample_list_def spec_list_topic_def spec_list_def Let_def TimestampLatest_def k
        spec_create_def created_def batch_broker_def spec_records_def sample_batch_fields)
  from handleListOffsets_refines [OF sample_list_parse A P(2) this] P(1) show ?thesis
    by (auto simp: sample_header_def)
qed

section \<open>The committed offset of a group\<close>

definition offset_known :: "(offsetCacheKey \<rightharpoonup> int64) \<Rightarrow> string \<Rightarrow> offset_fetch_topic list \<Rightarrow> offset_fetch_topic_response list" where
  "offset_known cache groupID ts =
     map (\<lambda>t. \<lparr>oftr_TopicName = oft_TopicName t,
               oftr_Partitions = map (\<lambda>p. \<lparr>ofpr_CommittedOffset =
                   (case cache \<lparr>ock_GroupID = groupID, ock_Topic = oft_TopicName t, ock_Partition = p\<rparr> of
                      None \<Rightarrow> - 1 | Some off \<Rightarrow> off),
                 ofpr_CommittedMetadata = [], ofpr_Partition = p, ofpr_ErrorCode = 0\<rparr>) (oft_Partitions t)\<rparr>) ts"

lemma handleOffsetFetch_known:
  assumes "on_conn (ParseOffsetFetchRequest header) c = (Inr req, c1)"
  shows "handleOffsetFetch header c h = reply ''handleOffsetFetch: write response: %w''
     (EncodeOffsetFetchResponse (rh_CorrelationID header) (offset_known (hn_offsetCache h) (ofr_GroupID req) (ofr_Topics req))) c1 h"
proof -
  have "cached_offset cache g t = (\<lambda>p. \<lparr>ofpr_CommittedOffset =
      (case cache \<lparr>ock_GroupID = g, ock_Topic = t, ock_Partition = p\<rparr> of None \<Rightarrow> - 1 | Some off \<Rightarrow> off),
      ofpr_CommittedMetadata = [], ofpr_Partition = p, ofpr_ErrorCode = 0\<rparr>)" for cache g t
    by (simp add: cached_offset_def OffsetUnknown_def fun_eq_iff split: option.split)
  then show ?thesis using assms by (simp add: handleOffsetFetch_def parse_then_def offset_known_def)
qed

text \<open>
  C7: (Commit, then fetch the offset) After an offset was committed, an offset fetch request, on
  any connection, is answered with that offset for this group, topic and partition, with the
  offsets as they were before for all others, and with -1 where none was committed.
\<close>

theorem commit_then_offset_fetch:
  assumes N: "names_ok groupID topic" and S: "serves_offsets mx (commit_cost groupID topic part) h B"
    and parse: "on_conn (ParseOffsetFetchRequest header) c = (Inr req, c1)"
  shows "\<exists>h'. commit_partition_step groupID topic part h = (Inr (ocp_Partition part, 0), h') \<and>
    handleOffsetFetch header c h' = reply ''handleOffsetFetch: write response: %w''
      (EncodeOffsetFetchResponse (rh_CorrelationID header)
        (offset_known ((ab_offsets B)(\<lparr>ock_GroupID = groupID, ock_Topic = topic, ock_Partition = ocp_Partition part\<rparr>
             \<mapsto> ocp_CommittedOffset part)) (ofr_GroupID req) (ofr_Topics req))) c1 h'"
proof -
  obtain h' where C: "commit_partition_step groupID topic part h = (Inr (fst (spec_commit mx groupID topic part B)), h')"
    "serves_offsets mx 0 h' (snd (spec_commit mx groupID topic part B))"
    using commit_step_ok [OF N order_refl, of mx part h B] S by auto
  have "hn_offsetCache h' = (ab_offsets B)(commit_key groupID topic part \<mapsto> ocp_CommittedOffset part)"
  proof -
    have "serves mx 0 h' (snd (spec_commit mx groupID topic part B))" using C(2) by (simp add: serves_offsets_def)
    from servesD(2) [OF this] show ?thesis by (simp add: spec_commit_def spec_append_def case_prod_beta)
  qed
  then show ?thesis
    using C(1) handleOffsetFetch_known [OF parse, of h']
    by (intro exI [of _ h']) (simp add: spec_commit_def case_prod_beta commit_key_def)
qed

definition sample_offset_fetch :: offset_fetch_request where
  "sample_offset_fetch = \<lparr>ofr_Topics = [\<lparr>oft_TopicName = ''t'', oft_Partitions = [0, 1]\<rparr>], ofr_GroupID = ''g''\<rparr>"

lemma sample_offset_fetch_parse:
  "on_conn (ParseOffsetFetchRequest sample_header) (sample_conn (offset_fetch_wire sample_offset_fetch)) =
     (Inr sample_offset_fetch, sample_conn [])"
  by (rule on_conn_sample, rule offset_fetch_codec.dec_enc)
    (simp add: sample_offset_fetch_def offset_fetch_ok_def offset_fetch_topic_ok_def)

theorem commit_then_offset_fetch_witness:
  "\<exists>h'. commit_partition_step ''g'' ''t'' sample_commit_part sample_handler = (Inr (0, 0), h') \<and>
     handleOffsetFetch sample_header (sample_conn (offset_fetch_wire sample_offset_fetch)) h' =
       reply ''handleOffsetFetch: write response: %w'' (EncodeOffsetFetchResponse 7
         [\<lparr>oftr_TopicName = ''t'', oftr_Partitions =
            [\<lparr>ofpr_CommittedOffset = 42, ofpr_CommittedMetadata = [], ofpr_Partition = 0, ofpr_ErrorCode = 0\<rparr>,
             \<lparr>ofpr_CommittedOffset = - 1, ofpr_CommittedMetadata = [], ofpr_Partition = 1, ofpr_ErrorCode = 0\<rparr>]\<rparr>]) (sample_conn []) h'"
proof -
  have S: "serves_offsets 1024 (commit_cost ''g'' ''t'' sample_commit_part) sample_handler empty_broker"
    using sample_commit_spec(3,4) by simp
  show ?thesis
    using commit_then_offset_fetch [OF sample_commit_spec(2) S sample_offset_fetch_parse]
    by (simp add: offset_known_def sample_offset_fetch_def sample_commit_part_def empty_broker_def sample_header_def)
qed

end
