(* ===== verification/Handler_Commits.thy ===== *)
theory Handler_Commits
  imports Handler_Offsets
begin

text \<open>
  Offset commits of several connections at once.  A commit appends its record under the lock of
  the offsets partition and updates the cache later, under another lock, so commits of
  different connections interleave between the two steps.  As long as no two commits for the
  same key are under way together, every interleaving has the effect of the commits one after
  the other; two for the same key can leave the cache behind the log.
\<close>

section \<open>The two steps of a commit\<close>

type_synonym commit = "string \<times> string \<times> offset_commit_partition"

fun cm_key :: "commit \<Rightarrow> offsetCacheKey" where
  "cm_key (g, t, p) = commit_key g t p"

fun cm_offset :: "commit \<Rightarrow> int64" where
  "cm_offset (g, t, p) = ocp_CommittedOffset p"

fun commit_log :: "commit \<Rightarrow> ('c, 'h) handler \<Rightarrow> bool \<times> ('c, 'h) handler" where
  "commit_log (g, t, p) h =
     (case get_partition ConsumerOffsetsTopic 0 h of
        (Inl e, h1) \<Rightarrow> (False, h1)
      | (Inr k, h1) \<Rightarrow>
          (case append_to k (commit_record g t p) h1 of
             (Inl e, h2) \<Rightarrow> (False, h2)
           | (Inr offset, h2) \<Rightarrow> (True, h2)))"

definition cached :: "commit \<Rightarrow> (offsetCacheKey \<rightharpoonup> int64) \<Rightarrow> offsetCacheKey \<rightharpoonup> int64" where
  "cached c m = m(cm_key c \<mapsto> cm_offset c)"

definition commit_cache :: "commit \<Rightarrow> ('c, 'h) handler \<Rightarrow> ('c, 'h) handler" where
  "commit_cache c h = h\<lparr>hn_offsetCache := cached c (hn_offsetCache h)\<rparr>"

text \<open>A commit that is not interrupted is the handler's step.\<close>

lemma commit_phases:
  "commit_partition_step g t p h =
     (case commit_log (g, t, p) h of
        (True, h1) \<Rightarrow> (Inr (ocp_Partition p, 0), commit_cache (g, t, p) h1)
      | (False, h1) \<Rightarrow> (Inr (ocp_Partition p, 1), h1))"
  by (auto simp: commit_partition_step_def Let_def commit_record_def commit_cache_def cached_def commit_key_def
      split: prod.split sum.split)

section \<open>Interleavings\<close>

text \<open>
  \<open>Log c\<close> is the append of a commit, \<open>Cache i\<close> the update of the cache for the commit at
  position \<open>i\<close> of those under way, which are kept in the order of their appends.  Looking the
  partition up and appending to it count as one step.
\<close>

datatype event = Log commit | Cache nat

fun run_event :: "event \<Rightarrow> ('c, 'h) handler \<times> commit list \<Rightarrow> ('c, 'h) handler \<times> commit list" where
  "run_event (Log c) (h, P) = (case commit_log c h of (True, h1) \<Rightarrow> (h1, P @ [c]) | (False, h1) \<Rightarrow> (h1, P))"
| "run_event (Cache i) (h, P) = (if i < length P then (commit_cache (P ! i) h, take i P @ drop (Suc i) P) else (h, P))"

definition run_events :: "event list \<Rightarrow> ('c, 'h) handler \<times> commit list \<Rightarrow> ('c, 'h) handler \<times> commit list" where
  "run_events es s = fold run_event es s"

text \<open>No commit starts while another one for its key is under way.\<close>

fun no_overlap :: "event list \<Rightarrow> commit list \<Rightarrow> bool" where
  "no_overlap [] P = True"
| "no_overlap (Log c # es) P \<longleftrightarrow> cm_key c \<notin> cm_key ` set P \<and> no_overlap es (P @ [c])"
| "no_overlap (Cache i # es) P \<longleftrightarrow> no_overlap es (if i < length P then take i P @ drop (Suc i) P else P)"

text \<open>The commits under way after the events, when every append succeeds.\<close>

fun under_way :: "event list \<Rightarrow> commit list \<Rightarrow> commit list" where
  "under_way [] P = P"
| "under_way (Log c # es) P = under_way es (P @ [c])"
| "under_way (Cache i # es) P = under_way es (if i < length P then take i P @ drop (Suc i) P else P)"

primrec logged :: "event list \<Rightarrow> commit list" where
  "logged [] = []"
| "logged (e # es) = (case e of Log c \<Rightarrow> c # logged es | Cache i \<Rightarrow> logged es)"

fun commit_cost_of :: "commit \<Rightarrow> int" where
  "commit_cost_of (g, t, p) = commit_cost g t p"

fun commit_names_ok :: "commit \<Rightarrow> bool" where
  "commit_names_ok (g, t, p) \<longleftrightarrow> names_ok g t"

fun spec_commit_of :: "int \<Rightarrow> commit \<Rightarrow> abs_broker \<Rightarrow> abs_broker" where
  "spec_commit_of mx (g, t, p) B = snd (spec_commit mx g t p B)"

lemma spec_commit_offsets:
  "ab_offsets (spec_commit_of mx c B) = cached c (ab_offsets B)" "ab_gone (spec_commit_of mx c B) = ab_gone B"
  by (cases c; simp add: spec_commit_def spec_append_def spec_create_def cached_def case_prod_beta)+

text \<open>The state as it will be when the commits under way have reached the cache.\<close>

definition settled :: "('c, 'h) handler \<times> commit list \<Rightarrow> ('c, 'h) handler" where
  "settled s = (fst s)\<lparr>hn_offsetCache := fold cached (snd s) (hn_offsetCache (fst s))\<rparr>"

lemma cached_commute: "cm_key c \<noteq> cm_key d \<Longrightarrow> cached c (cached d m) = cached d (cached c m)"
  by (simp add: cached_def fun_upd_twist)

lemma cached_fold: "cm_key c \<notin> cm_key ` set cs \<Longrightarrow> fold cached cs (cached c m) = cached c (fold cached cs m)"
proof (induction cs arbitrary: m)
  case (Cons d cs)
  then have "cm_key c \<noteq> cm_key d" "cm_key c \<notin> cm_key ` set cs" by auto
  then show ?case using Cons.IH [of "cached d m"] by (simp add: cached_commute)
qed simp

lemma settled_cache:
  assumes "distinct (map cm_key P)" and "i < length P"
  shows "settled (commit_cache (P ! i) h, take i P @ drop (Suc i) P) = settled (h, P)"
proof -
  have P: "P = take i P @ P ! i # drop (Suc i) P" using assms(2) by (rule id_take_nth_drop)
  then have "distinct (map cm_key (take i P @ P ! i # drop (Suc i) P))" using assms(1) by simp
  then have "cm_key (P ! i) \<notin> cm_key ` set (take i P)" by auto
  then have "fold cached (take i P @ drop (Suc i) P) (cached (P ! i) m) = fold cached (take i P @ P ! i # drop (Suc i) P) m" for m
    by (simp add: cached_fold)
  then show ?thesis using P by (simp add: settled_def commit_cache_def)
qed

text \<open>The append does not look at the cache.\<close>

lemma commit_log_cache:
  "commit_log c (h\<lparr>hn_offsetCache := m\<rparr>) = map_prod id (\<lambda>h1. h1\<lparr>hn_offsetCache := m\<rparr>) (commit_log c h)"
  "hn_offsetCache (snd (commit_log c h)) = hn_offsetCache h"
proof -
  obtain g t p where c: "c = (g, t, p)" by (cases c)
  show "commit_log c (h\<lparr>hn_offsetCache := m\<rparr>) = map_prod id (\<lambda>h1. h1\<lparr>hn_offsetCache := m\<rparr>) (commit_log c h)"
    "hn_offsetCache (snd (commit_log c h)) = hn_offsetCache h"
    by (auto simp: c get_partition_def append_to_def split: prod.split sum.split)
qed

lemma log_settled:
  assumes "commit_names_ok c" and "0 \<le> n" and "serves_offsets mx (commit_cost_of c + n) (settled (h, P)) B"
  shows "\<exists>h1. commit_log c h = (True, h1) \<and> serves_offsets mx n (settled (h1, P @ [c])) (spec_commit_of mx c B)"
proof -
  obtain g t p where c: "c = (g, t, p)" by (cases c)
  let ?m = "fold cached P (hn_offsetCache h)"
  obtain h' where S: "commit_partition_step g t p (settled (h, P)) = (Inr (fst (spec_commit mx g t p B)), h')"
    "serves_offsets mx n h' (snd (spec_commit mx g t p B))"
    using commit_step_ok [of g t n mx p "settled (h, P)" B] assms unfolding c by auto
  have code: "fst (spec_commit mx g t p B) = (ocp_Partition p, 0)" by (simp add: spec_commit_def case_prod_beta)
  obtain b h1 where L: "commit_log c h = (b, h1)" by fastforce
  then have "commit_log c (settled (h, P)) = (b, h1\<lparr>hn_offsetCache := ?m\<rparr>)"
    by (simp add: settled_def commit_log_cache(1))
  then have "b" "h' = commit_cache c (h1\<lparr>hn_offsetCache := ?m\<rparr>)"
    using S(1) unfolding commit_phases c code by (auto split: bool.splits)
  moreover have "hn_offsetCache h1 = hn_offsetCache h" using commit_log_cache(2) [of c h] L by simp
  ultimately show ?thesis using L S(2) by (simp add: settled_def commit_cache_def c)
qed

lemma settled_idle: "settled (h, []) = h"
  by (simp add: settled_def)

lemma distinct_drop_nth:
  assumes "distinct (map f P)"
  shows "distinct (map f (if i < length P then take i P @ drop (Suc i) P else P))"
proof (cases "i < length P")
  case True
  have "distinct (map f (take i P @ P ! i # drop (Suc i) P))"
    using assms id_take_nth_drop [OF True] by simp
  then show ?thesis using True by simp
qed (use assms in simp)

lemma commit_cost_nonneg: "0 \<le> sum_list (map commit_cost_of cs)"
proof -
  have "0 \<le> commit_cost_of d" for d by (cases d) (simp add: commit_cost_def)
  then show ?thesis by (intro sum_list_nonneg) auto
qed

text \<open>Every event sequence without overlap: the settled state is the one of the commits in order.\<close>

lemma run_settled:
  assumes "no_overlap es P" and "distinct (map cm_key P)" and "list_all commit_names_ok (logged es)" and "0 \<le> n"
    and "serves_offsets mx (sum_list (map commit_cost_of (logged es)) + n) (settled (h, P)) B"
  shows "\<exists>h'. run_events es (h, P) = (h', under_way es P) \<and>
    serves_offsets mx n (settled (h', under_way es P)) (fold (spec_commit_of mx) (logged es) B)"
  using assms
proof (induction es arbitrary: h P B)
  case Nil
  then show ?case by (simp add: run_events_def)
next
  case (Cons e es)
  let ?n = "sum_list (map commit_cost_of (logged es)) + n"
  show ?case
  proof (cases e)
    case (Log c)
    have "0 \<le> ?n" using commit_cost_nonneg [of "logged es"] Cons.prems(4) by simp
    then obtain h1 where L: "commit_log c h = (True, h1)"
      "serves_offsets mx ?n (settled (h1, P @ [c])) (spec_commit_of mx c B)"
      using log_settled [of c ?n mx h P B] Cons.prems(3,5) Log by (auto simp: add.assoc)
    have "no_overlap es (P @ [c])" "distinct (map cm_key (P @ [c]))" "list_all commit_names_ok (logged es)"
      using Cons.prems(1,2,3) Log by auto
    from Cons.IH [OF this Cons.prems(4) L(2)] show ?thesis using Log L(1) by (simp add: run_events_def)
  next
    case (Cache i)
    let ?P = "if i < length P then take i P @ drop (Suc i) P else P"
    obtain h1 where R: "run_event e (h, P) = (h1, ?P)" "settled (h1, ?P) = settled (h, P)"
      using Cache settled_cache [OF Cons.prems(2)] by (cases "i < length P") auto
    have "no_overlap es ?P" "list_all commit_names_ok (logged es)" "serves_offsets mx ?n (settled (h1, ?P)) B"
      using Cons.prems(1,3,5) Cache R(2) by simp_all
    from Cons.IH [OF this(1) distinct_drop_nth [OF Cons.prems(2)] this(2) Cons.prems(4) this(3)]
    show ?thesis using Cache R(1) by (simp add: run_events_def)
  qed
qed

text \<open>
  C14: (Concurrent commits) Whatever the interleaving of the appends and cache updates of offset
  commits on different connections, as long as no two commits for the same group, topic and
  partition overlap and the log has room: every append succeeds, and once every commit has
  reached the cache the broker is in the state that the commits have one after the other, in
  the order of their appends; in particular its cache is the one a restart loads.
\<close>

theorem commits_linearize:
  assumes "no_overlap es []" and "under_way es [] = []" and "list_all commit_names_ok (logged es)" and "0 \<le> n"
    and "serves_offsets mx (sum_list (map commit_cost_of (logged es)) + n) h B"
  shows "\<exists>h'. run_events es (h, []) = (h', []) \<and> serves_offsets mx n h' (fold (spec_commit_of mx) (logged es) B)"
  using run_settled [of es "[]" n mx h B] assms by (simp add: settled_idle)

definition sample_commits :: "int32 \<Rightarrow> int64 \<Rightarrow> event list" where
  "sample_commits p off =
     [Log (''g'', ''t'', sample_commit_part),
      Log (''g'', ''t'', \<lparr>ocp_CommittedOffset = off, ocp_CommittedMetadata = ''m'', ocp_Partition = p\<rparr>),
      Cache 1, Cache 0]"

lemma sample_room: "serves_offsets 1024 60 sample_handler empty_broker"
  using sample_serves [of 60] by (simp add: serves_offsets_def durable_def empty_broker_def)

theorem commits_linearize_witness:
  "\<exists>h'. run_events (sample_commits 1 7) (sample_handler, []) = (h', []) \<and>
     hn_offsetCache h' sample_cache_key = Some 42 \<and> hn_offsetCache h' (sample_cache_key\<lparr>ock_Partition := 1\<rparr>) = Some 7"
proof -
  have "serves_offsets 1024 (sum_list (map commit_cost_of (logged (sample_commits 1 7))) + 0) sample_handler empty_broker"
    using sample_room by (simp add: sample_commits_def commit_cost_def length_commit_record)
  then obtain h' where H: "run_events (sample_commits 1 7) (sample_handler, []) = (h', [])"
    "serves_offsets 1024 0 h' (fold (spec_commit_of 1024) (logged (sample_commits 1 7)) empty_broker)"
    using commits_linearize [of "sample_commits 1 7" 0 1024 sample_handler empty_broker]
    by (auto simp: sample_commits_def commit_key_def sample_commit_part_def names_ok_def)
  then have "hn_offsetCache h' = ab_offsets (fold (spec_commit_of 1024) (logged (sample_commits 1 7)) empty_broker)"
    unfolding serves_offsets_def by (blast intro: servesD(2))
  then show ?thesis using H(1)
    by (simp add: sample_commits_def spec_commit_offsets cached_def commit_key_def sample_cache_key_def
        sample_commit_part_def del: spec_commit_of.simps)
qed

section \<open>Commits for the same key\<close>

text \<open>
  Without the condition on overlaps the cache and the log part ways: two commits for one key
  that append in one order and reach the cache in the other leave the older offset in the
  cache, while the log, and so a restart, gives the newer one.
\<close>

theorem overlap_stale:
  assumes "commit_names_ok a" and "commit_names_ok b" and "cm_key a = cm_key b" and "0 \<le> n"
    and "serves_offsets mx (commit_cost_of a + (commit_cost_of b + n)) h B"
  shows "\<exists>h' cur. run_events [Log a, Log b, Cache 1, Cache 0] (h, []) = (h', []) \<and>
    hn_offsetCache h' (cm_key a) = Some (cm_offset a) \<and>
    bs_inv (ab_gone B) (hn_store h') (hn_disk h') (ab_parts (fold (spec_commit_of mx) [a, b] B)) \<and>
    ab_parts (fold (spec_commit_of mx) [a, b] B) offsets_key = Some ([], cur) \<and>
    replay cur Map.empty (cm_key a) = Some (cm_offset b)"
proof -
  let ?B = "spec_commit_of mx b (spec_commit_of mx a B)"
  have c: "0 \<le> commit_cost_of b + n" using commit_cost_nonneg [of "[b]"] assms(4) by simp
  obtain h1 where A: "commit_log a h = (True, h1)" "serves_offsets mx (commit_cost_of b + n) (settled (h1, [a])) (spec_commit_of mx a B)"
    using log_settled [OF assms(1) c, of mx h "[]" B] assms(5) by (auto simp: settled_idle)
  obtain h2 where C: "commit_log b h1 = (True, h2)" "serves_offsets mx n (settled (h2, [a, b])) ?B"
    using log_settled [OF assms(2,4) A(2)] by auto
  have I: "bs_inv (ab_gone ?B) (hn_store h2) (hn_disk h2) (ab_parts ?B)" and D: "durable ?B"
    using servesD(1) C(2) by (fastforce simp: serves_offsets_def settled_def)+
  obtain g t p where b: "b = (g, t, p)" by (cases b)
  have off: "ab_offsets ?B (cm_key a) = Some (cm_offset b)"
    using assms(3) by (simp add: spec_commit_offsets cached_def)
  have "ab_parts ?B offsets_key \<noteq> None"
    by (simp add: b spec_commit_def spec_append_def case_prod_beta)
  then obtain cur where "ab_parts ?B offsets_key = Some ([], cur)" "replay cur Map.empty (cm_key a) = Some (cm_offset b)"
    using D off by (auto simp: durable_def split: option.splits)
  then show ?thesis using A(1) C(1) I
    by (simp add: run_events_def commit_cache_def cached_def spec_commit_offsets(2))
qed

end
