(* ===== verification/Go_Time.thy ===== *)
theory Go_Time
  imports Go_Strings "HOL-Library.Log_Nat"
begin

text \<open>
  \<open>time.ParseDuration\<close> of the Go library, in nanoseconds: its overflow checks on \<open>uint64\<close>, and
  its use of \<open>float64\<close> for the digits behind a decimal point, with the rounding written out.
\<close>

section \<open>Rounding\<close>

text \<open>
  The double next to the positive fraction \<open>a / b\<close>, ties to even, as a fraction again.  The
  numbers below stay far from the smallest and the largest exponent.
\<close>

definition scaled :: "int \<Rightarrow> nat \<times> nat \<Rightarrow> nat \<times> nat" where
  "scaled s q = (fst q * 2 ^ nat s, snd q * 2 ^ nat (- s))"

definition round_even :: "nat \<times> nat \<Rightarrow> nat" where
  "round_even q =
     (let m = fst q div snd q; r = 2 * (fst q mod snd q)
      in if snd q < r \<or> r = snd q \<and> odd m then m + 1 else m)"

definition float64 :: "nat \<times> nat \<Rightarrow> nat \<times> nat" where
  "float64 q =
     (if fst q = 0 then (0, 1)
      else
        let e = int (floorlog 2 (fst q)) - int (floorlog 2 (snd q));
            n = scaled (53 - e) q;
            s = (if 2 ^ 53 * snd n \<le> fst n then 52 - e else 53 - e)
        in scaled (- s) (round_even (scaled s q), 1))"

text \<open>\<open>uint64(float64(f) * (float64(unit) / scale))\<close>: both the unit and the scale are exact.\<close>

definition fraction_ns :: "nat \<Rightarrow> nat \<Rightarrow> nat \<Rightarrow> nat" where
  "fraction_ns f unit scale =
     (let x = float64 (f, 1); y = float64 (unit, scale); z = float64 (fst x * fst y, snd x * snd y)
      in fst z div snd z)"

section \<open>Parsing\<close>

fun leadingInt :: "int \<Rightarrow> string \<Rightarrow> (int \<times> string) option" where
  "leadingInt x [] = Some (x, [])"
| "leadingInt x (c # s) =
     (if \<not> is_digit c then Some (x, c # s)
      else if 2 ^ 63 div 10 < x then None
      else let y = 10 * x + int (of_char c - 48) in if 2 ^ 63 < y then None else leadingInt y s)"

fun leadingFraction :: "bool \<Rightarrow> nat \<Rightarrow> nat \<Rightarrow> string \<Rightarrow> nat \<times> nat \<times> string" where
  "leadingFraction overflow x scale [] = (x, scale, [])"
| "leadingFraction overflow x scale (c # s) =
     (if \<not> is_digit c then (x, scale, c # s)
      else if overflow \<or> (2 ^ 63 - 1) div 10 < x then leadingFraction True x scale s
      else
        let y = 10 * x + (of_char c - 48)
        in if 2 ^ 63 < y then leadingFraction True x scale s else leadingFraction False y (10 * scale) s)"

definition unit_char :: "char \<Rightarrow> bool" where
  "unit_char c \<longleftrightarrow> c \<noteq> CHR ''.'' \<and> \<not> is_digit c"

text \<open>The micro sign and the Greek letter mu stand in their UTF-8 encodings.\<close>

definition unitMap :: "string \<rightharpoonup> int" where
  "unitMap = map_of
     [(''ns'', 1), (''us'', 10 ^ 3), ([CHR 0xC2, CHR 0xB5, CHR ''s''], 10 ^ 3), ([CHR 0xCE, CHR 0xBC, CHR ''s''], 10 ^ 3),
      (''ms'', 10 ^ 6), (''s'', 10 ^ 9), (''m'', 60 * 10 ^ 9), (''h'', 3600 * 10 ^ 9)]"

definition invalid_duration :: "string \<Rightarrow> goerr" where
  "invalid_duration orig = Errorf ''time: invalid duration %q'' [ArgStr orig]"

text \<open>One number with its unit.\<close>

definition term_value :: "string \<Rightarrow> string \<Rightarrow> int \<Rightarrow> nat \<Rightarrow> nat \<Rightarrow> goerr + int" where
  "term_value orig u v f scale =
     (case unitMap u of
        None \<Rightarrow> Inl (Errorf ''time: unknown unit %q in duration %q'' [ArgStr u, ArgStr orig])
      | Some k \<Rightarrow>
          if 2 ^ 63 div k < v then Inl (invalid_duration orig)
          else if f = 0 then Inr (v * k)
          else if 2 ^ 63 < v * k + int (fraction_ns f (nat k) scale) then Inl (invalid_duration orig)
          else Inr (v * k + int (fraction_ns f (nat k) scale)))"

definition duration_term :: "string \<Rightarrow> string \<Rightarrow> goerr + int \<times> string" where
  "duration_term orig s =
     (if unit_char (hd s) then Inl (invalid_duration orig)
      else case leadingInt 0 s of
             None \<Rightarrow> Inl (invalid_duration orig)
           | Some (v, s1) \<Rightarrow>
               let dot = (s1 \<noteq> [] \<and> hd s1 = CHR ''.'');
                   frac = (if dot then leadingFraction False 0 1 (tl s1) else (0, 1, s1));
                   s2 = snd (snd frac);
                   pre = (length s1 \<noteq> length s);
                   post = (dot \<and> length s2 \<noteq> length (tl s1));
                   u = takeWhile unit_char s2
               in if \<not> pre \<and> \<not> post then Inl (invalid_duration orig)
                  else if u = [] then Inl (Errorf ''time: missing unit in duration %q'' [ArgStr orig])
                  else map_sum id (\<lambda>v2. (v2, dropWhile unit_char s2))
                         (term_value orig u v (fst frac) (fst (snd frac))))"

lemma leadingInt_rest: "leadingInt x s = Some (v, r) \<Longrightarrow> length r \<le> length s"
  by (induction x s rule: leadingInt.induct) (auto simp: Let_def le_Suc_eq split: if_splits)

lemma leadingFraction_rest: "length (snd (snd (leadingFraction b x scale s))) \<le> length s"
  by (induction b x scale s rule: leadingFraction.induct) (auto simp: Let_def le_Suc_eq)

lemma duration_term_rest:
  assumes "duration_term orig s = Inr (v, r)"
  shows "length r < length s"
proof -
  obtain w s1 where s1: "leadingInt 0 s = Some (w, s1)"
    using assms by (auto simp: duration_term_def split: if_splits option.splits)
  define s2 where "s2 = snd (snd (if s1 \<noteq> [] \<and> hd s1 = CHR ''.'' then leadingFraction False 0 1 (tl s1) else (0, 1, s1)))"
  have u: "takeWhile unit_char s2 \<noteq> []" "r = dropWhile unit_char s2"
    using assms s1 by (auto simp: duration_term_def Let_def s2_def map_sum_def split: if_splits sum.splits)
  have "length s2 \<le> length s1" using leadingFraction_rest [of False 0 1 "tl s1"] by (auto simp: s2_def)
  moreover have "length r < length s2"
    using u takeWhile_dropWhile_id [of unit_char s2] by (metis append_Nil length_append less_add_same_cancel2 length_greater_0_conv)
  ultimately show ?thesis using leadingInt_rest [OF s1] by simp
qed

text \<open>The sum of the terms.  The addition is one of \<open>uint64\<close>.\<close>

function duration_sum :: "string \<Rightarrow> int \<Rightarrow> string \<Rightarrow> goerr + int" where
  "duration_sum orig d s =
     (if s = [] then Inr d
      else case duration_term orig s of
             Inl e \<Rightarrow> Inl e
           | Inr (v, rest) \<Rightarrow>
               let d1 = (d + v) mod 2 ^ 64
               in if 2 ^ 63 < d1 then Inl (invalid_duration orig) else duration_sum orig d1 rest)"
  by pat_completeness auto

termination
  by (relation "measure (\<lambda>(orig, d, s). length s)") (auto dest: duration_term_rest)

declare duration_sum.simps [simp del]

definition ParseDuration :: "string \<Rightarrow> goerr + int" where
  "ParseDuration orig =
     (let neg = (orig \<noteq> [] \<and> hd orig = CHR ''-'');
          s = (if orig \<noteq> [] \<and> (hd orig = CHR ''-'' \<or> hd orig = CHR ''+'') then tl orig else orig)
      in if s = ''0'' then Inr 0
         else if s = [] then Inl (invalid_duration orig)
         else case duration_sum orig 0 s of
                Inl e \<Rightarrow> Inl e
              | Inr d \<Rightarrow>
                  if neg then Inr (- d)
                  else if 2 ^ 63 - 1 < d then Inl (invalid_duration orig)
                  else Inr d)"

section \<open>Laws\<close>

lemma duration_sum_bound:
  "0 \<le> d \<and> d \<le> 2 ^ 63 \<Longrightarrow> duration_sum orig d s = Inr d' \<Longrightarrow> 0 \<le> d' \<and> d' \<le> 2 ^ 63"
proof (induction orig d s rule: duration_sum.induct)
  case (1 orig d s)
  show ?case
  proof (cases "s = []")
    case True
    then show ?thesis using 1(2,3) by (simp add: duration_sum.simps)
  next
    case False
    then obtain v rest where T: "duration_term orig s = Inr (v, rest)" "0 \<le> (d + v) mod 2 ^ 64 \<and> (d + v) mod 2 ^ 64 \<le> 2 ^ 63"
        "duration_sum orig ((d + v) mod 2 ^ 64) rest = Inr d'"
      using 1(3) by (subst (asm) duration_sum.simps) (auto simp: Let_def not_less split: if_splits sum.splits)
    from T(2) have "\<not> 2 ^ 63 < (d + v) mod 2 ^ 64" by simp
    from 1(1) [OF False T(1) _ refl this T(2,3)] show ?thesis by simp
  qed
qed

lemma ParseDuration_range:
  assumes "ParseDuration s = Inr d"
  shows "- (2 ^ 63) \<le> d" "d < 2 ^ 63"
proof -
  have "- (2 ^ 63) \<le> d \<and> d < 2 ^ 63"
    using assms by (auto simp: ParseDuration_def Let_def dest!: duration_sum_bound [rotated] split: if_splits sum.splits)
  then show "- (2 ^ 63) \<le> d" "d < 2 ^ 63" by simp_all
qed

lemma digits_foldl_le: "x \<le> foldl (\<lambda>n c. 10 * n + (of_char c - 48)) x ds" for x :: nat
proof (induction ds arbitrary: x)
  case (Cons c ds)
  have "x \<le> 10 * x + (of_char c - 48)" by simp
  also have "\<dots> \<le> foldl (\<lambda>n c. 10 * n + (of_char c - 48)) (10 * x + (of_char c - 48)) ds" by (rule Cons)
  finally show ?case by simp
qed simp

lemma leadingInt_digits:
  assumes "list_all is_digit ds" and "rest = [] \<or> \<not> is_digit (hd rest)"
    and "foldl (\<lambda>n c. 10 * n + (of_char c - 48)) x ds \<le> 2 ^ 63"
  shows "leadingInt (int x) (ds @ rest) = Some (int (foldl (\<lambda>n c. 10 * n + (of_char c - 48)) x ds), rest)"
  using assms
proof (induction ds arbitrary: x)
  case Nil
  then show ?case by (cases rest) auto
next
  case (Cons c ds)
  let ?y = "10 * x + (of_char c - 48)"
  have y: "?y \<le> 2 ^ 63" using digits_foldl_le [of ?y ds] Cons.prems(3) by simp
  have "leadingInt (int ?y) (ds @ rest) = Some (int (foldl (\<lambda>n c. 10 * n + (of_char c - 48)) ?y ds), rest)"
    by (rule Cons.IH) (use Cons.prems in simp_all)
  moreover have "int ?y \<le> 2 ^ 63" "int x \<le> 2 ^ 63 div 10" using y by simp_all
  ultimately show ?case using Cons.prems(1) by (simp add: Let_def)
qed

text \<open>A number of nanoseconds, written with its unit, parses to itself.\<close>

lemma ParseDuration_ns:
  assumes "n < 2 ^ 63"
  shows "ParseDuration (dec_nat n @ ''ns'') = Inr (int n)"
proof -
  let ?s = "dec_nat n @ ''ns''"
  obtain c cs where c: "dec_nat n = c # cs" using dec_nat_digits(1) [of n] by (cases "dec_nat n") auto
  then have d: "is_digit c" using dec_nat_digits(2) [of n] by simp
  then have nos: "c \<noteq> CHR ''-''" "c \<noteq> CHR ''+''" using digit_not_sign by blast+
  have L: "leadingInt 0 ?s = Some (int n, ''ns'')"
    using leadingInt_digits [of "dec_nat n" "''ns''" 0] dec_nat_digits(2) [of n] digits_value_dec_nat [of n] assms
    by (simp add: digits_value_def is_digit_def)
  have U: "takeWhile unit_char ''ns'' = ''ns''" "dropWhile unit_char ''ns'' = []" "unitMap ''ns'' = Some 1"
    by (simp_all add: unit_char_def is_digit_def unitMap_def)
  have "duration_term ?s ?s = Inr (int n, [])"
    using L U c d assms by (simp add: duration_term_def term_value_def unit_char_def)
  then have "duration_sum ?s 0 ?s = Inr (int n)"
    using c assms by (subst duration_sum.simps) (simp add: duration_sum.simps)
  then show ?thesis
    using c nos assms by (simp add: ParseDuration_def)
qed

end
