(* ===== verification/Config.thy ===== *)
theory Config
  imports Codec Go_Time
begin

text \<open>
  \<open>internal/config/config.go\<close>: the built-in defaults, the parser of the flat YAML file, the
  environment variables and the validation.  The file is what \<open>os.Open\<close> gives: nothing, or a
  reader.  Durations are in nanoseconds.
\<close>

section \<open>Go library\<close>

text \<open>The encodings of the characters that \<open>unicode.IsSpace\<close> accepts.\<close>

definition spaces :: "string list" where
  "spaces =
     [[CHR 0x09], [CHR 0x0A], [CHR 0x0B], [CHR 0x0C], [CHR 0x0D], [CHR 0x20], [CHR 0xC2, CHR 0x85], [CHR 0xC2, CHR 0xA0],
      [CHR 0xE1, CHR 0x9A, CHR 0x80], [CHR 0xE2, CHR 0x80, CHR 0xA8], [CHR 0xE2, CHR 0x80, CHR 0xA9],
      [CHR 0xE2, CHR 0x80, CHR 0xAF], [CHR 0xE2, CHR 0x81, CHR 0x9F], [CHR 0xE3, CHR 0x80, CHR 0x80],
      [CHR 0xE2, CHR 0x80, CHR 0x80], [CHR 0xE2, CHR 0x80, CHR 0x81], [CHR 0xE2, CHR 0x80, CHR 0x82], [CHR 0xE2, CHR 0x80, CHR 0x83],
      [CHR 0xE2, CHR 0x80, CHR 0x84], [CHR 0xE2, CHR 0x80, CHR 0x85], [CHR 0xE2, CHR 0x80, CHR 0x86], [CHR 0xE2, CHR 0x80, CHR 0x87],
      [CHR 0xE2, CHR 0x80, CHR 0x88], [CHR 0xE2, CHR 0x80, CHR 0x89], [CHR 0xE2, CHR 0x80, CHR 0x8A]]"

function trim_left :: "string list \<Rightarrow> string \<Rightarrow> string" where
  "trim_left sps s =
     (case find (\<lambda>p. p \<noteq> [] \<and> take (length p) s = p) sps of
        None \<Rightarrow> s
      | Some p \<Rightarrow> trim_left sps (drop (length p) s))"
  by pat_completeness auto

termination
  by (relation "measure (\<lambda>(sps, s). length s)") (auto simp: find_Some_iff, metis diff_less length_greater_0_conv take_Nil)

declare trim_left.simps [simp del]

definition TrimSpace :: "string \<Rightarrow> string" where
  "TrimSpace s = rev (trim_left (map rev spaces) (rev (trim_left spaces s)))"

definition ToUpper :: "string \<Rightarrow> string" where
  "ToUpper s = map (\<lambda>c. if 97 \<le> (of_char c :: nat) \<and> (of_char c :: nat) \<le> 122 then char_of ((of_char c :: nat) - 32) else c) s"

text \<open>
  \<open>bufio.Scanner\<close> with \<open>bufio.ScanLines\<close>: an empty piece at the end is no line, one carriage
  return is dropped, and a line that does not leave room for its end in the buffer is an error.
\<close>

definition scan_lines :: "string \<Rightarrow> string list" where
  "scan_lines s = (let ps = split_on CHR 0x0A s in if last ps = [] then butlast ps else ps)"

definition dropCR :: "string \<Rightarrow> string" where
  "dropCR s = (if s \<noteq> [] \<and> last s = CHR 0x0D then butlast s else s)"

definition MaxScanTokenSize :: int where
  "MaxScanTokenSize = 64 * 1024"

definition ErrTooLong :: goerr where
  "ErrTooLong = os_error ''bufio.Scanner: token too long''"

section \<open>The configuration\<close>

record config =
  cf_Port :: int
  cf_LogDirectory :: string
  cf_MaxSegmentSize :: int
  cf_WorkerPoolSize :: int
  cf_ShutdownTimeout :: int
  cf_LogRetention :: int

definition defaults :: config where
  "defaults =
     \<lparr>cf_Port = 9092, cf_LogDirectory = ''/data'', cf_MaxSegmentSize = 2 ^ 30, cf_WorkerPoolSize = 10000,
      cf_ShutdownTimeout = 10 * 10 ^ 9, cf_LogRetention = 168 * 3600 * 10 ^ 9\<rparr>"

definition parseInt :: "string \<Rightarrow> int \<Rightarrow> int \<Rightarrow> goerr + int" where
  "parseInt s lo hi =
     (case ParseInt 64 s of
        Inl e \<Rightarrow> Inl (Errorf ''not a valid integer: %q'' [ArgStr s])
      | Inr n \<Rightarrow>
          if n < lo \<or> hi < n then Inl (Errorf ''value %d out of range [%d, %d]'' [ArgInt n, ArgInt lo, ArgInt hi])
          else Inr n)"

definition parse_duration :: "string \<Rightarrow> string \<Rightarrow> goerr + int" where
  "parse_duration negative val =
     (case ParseDuration val of
        Inl e \<Rightarrow> Inl (Wrapf ''invalid duration %q: %w'' [ArgStr val] e)
      | Inr d \<Rightarrow> if d < 0 then Inl (Errorf negative []) else Inr d)"

definition applyField :: "string \<Rightarrow> string \<Rightarrow> config \<Rightarrow> goerr + config" where
  "applyField key val cfg =
     (if key = ''port'' then map_sum id (\<lambda>n. cfg\<lparr>cf_Port := n\<rparr>) (parseInt val 1 65535)
      else if key = ''log_directory''
      then if val = [] then Inl (Errorf ''must not be empty'' []) else Inr (cfg\<lparr>cf_LogDirectory := val\<rparr>)
      else if key = ''max_segment_size''
      then map_sum id (\<lambda>n. cfg\<lparr>cf_MaxSegmentSize := n\<rparr>) (parseInt val 1 (2 ^ 40))
      else if key = ''worker_pool_size''
      then map_sum id (\<lambda>n. cfg\<lparr>cf_WorkerPoolSize := n\<rparr>) (parseInt val 1 (2 ^ 20))
      else if key = ''shutdown_timeout''
      then map_sum id (\<lambda>d. cfg\<lparr>cf_ShutdownTimeout := d\<rparr>)
             (parse_duration ''shutdown_timeout must be non-negative'' val)
      else if key = ''log_retention''
      then map_sum id (\<lambda>d. cfg\<lparr>cf_LogRetention := d\<rparr>)
             (parse_duration ''log_retention must be non-negative'' val)
      else Inr cfg)"

section \<open>The YAML file\<close>

definition unquoted :: "string \<Rightarrow> string" where
  "unquoted val =
     (if 2 \<le> length val \<and>
         (hd val = CHR 0x22 \<and> last val = CHR 0x22 \<or> hd val = CHR 0x27 \<and> last val = CHR 0x27)
      then butlast (tl val) else val)"

definition uncommented :: "string \<Rightarrow> string" where
  "uncommented val =
     (if CHR ''#'' \<in> set val then TrimSpace (takeWhile (\<lambda>c. c \<noteq> CHR ''#'') val) else val)"

text \<open>The key and the value of a line, or nothing for a line that is passed over.\<close>

definition yaml_line :: "string \<Rightarrow> (string \<times> string) option" where
  "yaml_line text =
     (let line = TrimSpace text
      in if line = [] \<or> hd line = CHR ''#'' \<or> CHR '':'' \<notin> set line then None
         else Some (TrimSpace (takeWhile (\<lambda>c. c \<noteq> CHR '':'') line),
                    uncommented (unquoted (TrimSpace (tl (dropWhile (\<lambda>c. c \<noteq> CHR '':'') line))))))"

primrec apply_lines :: "nat \<Rightarrow> string list \<Rightarrow> config \<Rightarrow> goerr + config" where
  "apply_lines lineNo [] cfg = Inr cfg"
| "apply_lines lineNo (raw # rest) cfg =
     (if MaxScanTokenSize \<le> int (length raw) then Inl ErrTooLong
      else case yaml_line (dropCR raw) of
             None \<Rightarrow> apply_lines (lineNo + 1) rest cfg
           | Some (key, val) \<Rightarrow>
               (case applyField key val cfg of
                  Inl e \<Rightarrow> Inl (Wrapf ''line %d (%q): %w'' [ArgInt (int lineNo + 1), ArgStr key] e)
                | Inr cfg1 \<Rightarrow> apply_lines (lineNo + 1) rest cfg1))"

definition parseYAML :: "go_reader \<Rightarrow> config \<Rightarrow> goerr + config" where
  "parseYAML r cfg =
     (case apply_lines 0 (scan_lines (bytes_string (rd_data r))) cfg of
        Inl e \<Rightarrow> Inl e
      | Inr cfg1 \<Rightarrow> if rd_err r = io_EOF then Inr cfg1 else Inl (rd_err r))"

section \<open>The environment\<close>

text \<open>The source ranges over a map; \<open>apply_vars\<close> takes the variables in any order.\<close>

definition env_vars :: "(string \<Rightarrow> string) \<Rightarrow> (string \<times> string) list" where
  "env_vars env =
     [(''port'', env ''KAGE_PORT''), (''log_directory'', env ''KAGE_LOG_DIRECTORY''),
      (''max_segment_size'', env ''KAGE_MAX_SEGMENT_SIZE''), (''worker_pool_size'', env ''KAGE_WORKER_POOL_SIZE''),
      (''shutdown_timeout'', env ''KAGE_SHUTDOWN_TIMEOUT''), (''log_retention'', env ''KAGE_LOG_RETENTION'')]"

fun apply_vars :: "(string \<times> string) list \<Rightarrow> config \<Rightarrow> goerr + config" where
  "apply_vars [] cfg = Inr cfg"
| "apply_vars ((key, val) # vars) cfg =
     (if val = [] then apply_vars vars cfg
      else case applyField key val cfg of
             Inl e \<Rightarrow> Inl (Wrapf ''KAGE_%s=%q: %w'' [ArgStr (ToUpper key), ArgStr val] e)
           | Inr cfg1 \<Rightarrow> apply_vars vars cfg1)"

definition applyEnv :: "(string \<Rightarrow> string) \<Rightarrow> config \<Rightarrow> goerr + config" where
  "applyEnv env = apply_vars (env_vars env)"

section \<open>Loading\<close>

definition validate :: "config \<Rightarrow> goerr option" where
  "validate c =
     (if cf_Port c < 1 \<or> 65535 < cf_Port c then Some (Errorf ''port %d out of range [1, 65535]'' [ArgInt (cf_Port c)])
      else if cf_LogDirectory c = [] then Some (Errorf ''log_directory must not be empty'' [])
      else if cf_MaxSegmentSize c < 1 then Some (Errorf ''max_segment_size must be at least 1'' [])
      else if cf_WorkerPoolSize c < 1 then Some (Errorf ''worker_pool_size must be at least 1'' [])
      else if cf_ShutdownTimeout c < 0 then Some (Errorf ''shutdown_timeout must be non-negative'' [])
      else None)"

definition Load :: "string \<Rightarrow> go_reader option \<Rightarrow> (string \<Rightarrow> string) \<Rightarrow> goerr + config" where
  "Load configFile file env =
     (case (case file of None \<Rightarrow> Inr defaults | Some r \<Rightarrow> parseYAML r defaults) of
        Inl e \<Rightarrow> Inl (Wrapf ''config: parse %s: %w'' [ArgStr configFile] e)
      | Inr cfg \<Rightarrow>
          (case applyEnv env cfg of
             Inl e \<Rightarrow> Inl (Wrapf ''config: env: %w'' [] e)
           | Inr cfg1 \<Rightarrow>
               (case validate cfg1 of
                  Some e \<Rightarrow> Inl (Wrapf ''config: invalid: %w'' [] e)
                | None \<Rightarrow> Inr cfg1)))"

definition Addr :: "config \<Rightarrow> string" where
  "Addr c = ''0.0.0.0:'' @ fmt_d (cf_Port c)"

section \<open>Bounds\<close>

definition config_ok :: "config \<Rightarrow> bool" where
  "config_ok c \<longleftrightarrow>
     1 \<le> cf_Port c \<and> cf_Port c \<le> 65535 \<and> cf_LogDirectory c \<noteq> [] \<and>
     1 \<le> cf_MaxSegmentSize c \<and> cf_MaxSegmentSize c \<le> 2 ^ 40 \<and>
     1 \<le> cf_WorkerPoolSize c \<and> cf_WorkerPoolSize c \<le> 2 ^ 20 \<and>
     0 \<le> cf_ShutdownTimeout c \<and> cf_ShutdownTimeout c < 2 ^ 63 \<and>
     0 \<le> cf_LogRetention c \<and> cf_LogRetention c < 2 ^ 63"

lemma parseInt_range: "parseInt s lo hi = Inr n \<Longrightarrow> lo \<le> n \<and> n \<le> hi"
  by (auto simp: parseInt_def split: sum.splits if_splits)

lemma parse_duration_range: "parse_duration neg s = Inr d \<Longrightarrow> 0 \<le> d \<and> d < 2 ^ 63"
  by (auto simp: parse_duration_def dest: ParseDuration_range split: sum.splits if_splits)

lemma map_sum_Inr: "map_sum id f x = Inr y \<longleftrightarrow> (\<exists>z. x = Inr z \<and> y = f z)"
  by (cases x) auto

lemma applyField_ok:
  assumes "applyField key val cfg = Inr cfg'" and "config_ok cfg"
  shows "config_ok cfg'"
  using assms
  by (auto simp: applyField_def map_sum_Inr config_ok_def dest!: parseInt_range parse_duration_range split: if_splits)

end
