(* ===== verification/Config_Laws.thy ===== *)
theory Config_Laws
  imports Config "HOL-Library.Multiset"
begin

text \<open>
  What loading the configuration guarantees: the bounds of a loaded configuration, which source
  a value comes from, that the order in which the environment is read does not matter, and that
  a file that sets every key determines the configuration.
\<close>

section \<open>Updates of one field\<close>

definition field_update :: "string \<Rightarrow> string \<Rightarrow> goerr + (config \<Rightarrow> config)" where
  "field_update key val =
     (if key = ''port'' then map_sum id (\<lambda>n. cf_Port_update (\<lambda>_. n)) (parseInt val 1 65535)
      else if key = ''log_directory''
      then if val = [] then Inl (Errorf ''must not be empty'' []) else Inr (cf_LogDirectory_update (\<lambda>_. val))
      else if key = ''max_segment_size''
      then map_sum id (\<lambda>n. cf_MaxSegmentSize_update (\<lambda>_. n)) (parseInt val 1 (2 ^ 40))
      else if key = ''worker_pool_size''
      then map_sum id (\<lambda>n. cf_WorkerPoolSize_update (\<lambda>_. n)) (parseInt val 1 (2 ^ 20))
      else if key = ''shutdown_timeout''
      then map_sum id (\<lambda>d. cf_ShutdownTimeout_update (\<lambda>_. d))
             (parse_duration ''shutdown_timeout must be non-negative'' val)
      else if key = ''log_retention''
      then map_sum id (\<lambda>d. cf_LogRetention_update (\<lambda>_. d))
             (parse_duration ''log_retention must be non-negative'' val)
      else Inr id)"

lemma applyField_update: "applyField key val cfg = map_sum id (\<lambda>u. u cfg) (field_update key val)"
  by (simp add: applyField_def field_update_def sum.map_comp comp_def id_def)

lemma field_update_commute:
  assumes "field_update k v = Inr u" and "field_update k' v' = Inr u'" and "k \<noteq> k'"
  shows "u (u' c) = u' (u c)"
  using assms by (auto simp: field_update_def map_sum_Inr split: if_splits)

definition var_ok :: "string \<times> string \<Rightarrow> bool" where
  "var_ok kv \<longleftrightarrow> snd kv = [] \<or> (\<exists>u. field_update (fst kv) (snd kv) = Inr u)"

definition var_step :: "string \<times> string \<Rightarrow> config \<Rightarrow> config" where
  "var_step kv = (if snd kv = [] then id else case field_update (fst kv) (snd kv) of Inl e \<Rightarrow> id | Inr u \<Rightarrow> u)"

lemma apply_vars_fold:
  "apply_vars vars cfg = Inr c \<longleftrightarrow> list_all var_ok vars \<and> c = fold var_step vars cfg"
proof (induction vars arbitrary: cfg)
  case (Cons kv vars)
  obtain k v where kv: "kv = (k, v)" by (cases kv)
  show ?case
  proof (cases "field_update k v")
    case (Inl e)
    then show ?thesis using Cons kv by (simp add: applyField_update var_ok_def var_step_def)
  next
    case (Inr u)
    then show ?thesis using Cons kv by (simp add: applyField_update var_ok_def var_step_def)
  qed
qed auto

lemma apply_vars_order:
  assumes "distinct (map fst vars)" and "mset vars' = mset vars"
  shows "apply_vars vars' cfg = Inr c \<longleftrightarrow> apply_vars vars cfg = Inr c"
proof -
  have "var_step x \<circ> var_step y = var_step y \<circ> var_step x" if "x \<in> set vars" "y \<in> set vars" for x y
  proof (cases "x = y")
    case False
    then have "fst x \<noteq> fst y" using that assms(1) by (metis eq_key_imp_eq_value prod.collapse)
    then show ?thesis
      using field_update_commute by (auto simp: var_step_def fun_eq_iff split: sum.split)
  qed simp
  then have "fold var_step vars = fold var_step vars'" by (rule fold_multiset_equiv) (use assms in auto)
  moreover have "list_all var_ok vars' \<longleftrightarrow> list_all var_ok vars"
    using assms(2) by (metis list_all_iff mset_eq_setD)
  ultimately show ?thesis by (simp add: apply_vars_fold)
qed

section \<open>Bounds\<close>

lemma apply_lines_ok: "apply_lines n ls cfg = Inr cfg' \<Longrightarrow> config_ok cfg \<Longrightarrow> config_ok cfg'"
  by (induction ls arbitrary: n cfg) (auto split: if_splits option.splits sum.splits, metis applyField_ok)

lemma apply_vars_ok: "apply_vars vars cfg = Inr cfg' \<Longrightarrow> config_ok cfg \<Longrightarrow> config_ok cfg'"
  by (induction vars cfg rule: apply_vars.induct) (auto dest: applyField_ok split: if_splits sum.splits)

lemma LoadD:
  assumes "Load configFile file env = Inr cfg"
  obtains base where "(case file of None \<Rightarrow> Inr defaults | Some r \<Rightarrow> parseYAML r defaults) = Inr base"
    "apply_vars (env_vars env) base = Inr cfg"
  using assms by (auto simp: Load_def applyEnv_def split: sum.splits option.splits)

lemma Load_ok:
  assumes "Load configFile file env = Inr cfg"
  shows "config_ok cfg"
proof (rule LoadD [OF assms])
  fix base
  assume B: "(case file of None \<Rightarrow> Inr defaults | Some r \<Rightarrow> parseYAML r defaults) = Inr base"
    "apply_vars (env_vars env) base = Inr cfg"
  have "config_ok defaults" by (simp add: config_ok_def defaults_def)
  then have "config_ok base" using B(1) by (auto simp: parseYAML_def dest: apply_lines_ok split: option.splits sum.splits if_splits)
  then show ?thesis by (rule apply_vars_ok [OF B(2)])
qed

text \<open>
  C25: (Bounds) A configuration that \<open>Load\<close> returns, from any file and any environment, is
  within its bounds: a port in 1 to 65535, a directory, a segment size of 1 byte to 1 TiB, a
  pool of 1 to 2^20 workers and durations that are not negative.  The bounds that \<open>validate\<close>
  does not check are those of the fields.
\<close>

theorem Load_bounds:
  assumes "Load configFile file env = Inr cfg"
  shows "1 \<le> cf_Port cfg \<and> cf_Port cfg \<le> 65535 \<and> cf_LogDirectory cfg \<noteq> [] \<and>
     1 \<le> cf_MaxSegmentSize cfg \<and> cf_MaxSegmentSize cfg \<le> 2 ^ 40 \<and>
     1 \<le> cf_WorkerPoolSize cfg \<and> cf_WorkerPoolSize cfg \<le> 2 ^ 20 \<and>
     0 \<le> cf_ShutdownTimeout cfg \<and> cf_ShutdownTimeout cfg < 2 ^ 63 \<and>
     0 \<le> cf_LogRetention cfg \<and> cf_LogRetention cfg < 2 ^ 63"
  using Load_ok [OF assms] unfolding config_ok_def .

text \<open>A file with a comment, a quoted value and an unknown key, and one variable that is set.\<close>

definition sample_text :: "string list" where
  "sample_text = [''# kage'', ''port: 80  # public'',
     ''log_directory: '' @ [CHR 0x22] @ ''/var/kage'' @ [CHR 0x22, CHR 0x0D], ''colour: red'', ''log_retention: 1h'']"

definition sample_file :: go_reader where
  "sample_file = \<lparr>rd_data = string_bytes (join_with CHR 0x0A sample_text), rd_err = io_EOF\<rparr>"

definition sample_env :: "string \<Rightarrow> string" where
  "sample_env = (\<lambda>_. [])(''KAGE_PORT'' := ''81'')"

definition sample_config :: config where
  "sample_config = defaults\<lparr>cf_Port := 81, cf_LogDirectory := ''/var/kage'', cf_LogRetention := 3600 * 10 ^ 9\<rparr>"

lemma sample_lines:
  "yaml_line (dropCR ''# kage'') = None"
  "yaml_line (dropCR ''port: 80  # public'') = Some (''port'', ''80'')"
  "yaml_line (dropCR (''log_directory: '' @ [CHR 0x22] @ ''/var/kage'' @ [CHR 0x22, CHR 0x0D])) = Some (''log_directory'', ''/var/kage'')"
  "yaml_line (dropCR ''colour: red'') = Some (''colour'', ''red'')"
  "yaml_line (dropCR ''log_retention: 1h'') = Some (''log_retention'', ''1h'')"
  by code_simp+

lemma sample_values:
  "parseInt ''80'' 1 65535 = Inr 80" "parseInt ''81'' 1 65535 = Inr 81"
  "parse_duration neg ''1h'' = Inr 3600000000000"
proof -
  show "parseInt ''80'' 1 65535 = Inr 80" "parseInt ''81'' 1 65535 = Inr 81" by code_simp+
  have "ParseDuration ''1h'' = Inr 3600000000000" by code_simp
  then show "parse_duration neg ''1h'' = Inr 3600000000000" by (simp add: parse_duration_def)
qed

lemma scan_join:
  assumes "ls \<noteq> []" and "last ls \<noteq> []" and "list_all (\<lambda>l. CHR 0x0A \<notin> set l) ls"
  shows "scan_lines (join_with CHR 0x0A ls) = ls"
  using split_on_join [OF assms(1,3)] assms(2) by (simp add: scan_lines_def)

lemma sample_Load: "Load ''kage.yaml'' (Some sample_file) sample_env = Inr sample_config"
proof -
  have "scan_lines (join_with CHR 0x0A sample_text) = sample_text"
    by (rule scan_join) (simp_all add: sample_text_def)
  moreover have "apply_lines 0 sample_text defaults = Inr (sample_config\<lparr>cf_Port := 80\<rparr>)"
    using sample_lines sample_values
    by (simp add: sample_text_def MaxScanTokenSize_def applyField_def sample_config_def)
  moreover have "applyEnv sample_env (sample_config\<lparr>cf_Port := 80\<rparr>) = Inr sample_config"
    using sample_values by (simp add: applyEnv_def env_vars_def sample_env_def applyField_def sample_config_def)
  moreover have "validate sample_config = None" by (simp add: validate_def sample_config_def defaults_def)
  ultimately show ?thesis by (simp add: Load_def parseYAML_def sample_file_def)
qed

theorem Load_bounds_witness:
  "Load ''kage.yaml'' (Some sample_file) sample_env = Inr sample_config \<and>
   1 \<le> cf_Port sample_config \<and> cf_Port sample_config \<le> 65535"
  using sample_Load Load_bounds [OF sample_Load] by blast

section \<open>Precedence\<close>

text \<open>A variable changes its own field and no other.\<close>

lemma field_update_other:
  assumes "field_update k v = Inr u"
  shows "k \<noteq> ''port'' \<Longrightarrow> cf_Port (u c) = cf_Port c"
    "k \<noteq> ''log_directory'' \<Longrightarrow> cf_LogDirectory (u c) = cf_LogDirectory c"
    "k \<noteq> ''max_segment_size'' \<Longrightarrow> cf_MaxSegmentSize (u c) = cf_MaxSegmentSize c"
    "k \<noteq> ''worker_pool_size'' \<Longrightarrow> cf_WorkerPoolSize (u c) = cf_WorkerPoolSize c"
    "k \<noteq> ''shutdown_timeout'' \<Longrightarrow> cf_ShutdownTimeout (u c) = cf_ShutdownTimeout c"
    "k \<noteq> ''log_retention'' \<Longrightarrow> cf_LogRetention (u c) = cf_LogRetention c"
  using assms unfolding field_update_def by (auto simp: map_sum_Inr split: if_split_asm)

lemma var_step_other:
  "k \<noteq> ''port'' \<Longrightarrow> cf_Port (var_step (k, v) c) = cf_Port c"
  "k \<noteq> ''log_directory'' \<Longrightarrow> cf_LogDirectory (var_step (k, v) c) = cf_LogDirectory c"
  "k \<noteq> ''max_segment_size'' \<Longrightarrow> cf_MaxSegmentSize (var_step (k, v) c) = cf_MaxSegmentSize c"
  "k \<noteq> ''worker_pool_size'' \<Longrightarrow> cf_WorkerPoolSize (var_step (k, v) c) = cf_WorkerPoolSize c"
  "k \<noteq> ''shutdown_timeout'' \<Longrightarrow> cf_ShutdownTimeout (var_step (k, v) c) = cf_ShutdownTimeout c"
  "k \<noteq> ''log_retention'' \<Longrightarrow> cf_LogRetention (var_step (k, v) c) = cf_LogRetention c"
  by (cases "field_update k v"; simp add: var_step_def field_update_other)+

lemma var_step_unset: "var_step (k, []) c = c"
  by (simp add: var_step_def)

lemma parse_field:
  "parseInt v lo hi = Inr n \<Longrightarrow> ParseInt 64 v = Inr n"
  "parse_duration neg v = Inr n \<Longrightarrow> ParseDuration v = Inr n"
  by (auto simp: parseInt_def parse_duration_def split: sum.splits if_splits)

lemma field_update_own:
  "field_update ''port'' v = Inr u \<Longrightarrow> Inr (cf_Port (u c)) = ParseInt 64 v"
  "field_update ''max_segment_size'' v = Inr u \<Longrightarrow> Inr (cf_MaxSegmentSize (u c)) = ParseInt 64 v"
  "field_update ''worker_pool_size'' v = Inr u \<Longrightarrow> Inr (cf_WorkerPoolSize (u c)) = ParseInt 64 v"
  "field_update ''shutdown_timeout'' v = Inr u \<Longrightarrow> Inr (cf_ShutdownTimeout (u c)) = ParseDuration v"
  "field_update ''log_retention'' v = Inr u \<Longrightarrow> Inr (cf_LogRetention (u c)) = ParseDuration v"
  by (auto simp: field_update_def map_sum_Inr parse_field)

lemma var_step_own:
  assumes "v \<noteq> []"
  shows "var_ok (''port'', v) \<Longrightarrow> Inr (cf_Port (var_step (''port'', v) c)) = ParseInt 64 v"
    "var_ok (''max_segment_size'', v) \<Longrightarrow> Inr (cf_MaxSegmentSize (var_step (''max_segment_size'', v) c)) = ParseInt 64 v"
    "var_ok (''worker_pool_size'', v) \<Longrightarrow> Inr (cf_WorkerPoolSize (var_step (''worker_pool_size'', v) c)) = ParseInt 64 v"
    "var_ok (''shutdown_timeout'', v) \<Longrightarrow> Inr (cf_ShutdownTimeout (var_step (''shutdown_timeout'', v) c)) = ParseDuration v"
    "var_ok (''log_retention'', v) \<Longrightarrow> Inr (cf_LogRetention (var_step (''log_retention'', v) c)) = ParseDuration v"
  using assms by (auto simp: var_ok_def var_step_def intro: field_update_own)

lemma var_step_directory: "v \<noteq> [] \<Longrightarrow> cf_LogDirectory (var_step (''log_directory'', v) c) = v"
  by (simp add: var_step_def field_update_def)

text \<open>
  C26: (Precedence) Every field of a loaded configuration has the value of its environment
  variable where that is set, and otherwise the value of the file, or the default where there
  is no file: the environment wins over the file.
\<close>

theorem Load_precedence:
  assumes "Load configFile file env = Inr cfg"
  shows "\<exists>base. (case file of None \<Rightarrow> Inr defaults | Some r \<Rightarrow> parseYAML r defaults) = Inr base \<and>
    (if env ''KAGE_PORT'' = [] then cf_Port cfg = cf_Port base
     else ParseInt 64 (env ''KAGE_PORT'') = Inr (cf_Port cfg)) \<and>
    (if env ''KAGE_LOG_DIRECTORY'' = [] then cf_LogDirectory cfg = cf_LogDirectory base
     else cf_LogDirectory cfg = env ''KAGE_LOG_DIRECTORY'') \<and>
    (if env ''KAGE_MAX_SEGMENT_SIZE'' = [] then cf_MaxSegmentSize cfg = cf_MaxSegmentSize base
     else ParseInt 64 (env ''KAGE_MAX_SEGMENT_SIZE'') = Inr (cf_MaxSegmentSize cfg)) \<and>
    (if env ''KAGE_WORKER_POOL_SIZE'' = [] then cf_WorkerPoolSize cfg = cf_WorkerPoolSize base
     else ParseInt 64 (env ''KAGE_WORKER_POOL_SIZE'') = Inr (cf_WorkerPoolSize cfg)) \<and>
    (if env ''KAGE_SHUTDOWN_TIMEOUT'' = [] then cf_ShutdownTimeout cfg = cf_ShutdownTimeout base
     else ParseDuration (env ''KAGE_SHUTDOWN_TIMEOUT'') = Inr (cf_ShutdownTimeout cfg)) \<and>
    (if env ''KAGE_LOG_RETENTION'' = [] then cf_LogRetention cfg = cf_LogRetention base
     else ParseDuration (env ''KAGE_LOG_RETENTION'') = Inr (cf_LogRetention cfg))"
proof (rule LoadD [OF assms])
  fix base
  assume B: "(case file of None \<Rightarrow> Inr defaults | Some r \<Rightarrow> parseYAML r defaults) = Inr base"
    "apply_vars (env_vars env) base = Inr cfg"
  have "list_all var_ok (env_vars env)" and cfg: "cfg = fold var_step (env_vars env) base"
    using B(2) by (simp_all add: apply_vars_fold)
  then have ok: "var_ok (''port'', env ''KAGE_PORT'')" "var_ok (''log_directory'', env ''KAGE_LOG_DIRECTORY'')"
    "var_ok (''max_segment_size'', env ''KAGE_MAX_SEGMENT_SIZE'')" "var_ok (''worker_pool_size'', env ''KAGE_WORKER_POOL_SIZE'')"
    "var_ok (''shutdown_timeout'', env ''KAGE_SHUTDOWN_TIMEOUT'')" "var_ok (''log_retention'', env ''KAGE_LOG_RETENTION'')"
    by (simp_all add: env_vars_def)
  note E = cfg [unfolded env_vars_def fold_simps comp_apply id_apply]
  show ?thesis
  proof (intro exI [of _ base] conjI B(1))
    show "if env ''KAGE_PORT'' = [] then cf_Port cfg = cf_Port base else ParseInt 64 (env ''KAGE_PORT'') = Inr (cf_Port cfg)"
      by (simp add: E var_step_other var_step_unset var_step_own(1) [OF _ ok(1)])
    show "if env ''KAGE_LOG_DIRECTORY'' = [] then cf_LogDirectory cfg = cf_LogDirectory base
      else cf_LogDirectory cfg = env ''KAGE_LOG_DIRECTORY''"
      by (simp add: E var_step_other var_step_unset var_step_directory)
    show "if env ''KAGE_MAX_SEGMENT_SIZE'' = [] then cf_MaxSegmentSize cfg = cf_MaxSegmentSize base
      else ParseInt 64 (env ''KAGE_MAX_SEGMENT_SIZE'') = Inr (cf_MaxSegmentSize cfg)"
      by (simp add: E var_step_other var_step_unset var_step_own(2) [OF _ ok(3)])
    show "if env ''KAGE_WORKER_POOL_SIZE'' = [] then cf_WorkerPoolSize cfg = cf_WorkerPoolSize base
      else ParseInt 64 (env ''KAGE_WORKER_POOL_SIZE'') = Inr (cf_WorkerPoolSize cfg)"
      by (simp add: E var_step_other var_step_unset var_step_own(3) [OF _ ok(4)])
    show "if env ''KAGE_SHUTDOWN_TIMEOUT'' = [] then cf_ShutdownTimeout cfg = cf_ShutdownTimeout base
      else ParseDuration (env ''KAGE_SHUTDOWN_TIMEOUT'') = Inr (cf_ShutdownTimeout cfg)"
      by (simp add: E var_step_other var_step_unset var_step_own(4) [OF _ ok(5)])
    show "if env ''KAGE_LOG_RETENTION'' = [] then cf_LogRetention cfg = cf_LogRetention base
      else ParseDuration (env ''KAGE_LOG_RETENTION'') = Inr (cf_LogRetention cfg)"
      by (simp add: E var_step_other var_step_unset var_step_own(5) [OF _ ok(6)])
  qed
qed

theorem Load_precedence_witness:
  "\<exists>base. parseYAML sample_file defaults = Inr base \<and> ParseInt 64 ''81'' = Inr (cf_Port sample_config) \<and>
     cf_LogDirectory base = ''/var/kage'' \<and> cf_WorkerPoolSize base = 10000"
  using Load_precedence [OF sample_Load] by (auto simp: sample_env_def sample_config_def defaults_def)

section \<open>A file that sets every key\<close>

definition visible :: "char \<Rightarrow> bool" where
  "visible c \<longleftrightarrow> 33 \<le> (of_char c :: nat) \<and> (of_char c :: nat) \<le> 126"

lemma trim_left_visible:
  assumes "list_all (\<lambda>p. p \<noteq> [] \<longrightarrow> \<not> visible (hd p)) sps" and "s = [] \<or> visible (hd s)"
  shows "trim_left sps s = s"
proof -
  have "hd p = hd s" if "p \<noteq> []" "take (length p) s = p" for p using that by (metis hd_take length_greater_0_conv)
  then have "find (\<lambda>p. p \<noteq> [] \<and> take (length p) s = p) sps = None"
    using assms unfolding find_None_iff list_all_iff by (metis take_Nil)
  then show ?thesis by (subst trim_left.simps) simp
qed

lemma spaces_invisible:
  "list_all (\<lambda>p. p \<noteq> [] \<longrightarrow> \<not> visible (hd p)) spaces" "list_all (\<lambda>p. p \<noteq> [] \<longrightarrow> \<not> visible (hd p)) (map rev spaces)"
  by (simp_all add: spaces_def visible_def)

lemma TrimSpace_visible:
  assumes "s = [] \<or> visible (hd s) \<and> visible (last s)"
  shows "TrimSpace s = s"
  using assms trim_left_visible [OF spaces_invisible(1), of s] trim_left_visible [OF spaces_invisible(2), of "rev s"]
  by (auto simp: TrimSpace_def hd_rev)

lemma TrimSpace_blank:
  assumes "visible (hd s)" and "visible (last s)" and "s \<noteq> []"
  shows "TrimSpace (CHR 0x20 # s) = s"
proof -
  have "trim_left spaces (CHR 0x20 # s) = trim_left spaces s"
    by (subst trim_left.simps) (simp add: spaces_def)
  then show ?thesis using TrimSpace_visible [of s] assms by (simp add: TrimSpace_def)
qed

text \<open>Values that need no quoting.\<close>

definition plain_value :: "string \<Rightarrow> bool" where
  "plain_value v \<longleftrightarrow>
     v \<noteq> [] \<and> list_all (\<lambda>c. visible c \<and> c \<noteq> CHR ''#'' \<and> c \<noteq> CHR 0x22 \<and> c \<noteq> CHR 0x27) v"

definition yaml_entry :: "string \<Rightarrow> string \<Rightarrow> string" where
  "yaml_entry key val = key @ CHR '':'' # CHR 0x20 # val"

lemma plain_ends: "plain_value v \<Longrightarrow> v \<noteq> [] \<and> visible (hd v) \<and> visible (last v)"
  by (auto simp: plain_value_def list_all_iff)

lemma yaml_entry_read:
  assumes k: "plain_value key" "CHR '':'' \<notin> set key" and v: "plain_value val"
  shows "yaml_line (dropCR (yaml_entry key val)) = Some (key, val)"
proof -
  let ?l = "yaml_entry key val"
  note K = plain_ends [OF k(1)] and V = plain_ends [OF v]
  have "last ?l = last val" "hd ?l = hd key" "?l \<noteq> []" using K V by (simp_all add: yaml_entry_def)
  moreover have "last val \<noteq> CHR 0x0D" using V by (auto simp: visible_def)
  moreover have "hd key \<noteq> CHR ''#''" using k(1) K by (auto simp: plain_value_def list_all_iff)
  moreover have "unquoted val = val" "uncommented val = val"
    using v V by (auto simp: unquoted_def uncommented_def plain_value_def list_all_iff)
  moreover have "takeWhile (\<lambda>c. c \<noteq> CHR '':'') ?l = key" "dropWhile (\<lambda>c. c \<noteq> CHR '':'') ?l = CHR '':'' # CHR 0x20 # val"
    using k(2) by (auto simp: yaml_entry_def takeWhile_append dropWhile_append)
  moreover have "TrimSpace ?l = ?l" "TrimSpace key = key" using K V calculation(1,2) by (simp_all add: TrimSpace_visible)
  ultimately show ?thesis
    using K V by (simp add: yaml_line_def Let_def dropCR_def TrimSpace_blank) (simp add: yaml_entry_def)
qed

text \<open>Numbers are plain values.\<close>

lemma length_dec_nat: "n < 10 ^ k \<Longrightarrow> 0 < k \<Longrightarrow> length (dec_nat n) \<le> k"
proof (induction k arbitrary: n)
  case (Suc k)
  show ?case
  proof (cases "n < 10")
    case True
    then show ?thesis by (simp add: dec_nat.simps)
  next
    case False
    then have "n div 10 < 10 ^ k" "0 < k" using Suc.prems by (auto intro: gr0I)
    then have "length (dec_nat (n div 10)) \<le> k" by (rule Suc.IH)
    then show ?thesis using False by (simp add: dec_nat.simps [of n])
  qed
qed simp

lemma digits_plain_value: "list_all is_digit ds \<Longrightarrow> ds \<noteq> [] \<Longrightarrow> plain_value ds"
  by (auto simp: plain_value_def list_all_iff visible_def is_digit_def)

lemma plain_number: "plain_value (dec_nat n)"
  using dec_nat_digits [of n] by (intro digits_plain_value)

lemma plain_duration: "plain_value (dec_nat n @ ''ns'')"
  using plain_number [of n] by (simp add: plain_value_def visible_def)

lemma parseInt_number:
  assumes "lo \<le> m" "m \<le> hi" "0 \<le> m" "m < 2 ^ 63"
  shows "parseInt (dec_nat (nat m)) lo hi = Inr m"
  using ParseInt_dec_nat [of "nat m" 64] assms by (simp add: parseInt_def)

lemma parse_duration_number:
  assumes "0 \<le> d" "d < 2 ^ 63"
  shows "parse_duration neg (dec_nat (nat d) @ ''ns'') = Inr d"
  using ParseDuration_ns [of "nat d"] assms by (simp add: parse_duration_def nat_less_iff)

text \<open>A file for a configuration.\<close>

definition yaml_of :: "config \<Rightarrow> string list" where
  "yaml_of cfg =
     [yaml_entry ''port'' (dec_nat (nat (cf_Port cfg))), yaml_entry ''log_directory'' (cf_LogDirectory cfg),
      yaml_entry ''max_segment_size'' (dec_nat (nat (cf_MaxSegmentSize cfg))),
      yaml_entry ''worker_pool_size'' (dec_nat (nat (cf_WorkerPoolSize cfg))),
      yaml_entry ''shutdown_timeout'' (dec_nat (nat (cf_ShutdownTimeout cfg)) @ ''ns''),
      yaml_entry ''log_retention'' (dec_nat (nat (cf_LogRetention cfg)) @ ''ns'')]"

lemma plain_keys:
  "plain_value ''port''" "plain_value ''log_directory''" "plain_value ''max_segment_size''"
  "plain_value ''worker_pool_size''" "plain_value ''shutdown_timeout''" "plain_value ''log_retention''"
  by (simp_all add: plain_value_def visible_def)

lemma apply_entry:
  assumes "plain_value key" "CHR '':'' \<notin> set key" "plain_value val" "length key + length val < 65534"
  shows "apply_lines n (yaml_entry key val # rest) cfg =
    (case applyField key val cfg of
       Inl e \<Rightarrow> Inl (Wrapf ''line %d (%q): %w'' [ArgInt (int n + 1), ArgStr key] e)
     | Inr cfg1 \<Rightarrow> apply_lines (n + 1) rest cfg1)"
  using yaml_entry_read [OF assms(1-3)] assms(4)
  by (simp add: MaxScanTokenSize_def) (simp add: yaml_entry_def)

lemma apply_yaml:
  assumes ok: "config_ok cfg" and dir: "plain_value (cf_LogDirectory cfg)" "length (cf_LogDirectory cfg) < 65000"
  shows "apply_lines n (yaml_of cfg) cfg0 = Inr cfg"
proof -
  have B: "1 \<le> cf_Port cfg" "cf_Port cfg \<le> 65535" "cf_LogDirectory cfg \<noteq> []"
    "1 \<le> cf_MaxSegmentSize cfg" "cf_MaxSegmentSize cfg \<le> 2 ^ 40" "1 \<le> cf_WorkerPoolSize cfg" "cf_WorkerPoolSize cfg \<le> 2 ^ 20"
    "0 \<le> cf_ShutdownTimeout cfg" "cf_ShutdownTimeout cfg < 2 ^ 63" "0 \<le> cf_LogRetention cfg" "cf_LogRetention cfg < 2 ^ 63"
    using ok unfolding config_ok_def by blast+
  have short: "length (dec_nat (nat m)) \<le> 19" if "m < 2 ^ 63" for m
    using that by (intro length_dec_nat) (simp_all add: nat_less_iff)
  have "apply_lines n (yaml_of cfg) cfg0 =
      Inr (cfg0\<lparr>cf_Port := cf_Port cfg, cf_LogDirectory := cf_LogDirectory cfg, cf_MaxSegmentSize := cf_MaxSegmentSize cfg,
        cf_WorkerPoolSize := cf_WorkerPoolSize cfg, cf_ShutdownTimeout := cf_ShutdownTimeout cfg,
        cf_LogRetention := cf_LogRetention cfg\<rparr>)"
    unfolding yaml_of_def
    using B dir short [of "cf_Port cfg"] short [of "cf_MaxSegmentSize cfg"] short [of "cf_WorkerPoolSize cfg"]
      short [of "cf_ShutdownTimeout cfg"] short [of "cf_LogRetention cfg"]
    by (simp add: apply_entry plain_keys plain_number plain_duration applyField_def parseInt_number parse_duration_number
        del: apply_lines.simps(2))
  then show ?thesis by simp
qed

lemma plain_no_newline:
  assumes "plain_value v"
  shows "CHR 0x0A \<notin> set v"
proof
  assume "CHR 0x0A \<in> set v"
  then have "visible CHR 0x0A" using assms unfolding plain_value_def list_all_iff by blast
  then show False by (simp add: visible_def)
qed

lemma yaml_entry_no_newline: "plain_value key \<Longrightarrow> plain_value val \<Longrightarrow> CHR 0x0A \<notin> set (yaml_entry key val)"
  using plain_no_newline by (simp add: yaml_entry_def)

lemma scan_yaml:
  assumes "plain_value (cf_LogDirectory cfg)"
  shows "scan_lines (join_with CHR 0x0A (yaml_of cfg)) = yaml_of cfg"
proof (rule scan_join)
  show "list_all (\<lambda>l. CHR 0x0A \<notin> set l) (yaml_of cfg)"
    using assms unfolding yaml_of_def list.pred_inject
    by (intro conjI yaml_entry_no_newline plain_keys plain_number plain_duration list.pred_inject(1))
  show "yaml_of cfg \<noteq> []" by (simp add: yaml_of_def)
  have "yaml_entry k v \<noteq> []" for k v by (simp add: yaml_entry_def)
  then show "last (yaml_of cfg) \<noteq> []" by (simp add: yaml_of_def)
qed

text \<open>
  C36: (Round trip of the file) Parsing a file with one line per key returns the configuration
  that the file was written for, whatever the configuration was before, when the directory
  needs no quoting.
\<close>

theorem yaml_roundtrip:
  assumes "config_ok cfg" and "plain_value (cf_LogDirectory cfg)" and "length (cf_LogDirectory cfg) < 65000"
  shows "parseYAML \<lparr>rd_data = string_bytes (join_with CHR 0x0A (yaml_of cfg)), rd_err = io_EOF\<rparr> cfg0 = Inr cfg"
  unfolding parseYAML_def go_reader.simps bytes_string_string_bytes scan_yaml [OF assms(2)] apply_yaml [OF assms]
  by simp

theorem yaml_roundtrip_witness:
  "parseYAML \<lparr>rd_data = string_bytes (join_with CHR 0x0A (yaml_of sample_config)), rd_err = io_EOF\<rparr> defaults = Inr sample_config"
  by (rule yaml_roundtrip) (simp_all add: sample_config_def defaults_def config_ok_def plain_value_def visible_def)

section \<open>A quoted value with a hash sign\<close>

text \<open>The quotes are removed before the comment is looked for, so a quoted value is cut at a hash sign.\<close>

lemma quoted_hash_cut:
  "yaml_line (''log_directory: '' @ [CHR 0x22] @ ''/a#b'' @ [CHR 0x22]) = Some (''log_directory'', ''/a'')"
  by code_simp

end
