(* ===== verification/Kaged.thy ===== *)
theory Kaged
  imports Config_Laws Handler_Offsets
begin

text \<open>
  \<open>cmd/kaged/main.go\<close>: the start of the process, and the pool of connection handlers with its
  shutdown as a step relation.  Binding the port is a parameter, as is what the clients do; the
  HTTP server of the metrics and the log output are left out.
\<close>

section \<open>Start\<close>

definition DefaultConfigFile :: string where
  "DefaultConfigFile = ''kage.yaml''"

definition segment_config_of :: "config \<Rightarrow> segment_config" where
  "segment_config_of cfg = \<lparr>sc_MaxSize = cf_MaxSegmentSize cfg, sc_Retention = cf_LogRetention cfg\<rparr>"

text \<open>A process that cannot start logs a message with the error and exits with status 1.\<close>

definition start_broker ::
    "('c, 'h) metrics \<Rightarrow> go_reader option \<Rightarrow> (string \<Rightarrow> string) \<Rightarrow> (string \<Rightarrow> goerr option) \<Rightarrow> disk \<Rightarrow>
     (string \<times> goerr + config \<times> ('c, 'h) handler) \<times> disk" where
  "start_broker m file env listen d =
     (case Load DefaultConfigFile file env of
        Inl e \<Rightarrow> (Inl (''failed to load configuration'', e), d)
      | Inr cfg \<Rightarrow>
          (case os_MkdirAll (cf_LogDirectory cfg) d of
             (Some e, d1) \<Rightarrow> (Inl (''failed to create log directory'', e), d1)
           | (None, d1) \<Rightarrow>
               (case OpenBrokerStore (cf_LogDirectory cfg) (segment_config_of cfg) d1 of
                  (Inl e, d2) \<Rightarrow> (Inl (''failed to open broker store'', e), d2)
                | (Inr store, d2) \<Rightarrow>
                    (case listen (Addr cfg) of
                       Some e \<Rightarrow> (Inl (''failed to bind listener'', e), d2)
                     | None \<Rightarrow>
                         (case LoadOffsetsCache (NewHandler store m d2) of
                            (Some e, h) \<Rightarrow> (Inl (''failed to hydrate offset cache'', e), hn_disk h)
                          | (None, h) \<Rightarrow> (Inr (cfg, h), hn_disk h))))))"

lemma MkdirAll_exists:
  assumes "root_exists dir d"
  shows "os_MkdirAll dir d = (None, d)"
  using assms mkdir_elems_skip [of "clean_elems dir" "rooted dir" "[]" d "[]"]
  by (simp add: root_exists_def os_MkdirAll_def)

text \<open>
  C5: (Restart of the broker) When a broker that serves an abstract broker shuts down by closing
  its store, and the program starts again with the same directory and segment size, then the new
  process serves the same abstract broker with the same committed offsets, and with the offsets
  topic created if there was none.  This holds when the port is free, no partition has rolled
  over, the committed offsets are those of the offsets log and that log is below two gigabytes.
\<close>

theorem start_after_close:
  assumes S: "serves mx n h B" and D: "durable B" and one: "\<forall>k \<in> dom (ab_parts B). fst (the (ab_parts B k)) = []"
    and small: "length (log_bytes (case ab_parts B offsets_key of None \<Rightarrow> [] | Some p \<Rightarrow> snd p)) < 2 ^ 31"
    and load: "Load DefaultConfigFile file env = Inr cfg" and port: "listen (Addr cfg) = None"
    and same: "cf_LogDirectory cfg = bs_rootDir (hn_store h)" "segment_config_of cfg = bs_cfg (hn_store h)"
  shows "\<exists>bs1 d1 h' d'. broker_Close (hn_store h) (hn_disk h) = (None, bs1, d1) \<and>
    start_broker m file env listen d1 = (Inr (cfg, h'), d') \<and>
    hn_offsetCache h' = hn_offsetCache h \<and> serves mx n h' (spec_create offsets_key B)"
proof -
  obtain bs1 d1 bs2 d2 h' where R: "broker_Close (hn_store h) (hn_disk h) = (None, bs1, d1)"
    "root_exists (bs_rootDir (hn_store h)) d1"
    "OpenBrokerStore (bs_rootDir (hn_store h)) (bs_cfg (hn_store h)) d1 = (Inr bs2, d2)"
    "LoadOffsetsCache (NewHandler bs2 m d2) = (None, h')"
    "hn_offsetCache h' = hn_offsetCache h" "serves mx n h' (spec_create offsets_key B)"
    using offsets_reloaded [OF S D one small, of m] by metis
  have "start_broker m file env listen d1 = (Inr (cfg, h'), hn_disk h')"
    using load port R(3,4) MkdirAll_exists [OF R(2)] by (simp add: start_broker_def same)
  then show ?thesis using R(1,5,6) by blast
qed

text \<open>A process that has logged one offset, closed its store, and starts again.\<close>

definition restart_env :: "string \<Rightarrow> string" where
  "restart_env = (\<lambda>_. [])(''KAGE_LOG_DIRECTORY'' := ''data'', ''KAGE_MAX_SEGMENT_SIZE'' := ''1024'', ''KAGE_LOG_RETENTION'' := ''0'')"

definition restart_config :: config where
  "restart_config = defaults\<lparr>cf_LogDirectory := ''data'', cf_MaxSegmentSize := 1024, cf_LogRetention := 0\<rparr>"

lemma restart_Load: "Load DefaultConfigFile None restart_env = Inr restart_config"
proof -
  have v: "parseInt ''1024'' 1 (2 ^ 40) = Inr 1024" "ParseDuration ''0'' = Inr 0" by code_simp+
  show ?thesis
    using v by (simp add: Load_def applyEnv_def env_vars_def restart_env_def applyField_def parse_duration_def
        validate_def restart_config_def defaults_def)
qed

lemma commit_keeps_config:
  assumes "commit_partition_step groupID topic part h = (r, h')"
  shows "bs_rootDir (hn_store h') = bs_rootDir (hn_store h)" "bs_cfg (hn_store h') = bs_cfg (hn_store h)"
  using assms
  by (auto simp: commit_partition_step_def Let_def get_partition_def append_to_def GetOrCreatePartition_def broker_Append_def
      split: prod.splits sum.splits option.splits)

theorem start_after_close_witness:
  "\<exists>r h bs1 d1 h' d'. commit_partition_step ''g'' ''t'' sample_commit_part sample_handler = (Inr r, h) \<and>
     broker_Close (hn_store h) (hn_disk h) = (None, bs1, d1) \<and>
     start_broker sample_metrics None restart_env (\<lambda>_. None) d1 = (Inr (restart_config, h'), d') \<and>
     hn_offsetCache h' sample_cache_key = Some 42"
proof -
  obtain h where C: "commit_partition_step ''g'' ''t'' sample_commit_part sample_handler = (Inr (0, 0), h)"
    "serves_offsets 1024 0 h committed_broker"
    using commit_step_ok [of "''g''" "''t''" 0 1024 sample_commit_part sample_handler empty_broker] sample_commit_spec by auto
  then have S: "serves 1024 0 h committed_broker" "durable committed_broker" by (simp_all add: serves_offsets_def)
  have "hn_offsetCache h sample_cache_key = Some 42" using servesD(2) [OF S(1)] by (simp add: committed_broker_def)
  then show ?thesis
    using C(1) start_after_close [OF S _ _ restart_Load, of "\<lambda>_. None" sample_metrics] commit_keeps_config [OF C(1)]
    by (auto simp: committed_broker_def length_commit_record restart_config_def segment_config_of_def
        sample_handler_def NewHandler_def sample_broker_def sample_cfg_def)
qed

section \<open>The pool of connection handlers\<close>

text \<open>
  The accept loop: waiting for a connection; with one that \<open>Accept\<close> has returned, that has taken
  its slot of the semaphore, or that the wait group counts; or returned.
\<close>

datatype acceptor = Accepting | Accepted nat | Admitted nat | Counted nat | Returned

text \<open>
  The goroutine that waits for the handlers: before its call of \<open>Wait\<close>, blocked in it, woken by
  the last \<open>Done\<close>, or past it, with \<open>shutdownDone\<close> closed.
\<close>

datatype waiter = No_waiter | Wait_called | Blocked | Woken | Wait_over

text \<open>The main goroutine: before the listener is closed, in its \<open>select\<close>, or past it.\<close>

datatype main_state = Running | Draining | Stopped_clean | Stopped_forced | Crashed

record server =
  sv_sem :: nat
  sv_wg :: nat
  sv_acceptor :: acceptor
  sv_serving :: "nat list"
  sv_leaving :: "nat list"
  sv_rejected :: "nat list"
  sv_listening :: bool
  sv_waiter :: waiter
  sv_main :: main_state

definition initial :: server where
  "initial = \<lparr>sv_sem = 0, sv_wg = 0, sv_acceptor = Accepting, sv_serving = [], sv_leaving = [], sv_rejected = [],
     sv_listening = True, sv_waiter = No_waiter, sv_main = Running\<rparr>"

definition alive :: "server \<Rightarrow> bool" where
  "alive s \<longleftrightarrow> sv_main s = Running \<or> sv_main s = Draining"

text \<open>
  One step of one goroutine, with a pool of \<open>n\<close> slots.  A handler is in \<open>sv_serving\<close> until
  it has given back its slot, and in \<open>sv_leaving\<close> until it has left the wait group.  The signal
  counts as seen when the listener is closed.  \<open>Wait\<close> returns at once when the counter is 0;
  otherwise it blocks until the counter gets there, and it panics when the counter has been
  raised again before it runs on.  A panic ends the process.  The relation follows the process until
  the main goroutine leaves its \<open>select\<close>; the deferred calls come after it.
\<close>

inductive step :: "nat \<Rightarrow> server \<Rightarrow> server \<Rightarrow> bool" for n where
  accept: "alive s \<Longrightarrow> sv_acceptor s = Accepting \<Longrightarrow> sv_listening s \<Longrightarrow> step n s (s\<lparr>sv_acceptor := Accepted c\<rparr>)"
| accept_error: "alive s \<Longrightarrow> sv_acceptor s = Accepting \<Longrightarrow> step n s (s\<lparr>sv_acceptor := Returned\<rparr>)"
| admit: "alive s \<Longrightarrow> sv_acceptor s = Accepted c \<Longrightarrow> sv_sem s < n \<Longrightarrow>
    step n s (s\<lparr>sv_sem := sv_sem s + 1, sv_acceptor := Admitted c\<rparr>)"
| reject: "alive s \<Longrightarrow> sv_acceptor s = Accepted c \<Longrightarrow> \<not> sv_sem s < n \<Longrightarrow>
    step n s (s\<lparr>sv_rejected := c # sv_rejected s, sv_acceptor := Accepting\<rparr>)"
| add: "alive s \<Longrightarrow> sv_acceptor s = Admitted c \<Longrightarrow> step n s (s\<lparr>sv_wg := sv_wg s + 1, sv_acceptor := Counted c\<rparr>)"
| spawn: "alive s \<Longrightarrow> sv_acceptor s = Counted c \<Longrightarrow>
    step n s (s\<lparr>sv_serving := c # sv_serving s, sv_acceptor := Accepting\<rparr>)"
| release: "alive s \<Longrightarrow> c \<in> set (sv_serving s) \<Longrightarrow> 0 < sv_sem s \<Longrightarrow>
    step n s (s\<lparr>sv_sem := sv_sem s - 1, sv_serving := remove1 c (sv_serving s), sv_leaving := c # sv_leaving s\<rparr>)"
| done_worker: "alive s \<Longrightarrow> c \<in> set (sv_leaving s) \<Longrightarrow>
    step n s (s\<lparr>sv_wg := sv_wg s - 1, sv_leaving := remove1 c (sv_leaving s),
      sv_waiter := (if sv_wg s = 1 \<and> sv_waiter s = Blocked then Woken else sv_waiter s)\<rparr>)"
| panic: "alive s \<Longrightarrow> c \<in> set (sv_serving s) \<Longrightarrow> step n s (s\<lparr>sv_main := Crashed\<rparr>)"
| signal: "sv_main s = Running \<Longrightarrow> step n s (s\<lparr>sv_main := Draining, sv_listening := False, sv_waiter := Wait_called\<rparr>)"
| wait_now: "alive s \<Longrightarrow> sv_waiter s = Wait_called \<Longrightarrow> sv_wg s = 0 \<Longrightarrow> step n s (s\<lparr>sv_waiter := Wait_over\<rparr>)"
| wait_block: "alive s \<Longrightarrow> sv_waiter s = Wait_called \<Longrightarrow> sv_wg s \<noteq> 0 \<Longrightarrow> step n s (s\<lparr>sv_waiter := Blocked\<rparr>)"
| wake: "alive s \<Longrightarrow> sv_waiter s = Woken \<Longrightarrow> sv_wg s = 0 \<Longrightarrow> step n s (s\<lparr>sv_waiter := Wait_over\<rparr>)"
| reused: "alive s \<Longrightarrow> sv_waiter s = Woken \<Longrightarrow> sv_wg s \<noteq> 0 \<Longrightarrow> step n s (s\<lparr>sv_main := Crashed\<rparr>)"
| drained: "sv_main s = Draining \<Longrightarrow> sv_waiter s = Wait_over \<Longrightarrow> step n s (s\<lparr>sv_main := Stopped_clean\<rparr>)"
| timeout: "sv_main s = Draining \<Longrightarrow> step n s (s\<lparr>sv_main := Stopped_forced\<rparr>)"

text \<open>The connection the accept loop holds: at all, with a slot, and counted by the wait group.\<close>

definition held :: "acceptor \<Rightarrow> nat" where
  "held a = (case a of Accepted c \<Rightarrow> 1 | Admitted c \<Rightarrow> 1 | Counted c \<Rightarrow> 1 | _ \<Rightarrow> 0)"

definition slot_held :: "acceptor \<Rightarrow> nat" where
  "slot_held a = (case a of Admitted c \<Rightarrow> 1 | Counted c \<Rightarrow> 1 | _ \<Rightarrow> 0)"

definition count_held :: "acceptor \<Rightarrow> nat" where
  "count_held a = (case a of Counted c \<Rightarrow> 1 | _ \<Rightarrow> 0)"

definition pool_inv :: "nat \<Rightarrow> server \<Rightarrow> bool" where
  "pool_inv n s \<longleftrightarrow>
     sv_sem s = length (sv_serving s) + slot_held (sv_acceptor s) \<and> sv_sem s \<le> n \<and>
     sv_wg s = length (sv_serving s) + length (sv_leaving s) + count_held (sv_acceptor s) \<and>
     (sv_listening s \<longrightarrow> sv_waiter s = No_waiter \<and> (sv_main s = Running \<or> sv_main s = Crashed)) \<and>
     (sv_main s = Running \<longrightarrow> sv_waiter s = No_waiter) \<and>
     (sv_main s = Stopped_clean \<longrightarrow> sv_waiter s = Wait_over) \<and>
     (sv_waiter s = Blocked \<longrightarrow> 0 < sv_wg s) \<and>
     (sv_waiter s = Wait_over \<longrightarrow> length (sv_serving s) + length (sv_leaving s) + held (sv_acceptor s) \<le> 1)"

lemma held_simps [simp]:
  "held Accepting = 0" "held (Accepted c) = 1" "held (Admitted c) = 1" "held (Counted c) = 1" "held Returned = 0"
  "slot_held Accepting = 0" "slot_held (Accepted c) = 0" "slot_held (Admitted c) = 1" "slot_held (Counted c) = 1"
  "slot_held Returned = 0" "count_held Accepting = 0" "count_held (Accepted c) = 0" "count_held (Admitted c) = 0"
  "count_held (Counted c) = 1" "count_held Returned = 0"
  by (simp_all add: held_def slot_held_def count_held_def)

lemma held_le: "held a \<le> 1"
  by (simp add: held_def split: acceptor.split)

lemma length_remove1_in: "c \<in> set cs \<Longrightarrow> length cs = Suc (length (remove1 c cs))"
  by (simp add: length_remove1) (metis Suc_pred length_pos_if_in_set)

lemma pool_inv_step:
  assumes "step n s s'" and "pool_inv n s"
  shows "pool_inv n s'"
  using assms
proof (induction rule: step.induct)
  case (release s c)
  then show ?case using length_remove1_in [OF release(2)] by (simp add: pool_inv_def)
next
  case (done_worker s c)
  then show ?case using length_remove1_in [OF done_worker(2)] by (auto simp: pool_inv_def)
next
  case (wait_now s)
  then show ?case using held_le [of "sv_acceptor s"] by (auto simp: pool_inv_def alive_def)
next
  case (wake s)
  then show ?case using held_le [of "sv_acceptor s"] by (auto simp: pool_inv_def alive_def)
qed (auto simp: pool_inv_def alive_def)

text \<open>The states of a run of the program.\<close>

definition reachable :: "nat \<Rightarrow> server \<Rightarrow> bool" where
  "reachable n s \<longleftrightarrow> (step n)\<^sup>*\<^sup>* initial s"

lemma pool_inv_reachable:
  assumes "reachable n s"
  shows "pool_inv n s"
  using assms unfolding reachable_def
proof (induction rule: rtranclp_induct)
  case base
  then show ?case by (simp add: pool_inv_def initial_def)
qed (rule pool_inv_step)

lemma reachable_step: "reachable n s \<Longrightarrow> step n s s' \<Longrightarrow> reachable n s'"
  unfolding reachable_def by (rule rtranclp.rtrancl_into_rtrancl)

lemma reachable_initial: "reachable n initial"
  unfolding reachable_def by simp

text \<open>
  C13: (Pool) However the goroutines interleave, at most as many connections are served at a
  time as the pool has slots, a handler that returns never blocks when it gives its slot back,
  the wait group counts the handlers that have not finished, and when the program reports that all
  connections are drained, at most one is left: the one that the accept loop held when \<open>Wait\<close>
  returned.
\<close>

theorem pool_bounded:
  assumes "reachable n s"
  shows "length (sv_serving s) \<le> n \<and> (sv_serving s \<noteq> [] \<longrightarrow> 0 < sv_sem s) \<and>
    sv_wg s = length (sv_serving s) + length (sv_leaving s) + count_held (sv_acceptor s) \<and>
    (sv_waiter s = Blocked \<longrightarrow> 0 < sv_wg s) \<and>
    (sv_main s = Stopped_clean \<longrightarrow> length (sv_serving s) + length (sv_leaving s) + held (sv_acceptor s) \<le> 1)"
  using pool_inv_reachable [OF assms] by (auto simp: pool_inv_def)

text \<open>A pool of one slot: the first connection is served, the second one rejected.\<close>

definition serving_7 :: server where
  "serving_7 = initial\<lparr>sv_sem := 1, sv_wg := 1, sv_serving := [7]\<rparr>"

definition busy :: server where
  "busy = serving_7\<lparr>sv_rejected := [8]\<rparr>"

lemma serving_7_reachable: "0 < n \<Longrightarrow> reachable n serving_7"
proof -
  assume n: "0 < n"
  let ?a = "initial\<lparr>sv_acceptor := Accepted 7\<rparr>" and ?b = "initial\<lparr>sv_sem := 1, sv_acceptor := Admitted 7\<rparr>"
    and ?c = "initial\<lparr>sv_sem := 1, sv_wg := 1, sv_acceptor := Counted 7\<rparr>"
  have 1: "step n initial ?a" using step.accept [of initial n 7] by (simp add: initial_def alive_def)
  have 2: "step n ?a ?b" using step.admit [of ?a 7 n] n by (simp add: initial_def alive_def)
  have 3: "step n ?b ?c" using step.add [of ?b 7 n] by (simp add: initial_def alive_def)
  have 4: "step n ?c serving_7" using step.spawn [of ?c 7 n] by (simp add: initial_def alive_def serving_7_def)
  show ?thesis by (rule reachable_step [OF reachable_step [OF reachable_step [OF reachable_step [OF reachable_initial 1] 2] 3] 4])
qed

lemma busy_reachable: "reachable 1 busy"
proof -
  let ?a = "serving_7\<lparr>sv_acceptor := Accepted 8\<rparr>"
  have 1: "step 1 serving_7 ?a" using step.accept [of serving_7 1 8] by (simp add: serving_7_def initial_def alive_def)
  have 2: "step 1 ?a busy" using step.reject [of ?a 8 1] by (simp add: serving_7_def initial_def alive_def busy_def)
  show ?thesis by (rule reachable_step [OF reachable_step [OF serving_7_reachable [OF zero_less_one] 1] 2])
qed

theorem pool_bounded_witness:
  "reachable 1 busy \<and> sv_serving busy = [7] \<and> length (sv_serving busy) \<le> 1"
  using busy_reachable pool_bounded [OF busy_reachable] by (simp add: busy_def serving_7_def initial_def)

section \<open>Shutdown\<close>

text \<open>What is left to do once the listener is closed.\<close>

definition work_left :: "server \<Rightarrow> nat" where
  "work_left s =
     2 * length (sv_serving s) + length (sv_leaving s) +
     (case sv_acceptor s of Returned \<Rightarrow> 0 | Accepting \<Rightarrow> 1 | Counted c \<Rightarrow> 4 | Admitted c \<Rightarrow> 5 | Accepted c \<Rightarrow> 6) +
     (case sv_waiter s of Wait_called \<Rightarrow> 3 | Blocked \<Rightarrow> 2 | Woken \<Rightarrow> 1 | _ \<Rightarrow> 0) + (if alive s then 1 else 0)"

lemma shutdown_step:
  assumes "step n s s'" and "sv_main s \<noteq> Running" and "pool_inv n s"
  shows "work_left s' < work_left s \<and> sv_main s' \<noteq> Running"
  using assms
  by (induction rule: step.induct)
    (auto simp: work_left_def alive_def pool_inv_def dest!: length_remove1_in split: acceptor.splits waiter.splits)

text \<open>
  C24: (Shutdown) After the signal the program comes to its end: every run from there is finite,
  and a run that cannot go on has stopped, drained or forced by the timeout, or crashed.
\<close>

theorem shutdown_ends:
  shows "wfp (\<lambda>s' s. step n s s' \<and> reachable n s \<and> sv_main s \<noteq> Running) \<and>
    (\<forall>s. (\<exists>s'. step n s s') \<or> sv_main s \<in> {Stopped_clean, Stopped_forced, Crashed})"
proof
  show "wfp (\<lambda>s' s. step n s s' \<and> reachable n s \<and> sv_main s \<noteq> Running)"
    by (rule wfp_if_convertible_to_nat [where f = work_left]) (use shutdown_step pool_inv_reachable in blast)
  show "\<forall>s. (\<exists>s'. step n s s') \<or> sv_main s \<in> {Stopped_clean, Stopped_forced, Crashed}"
  proof
    fix s
    show "(\<exists>s'. step n s s') \<or> sv_main s \<in> {Stopped_clean, Stopped_forced, Crashed}"
      by (cases "sv_main s") (auto intro: step.signal step.timeout)
  qed
qed

text \<open>
  \<open>wg.Add\<close> is not ordered before \<open>wg.Wait\<close>.  A connection that was accepted when the listener is
  closed may not be counted yet, so the program reports that everything is drained and leaves
  while a handler is serving; and a connection that is counted after the last handler has left
  makes \<open>Wait\<close> panic.
\<close>

theorem drained_while_serving:
  assumes "0 < n"
  shows "\<exists>s. reachable n s \<and> sv_main s = Stopped_clean \<and> sv_serving s = [7]"
proof -
  let ?a = "initial\<lparr>sv_acceptor := Accepted 7\<rparr>"
  let ?b = "?a\<lparr>sv_main := Draining, sv_listening := False, sv_waiter := Wait_called\<rparr>"
  let ?c = "?b\<lparr>sv_waiter := Wait_over\<rparr>"
  let ?d = "?c\<lparr>sv_sem := 1, sv_acceptor := Admitted 7\<rparr>"
  let ?e = "?d\<lparr>sv_wg := 1, sv_acceptor := Counted 7\<rparr>"
  let ?f = "?e\<lparr>sv_serving := [7], sv_acceptor := Accepting\<rparr>"
  let ?g = "?f\<lparr>sv_main := Stopped_clean\<rparr>"
  have 1: "step n initial ?a" using step.accept [of initial n 7] by (simp add: initial_def alive_def)
  have 2: "step n ?a ?b" using step.signal [of ?a n] by (simp add: initial_def)
  have 3: "step n ?b ?c" using step.wait_now [of ?b n] by (simp add: initial_def alive_def)
  have 4: "step n ?c ?d" using step.admit [of ?c 7 n] assms by (simp add: initial_def alive_def)
  have 5: "step n ?d ?e" using step.add [of ?d 7 n] by (simp add: initial_def alive_def)
  have 6: "step n ?e ?f" using step.spawn [of ?e 7 n] by (simp add: initial_def alive_def)
  have 7: "step n ?f ?g" using step.drained [of ?f n] by (simp add: initial_def)
  have "reachable n ?g" by (rule reachable_step [OF reachable_step [OF reachable_step [OF reachable_step [OF reachable_step [OF reachable_step [OF reachable_step [OF reachable_initial 1] 2] 3] 4] 5] 6] 7])
  then show ?thesis by (intro exI [of _ ?g]) simp
qed

theorem wait_reused:
  assumes "0 < n"
  shows "\<exists>s s'. reachable n s \<and> step n s s' \<and> sv_serving s = [] \<and> sv_main s' = Crashed"
proof -
  let ?a = "serving_7\<lparr>sv_acceptor := Accepted 8\<rparr>"
  let ?b = "?a\<lparr>sv_main := Draining, sv_listening := False, sv_waiter := Wait_called\<rparr>"
  let ?c = "?b\<lparr>sv_waiter := Blocked\<rparr>"
  let ?d = "?c\<lparr>sv_sem := 0, sv_serving := [], sv_leaving := [7]\<rparr>"
  let ?e = "?d\<lparr>sv_wg := 0, sv_leaving := [], sv_waiter := Woken\<rparr>"
  let ?f = "?e\<lparr>sv_sem := 1, sv_acceptor := Admitted 8\<rparr>"
  let ?g = "?f\<lparr>sv_wg := 1, sv_acceptor := Counted 8\<rparr>"
  have 1: "step n serving_7 ?a" using step.accept [of serving_7 n 8] by (simp add: serving_7_def initial_def alive_def)
  have 2: "step n ?a ?b" using step.signal [of ?a n] by (simp add: serving_7_def initial_def)
  have 3: "step n ?b ?c" using step.wait_block [of ?b n] by (simp add: serving_7_def initial_def alive_def)
  have 4: "step n ?c ?d" using step.release [of ?c 7 n] by (simp add: serving_7_def initial_def alive_def)
  have 5: "step n ?d ?e" using step.done_worker [of ?d 7 n] by (simp add: serving_7_def initial_def alive_def)
  have 6: "step n ?e ?f" using step.admit [of ?e 8 n] assms by (simp add: serving_7_def initial_def alive_def)
  have 7: "step n ?f ?g" using step.add [of ?f 8 n] by (simp add: serving_7_def initial_def alive_def)
  have 8: "step n ?g (?g\<lparr>sv_main := Crashed\<rparr>)" using step.reused [of ?g n] by (simp add: serving_7_def initial_def alive_def)
  have "reachable n ?g" by (rule reachable_step [OF reachable_step [OF reachable_step [OF reachable_step [OF reachable_step [OF reachable_step [OF reachable_step [OF serving_7_reachable [OF assms] 1] 2] 3] 4] 5] 6] 7])
  with 8 show ?thesis by (intro exI [of _ ?g] exI [of _ "?g\<lparr>sv_main := Crashed\<rparr>"]) simp
qed

text \<open>Any error of the listener ends the accept loop, and no connection is served after that.\<close>

lemma returned_step:
  "step n s s' \<Longrightarrow> sv_acceptor s = Returned \<Longrightarrow> sv_acceptor s' = Returned \<and> set (sv_serving s') \<subseteq> set (sv_serving s)"
  by (induction rule: step.induct) (simp_all add: set_remove1_subset)

lemma accept_loop_gone:
  assumes "(step n)\<^sup>*\<^sup>* s s'" and "sv_acceptor s = Returned"
  shows "sv_acceptor s' = Returned \<and> set (sv_serving s') \<subseteq> set (sv_serving s)"
  using assms
proof (induction rule: rtranclp_induct)
  case (step s1 s2)
  then show ?case using returned_step [of n s1 s2] by blast
qed simp

text \<open>With the largest port that is accepted, the port of the metrics does not exist.\<close>

lemma metrics_port_overflow: "MetricsAddr 65535 = ''0.0.0.0:65536''"
  by (simp add: MetricsAddr_def fmt_d_def dec_nat.simps digit_char_def char_of_def bit_Suc_0_iff)

end
