(* ===== verification/Spec2Isabelle.thy ===== *)
theory Spec2Isabelle
  imports Record_Batch Requests_Group Response_Laws Handler_Consume Handler_Loop Handler_Metadata Handler_Query Handler_Commits Kaged
begin

text \<open>
  A verification of kage, a message broker that speaks the Kafka wire protocol and keeps every
  topic-partition as a log of segments on disk.

  \<^bold>\<open>The program.\<close>  \<open>cmd/kaged/main.go\<close> loads the configuration (\<open>internal/config\<close>), opens the
  broker store (\<open>internal/storage\<close>), fills the cache of committed offsets and serves
  connections from a bounded pool.  A connection is a stream of requests, which
  \<open>internal/protocol\<close> parses; \<open>internal/server/handler.go\<close> dispatches each to a handler that
  works on the broker store and writes one response frame.  The broker store maps a
  topic-partition to a partition store (\<open>store.go\<close>), which appends to its active segment
  (\<open>segment.go\<close>, with the sparse index of \<open>index.go\<close>), starts a new one when it is full and
  removes expired ones.  \<open>internal/metrics\<close> counts.

  \<^bold>\<open>Conventions.\<close>  The theory \<open>Kage_Prelude\<close> has the vocabulary: integers of the protocol are
  words of their width, sizes and offsets of the storage are \<open>int\<close> with the wrap-around
  written out (\<open>i64\<close>, \<open>u64\<close>, \<open>i32\<close>, \<open>u32\<close>), errors are values of \<open>goerr\<close>, and a result is
  a value, an error or a panic.  A Go struct is a record with the prefixed names of its fields,
  a method a function on the record, and a loop is a recursive function; the loops over the
  parts of a request are \<open>each_of\<close>.  The disk is a value, with files, directories, denied
  paths, free space and a clock.  What the source uses of the Go library is written out:
  \<open>Go_Strings\<close> (\<open>fmt\<close>, \<open>strconv\<close>, \<open>filepath\<close>), \<open>Go_Time\<close> (\<open>time.ParseDuration\<close>), \<open>Files\<close>
  and \<open>Directories\<close> (\<open>os\<close>, \<open>bufio\<close>), \<open>Conn\<close> (\<open>net.Conn\<close>).

  \<^bold>\<open>Protocol.\<close>  \<open>Codec\<close> models \<open>decoder.go\<close> and \<open>encoder.go\<close> and has the locales
  \<open>wire_view\<close> and \<open>wire_codec\<close>: an encoding, its decoder and the values on which they agree.
  \<open>Requests\<close> and \<open>Requests_Group\<close> model the request half of \<open>messages.go\<close>, with an
  interpretation per structure, from which the round trips follow; every parser is
  \<open>stream_local\<close>, so it neither reads past its request nor depends on what follows.
  \<open>Responses\<close> and \<open>Response_Laws\<close> model the response half; the streamed fetch response is one
  frame, and the metadata response can be read back for every version.  \<open>Record_Batch\<close> models
  \<open>record_batch.go\<close> with CRC-32C computed bit by bit: a changed byte is always detected.

  \<^bold>\<open>Storage.\<close>  \<open>Log_Index\<close> models \<open>index.go\<close>, its binary search agrees with a scan.
  \<open>Segment\<close> models \<open>segment.go\<close>: it refines a list of records, and whatever fails, the file
  holds a prefix of the framed log.  \<open>Store_Interface\<close> states the interfaces of \<open>store.go\<close> as
  the locales \<open>append_store\<close> and \<open>fetch_store\<close>, which \<open>Partition_Store\<close> interprets for
  \<open>store.go\<close>; \<open>Partition_Laws\<close> has its refinement over any sequence of appends, the safety and
  completeness of the cleaner, also beside appends, and what a restart does.  \<open>Broker_Store\<close>,
  \<open>Broker_Laws\<close>, \<open>Broker_Restart\<close> and \<open>Broker_Properties\<close> do the same for
  \<open>broker_store.go\<close>; the invariant \<open>bs_inv G bs d A\<close> relates store and disk to a map \<open>A\<close> from
  keys to partitions, where \<open>G\<close> has the files of closed segments that the cleaner may have removed.
  It holds again after every round of the cleaner, so what is shown of the store and of the handlers
  covers the states after it.

  \<^bold>\<open>Server.\<close>  \<open>Handler\<close> models \<open>handler.go\<close>, with \<open>Offset_Records\<close> for the records of
  committed offsets and \<open>Metrics\<close> for the counters.  \<open>Handler_Spec\<close> has an abstract broker,
  the relation \<open>serves mx n h B\<close> and the locale \<open>step_refines\<close>, which carries the refinement of
  a loop body to the loop.  On it rest \<open>Handler_Produce\<close>, \<open>Handler_Fetch\<close>,
  \<open>Handler_Offsets\<close>, \<open>Handler_Query\<close> and \<open>Handler_Metadata\<close>: each handler does what its
  specification says and answers with the specified frame.  \<open>Handler_Consume\<close> composes produce
  and fetch from the view of a consumer.  \<open>Handler_Commits\<close> interleaves the commits of several
  connections: commits for different keys have the effect of some order of them, commits for
  one key that overlap need not.  \<open>Handler_Loop\<close> treats the dispatcher and the
  connection loop for arbitrary requests and states: the loop returns, and the responses come
  in the order of the requests.

  \<^bold>\<open>Process.\<close>  \<open>Config\<close> and \<open>Config_Laws\<close> model \<open>config.go\<close>: bounds, precedence of the
  sources, round trip of the file.  \<open>Kaged\<close> models \<open>main.go\<close>: the start, which brings back
  the state of a closed broker whose partitions have not rolled over, and the pool and its
  shutdown as the step relation \<open>step\<close>, with one rule for each access to the listener, the semaphore
  and the wait group; its invariant bounds the number of connections, and its runs end after the
  signal.

  \<^bold>\<open>Bounds.\<close>  There is no fuel: every loop is a total function with a measure, but for the
  connection loop, which is a partial function into \<open>option\<close> and proved to return.  The
  refinements assume that a partition stays below \<open>2 ^ 62\<close> bytes, far from where an \<open>int64\<close>
  wraps, that a record is shorter than \<open>2 ^ 32\<close> bytes, the limit of its length field, and that
  topics have names for which keys and directories correspond (\<open>valid_tp\<close>); what happens to
  other names is stated in \<open>Broker_Properties\<close>.  They are about a disk that takes every write
  and every name; the behaviour of a segment on one that does not take every write is in \<open>Segment\<close>.
  A real disk refuses names with a NUL byte or of more than 255 bytes: creating such a partition
  fails there, as it does here on a disk that denies the path.

  \<^bold>\<open>Parameters.\<close>  The Prometheus library is a record of its two operations, with the
  hypothesis \<open>prom_accepts\<close> that they do not panic for a topic.  The environment, the
  configuration file, the outcome of binding the port and what a peer sends are arguments.

  \<^bold>\<open>Not modelled.\<close>  The log output.  The HTTP server of the metrics and their registration, which
  are calls into libraries.  Errors of \<open>Stat\<close> and \<open>Seek\<close> on an open file, and of reads other than at
  the end of the file.  The times of directories, which are an argument of the cleaner.  The locks: an
  operation of a store is one step, but for the cleaner, whose entries are interleaved with appends
  in \<open>Partition_Laws\<close>; and but for the commits of \<open>Handler_Commits\<close> one connection is served at a
  time, so the interleaving of other handlers between the operations of a request is not covered;
  the pool and the shutdown are modelled with their interleavings, but without what the handlers do
  and without the deferred calls at the end.  The ticker of the cleaner; one round of it is modelled.
  The order in which Go ranges over a map: the metadata response has the order of the store, and
  for the environment the order is shown not to matter.
\<close>

section \<open>Properties that span components\<close>

text \<open>
  C35: no request parser reads past its request or depends on what follows it.  A parser
  that succeeds has consumed exactly some bytes; on any stream that begins with those bytes
  it returns the same request, and on a stream that ends inside them it returns an error
  that wraps the error of the stream, and never a different request.
\<close>

theorem requests_stream_local:
  "stream_local ParseRequestHeader \<and> stream_local (ParseMetadataRequest h) \<and>
   stream_local (ParseProduceRequest h) \<and> stream_local (ParseFetchRequest h) \<and>
   stream_local (ParseOffsetCommitRequest h) \<and> stream_local (ParseOffsetFetchRequest h) \<and>
   stream_local (ParseListOffsetsRequest h) \<and> stream_local (ParseFindCoordinatorRequest h) \<and>
   stream_local (ParseJoinGroupRequest h) \<and> stream_local (ParseHeartbeatRequest h) \<and>
   stream_local (ParseLeaveGroupRequest h) \<and> stream_local (ParseSyncGroupRequest h)"
  by (intro conjI stream_intros)

end
